(* ===== verification/Prelude.thy ===== *)
theory Prelude
  imports Main "HOL-Library.Word"
begin

text \<open>
  Shared vocabulary of the development: machine words, the Python exceptions the sources
  raise and catch, the state-and-exception computations every effectful Python function is
  translated to, and the generic lemmas on lists and words that the component theories use.

  An effectful Python function over a world \<open>'w\<close> is a function
  \<open>'w \<Rightarrow> (exn + 'a) \<times> 'w\<close>: it either raises (\<open>Inl\<close>) or returns (\<open>Inr\<close>), and in both cases
  the effects made so far are kept in the resulting world, as in Python.
\<close>

unbundle bit_operations_syntax

named_theorems sx_simps \<open>evaluation of state-and-exception computations\<close>
named_theorems keeps_intros \<open>computations that leave a part of the state alone\<close>
named_theorems reg_simps \<open>field decoding of the console registers\<close>

type_synonym byte = "8 word"
type_synonym u32 = "32 word"

subsection \<open>Python exceptions\<close>

text \<open>
  The exceptions named in the sources. \<open>OSError\<close> stands for an \<^verbatim>\<open>OSError\<close> that is none of
  the listed subclasses, \<open>OtherException\<close> for any further subclass of \<^verbatim>\<open>Exception\<close>. The last
  two are subclasses of \<^verbatim>\<open>BaseException\<close> only: \<^verbatim>\<open>except Exception\<close> lets them through.
\<close>

datatype exn =
    OSError
  | FileNotFoundError
  | SocketTimeout
  | ConnectionRefusedError
  | BoardBusy
  | RuntimeError
  | AttributeError
  | IndexError
  | ValueError
  | AssertionError
  | TimeoutExpired
  | SoCError
  | OtherException nat
  | KeyboardInterrupt
  | SystemExit int

fun is_OSError :: "exn \<Rightarrow> bool" where
  "is_OSError OSError = True"
| "is_OSError FileNotFoundError = True"
| "is_OSError SocketTimeout = True"
| "is_OSError ConnectionRefusedError = True"
| "is_OSError _ = False"

fun is_Exception :: "exn \<Rightarrow> bool" where
  "is_Exception KeyboardInterrupt = False"
| "is_Exception (SystemExit _) = False"
| "is_Exception _ = True"

lemma is_OSError_is_Exception: "is_OSError e \<Longrightarrow> is_Exception e"
  by (cases e) simp_all

subsection \<open>State-and-exception computations\<close>

type_synonym ('w, 'a) sx = "'w \<Rightarrow> (exn + 'a) \<times> 'w"

definition sx_return :: "'a \<Rightarrow> ('w, 'a) sx" where
  "sx_return x w = (Inr x, w)"

definition sx_raise :: "exn \<Rightarrow> ('w, 'a) sx" where
  "sx_raise e w = (Inl e, w)"

definition sx_bind :: "('w, 'a) sx \<Rightarrow> ('a \<Rightarrow> ('w, 'b) sx) \<Rightarrow> ('w, 'b) sx" where
  "sx_bind m f w = (case m w of (Inl e, w') \<Rightarrow> (Inl e, w') | (Inr x, w') \<Rightarrow> f x w')"

text \<open>\<^verbatim>\<open>try: m except <p>: h\<close>.\<close>

definition sx_catch :: "(exn \<Rightarrow> bool) \<Rightarrow> ('w, 'a) sx \<Rightarrow> (exn \<Rightarrow> ('w, 'a) sx) \<Rightarrow> ('w, 'a) sx" where
  "sx_catch p m h w =
     (case m w of (Inl e, w') \<Rightarrow> if p e then h e w' else (Inl e, w') | (Inr x, w') \<Rightarrow> (Inr x, w'))"

text \<open>
  \<^verbatim>\<open>try: m finally: fin\<close>. The clause runs on both exits; an exception it raises replaces
  the one in flight.
\<close>

definition sx_finally :: "('w, 'a) sx \<Rightarrow> ('w, unit) sx \<Rightarrow> ('w, 'a) sx" where
  "sx_finally m fin w =
     (case m w of (r, w') \<Rightarrow> (case fin w' of (Inl e, w'') \<Rightarrow> (Inl e, w'') | (Inr _, w'') \<Rightarrow> (r, w'')))"

definition sx_get :: "('w \<Rightarrow> 'a) \<Rightarrow> ('w, 'a) sx" where
  "sx_get f w = (Inr (f w), w)"

definition sx_modify :: "('w \<Rightarrow> 'w) \<Rightarrow> ('w, unit) sx" where
  "sx_modify f w = (Inr (), f w)"

lemmas sx_defs [sx_simps] =
  sx_return_def sx_raise_def sx_bind_def sx_catch_def sx_finally_def sx_get_def sx_modify_def

lemma sx_bind_Inr:
  "sx_bind m f w = (Inr y, w') \<longleftrightarrow> (\<exists>x w1. m w = (Inr x, w1) \<and> f x w1 = (Inr y, w'))"
  by (auto simp: sx_bind_def split: prod.splits sum.splits)

lemma sx_bind_Inl:
  "sx_bind m f w = (Inl e, w') \<longleftrightarrow>
     m w = (Inl e, w') \<or> (\<exists>x w1. m w = (Inr x, w1) \<and> f x w1 = (Inl e, w'))"
  by (auto simp: sx_bind_def split: prod.splits sum.splits)

lemma sx_return_iff [simp]: "sx_return x w = (r, w') \<longleftrightarrow> r = Inr x \<and> w' = w"
  by (auto simp: sx_return_def)

lemma sx_raise_iff [simp]: "sx_raise e w = (r, w') \<longleftrightarrow> r = Inl e \<and> w' = w"
  by (auto simp: sx_raise_def)

lemma sx_bind_return [simp]: "sx_bind (sx_return x) f = f x"
  by (rule ext) (simp add: sx_bind_def sx_return_def)

lemma sx_bind_assoc: "sx_bind (sx_bind m f) g = sx_bind m (\<lambda>x. sx_bind (f x) g)"
  by (rule ext) (auto simp: sx_bind_def split: prod.splits sum.splits)

subsection \<open>Frames\<close>

text \<open>
  \<open>keeps f m\<close>: whether \<open>m\<close> returns or raises, the part \<open>f\<close> of the state is as before. There is one
  rule per combinator, so that a frame property of a program follows from its primitives.
\<close>

definition keeps :: "('w \<Rightarrow> 'v) \<Rightarrow> ('w, 'a) sx \<Rightarrow> bool" where
  "keeps f m \<longleftrightarrow> (\<forall>w. f (snd (m w)) = f w)"

lemma keepsD: "keeps f m \<Longrightarrow> m w = (r, w') \<Longrightarrow> f w' = f w"
  by (metis keeps_def snd_conv)

lemma keepsI: "(\<And>w r w'. m w = (r, w') \<Longrightarrow> f w' = f w) \<Longrightarrow> keeps f m"
  by (metis keeps_def prod.collapse)

lemma keeps_return [keeps_intros]: "keeps f (sx_return x)"
  and keeps_raise [keeps_intros]: "keeps f (sx_raise e)"
  and keeps_get [keeps_intros]: "keeps f (sx_get g)"
  by (simp_all add: keeps_def sx_defs)

lemma keeps_modify [keeps_intros]: "(\<And>w. f (u w) = f w) \<Longrightarrow> keeps f (sx_modify u)"
  by (simp add: keeps_def sx_defs)

lemma keeps_bind [keeps_intros]:
  "keeps f m \<Longrightarrow> (\<And>x. keeps f (g x)) \<Longrightarrow> keeps f (sx_bind m g)"
  by (auto simp: keeps_def sx_bind_def split: prod.splits sum.splits) (metis snd_conv)+

lemma keeps_catch [keeps_intros]:
  "keeps f m \<Longrightarrow> (\<And>e. keeps f (h e)) \<Longrightarrow> keeps f (sx_catch p m h)"
  by (auto simp: keeps_def sx_catch_def split: prod.splits sum.splits) (metis snd_conv)+

lemma keeps_finally [keeps_intros]: "keeps f m \<Longrightarrow> keeps f fin \<Longrightarrow> keeps f (sx_finally m fin)"
  by (auto simp: keeps_def sx_finally_def split: prod.splits sum.splits) (metis snd_conv)+

lemma keeps_if [keeps_intros]:
  "(c \<Longrightarrow> keeps f m) \<Longrightarrow> (\<not> c \<Longrightarrow> keeps f m') \<Longrightarrow> keeps f (if c then m else m')"
  by simp

lemma keeps_Let [keeps_intros]: "(\<And>x. keeps f (g x)) \<Longrightarrow> keeps f (Let x g)"
  by simp

lemma keeps_case_prod [keeps_intros]: "(\<And>a b. keeps f (g a b)) \<Longrightarrow> keeps f (case p of (a, b) \<Rightarrow> g a b)"
  by (cases p) simp

lemma keeps_case_option [keeps_intros]:
  "keeps f m \<Longrightarrow> (\<And>a. keeps f (g a)) \<Longrightarrow> keeps f (case p of None \<Rightarrow> m | Some a \<Rightarrow> g a)"
  by (cases p) simp_all

subsection \<open>Bit fields\<close>

lemma int_and_255: "(x::int) AND 255 = take_bit 8 x"
proof -
  have "(255::int) = mask 8" by (simp add: mask_eq_exp_minus_1)
  then show ?thesis by (simp only: take_bit_eq_mask)
qed

lemma int_and_exp_zero: "(x::int) AND 2 ^ n = 0 \<longleftrightarrow> \<not> bit x n"
  by (simp add: and_exp_eq_0_iff_not_bit)

lemma bit_nat_less_exp: "(k::nat) < 2 ^ m \<Longrightarrow> bit k n \<Longrightarrow> n < m"
  by (metis bit_take_bit_iff take_bit_nat_eq_self)

subsection \<open>Python string formatting\<close>

definition digit_char :: "nat \<Rightarrow> char" where
  "digit_char d = (if d < 10 then char_of (48 + d) else char_of (87 + d))"

fun base_nat :: "nat \<Rightarrow> nat \<Rightarrow> string" where
  "base_nat b n =
     (if b < 2 \<or> n < b then [digit_char n] else base_nat b (n div b) @ [digit_char (n mod b)])"

declare base_nat.simps [simp del]

definition dec_nat :: "nat \<Rightarrow> string" where
  "dec_nat n = base_nat 10 n"

definition hex_int :: "int \<Rightarrow> string" where
  "hex_int i = (if i < 0 then ''-'' else []) @ base_nat 16 (nat \<bar>i\<bar>)"

fun join :: "string \<Rightarrow> string list \<Rightarrow> string" where
  "join sep [] = []"
| "join sep [x] = x"
| "join sep (x # y # xs) = x @ sep @ join sep (y # xs)"

text \<open>\<^verbatim>\<open>repr\<close> of a string of characters below 256.\<close>

definition repr_char :: "char \<Rightarrow> char \<Rightarrow> string" where
  "repr_char q c =
     (let k = of_char c :: nat in
      if c = q \<or> c = CHR 0x5C then [CHR 0x5C, c]
      else if k = 9 then [CHR 0x5C, CHR ''t'']
      else if k = 10 then [CHR 0x5C, CHR ''n'']
      else if k = 13 then [CHR 0x5C, CHR ''r'']
      else if k < 32 \<or> 127 \<le> k \<and> k \<le> 160 \<or> k = 173
           then [CHR 0x5C, CHR ''x'', digit_char (k div 16), digit_char (k mod 16)]
      else [c])"

definition py_repr :: "string \<Rightarrow> string" where
  "py_repr s =
     (let q = (if CHR 0x27 \<in> set s \<and> CHR 0x22 \<notin> set s then CHR 0x22 else CHR 0x27)
      in q # concat (map (repr_char q) s) @ [q])"

end
