(* ===== verification/Fifo.thy ===== *)
theory Fifo
  imports Prelude
begin

text \<open>
  The interface of LiteX's \<^verbatim>\<open>stream.SyncFIFO(..., buffered=True)\<close>, the buffer between the
  serial PHY and the console registers (\<^verbatim>\<open>src/soc/console_bridge.py\<close>). The FIFO itself is not
  part of the repository, so it is a parameter of the model: the record \<open>stream_fifo\<close> names
  the signals the bridge reads and drives, and the locale \<open>sync_fifo\<close> states what the bridge
  relies on, as documented at lines 59--78 and 112--141 of that file: \<^verbatim>\<open>level\<close> counts the inner
  memory plus the output register, so it may reach depth + 1; \<^verbatim>\<open>sink.ready\<close> holds while the
  inner memory has room; \<^verbatim>\<open>source.valid\<close> may lag \<^verbatim>\<open>level\<close> by one cycle after the first write.
  \<open>buf_fifo\<close> is that documented two-stage structure, and interprets the locale.
\<close>

subsection \<open>The signals of one FIFO\<close>

text \<open>
  The FIFO is built for a depth, so every field takes the depth first. \<open>fifo_clock d v x r f\<close>
  is the state after one clock edge with \<^verbatim>\<open>sink.valid = v\<close>, \<^verbatim>\<open>sink.data = x\<close> and
  \<^verbatim>\<open>source.ready = r\<close>.
\<close>

record 'f stream_fifo =
  fifo_init :: "nat \<Rightarrow> 'f"
  fifo_level :: "nat \<Rightarrow> 'f \<Rightarrow> nat"
  source_valid :: "nat \<Rightarrow> 'f \<Rightarrow> bool"
  source_data :: "nat \<Rightarrow> 'f \<Rightarrow> byte"
  sink_ready :: "nat \<Rightarrow> 'f \<Rightarrow> bool"
  fifo_clock :: "nat \<Rightarrow> bool \<Rightarrow> byte \<Rightarrow> bool \<Rightarrow> 'f \<Rightarrow> 'f"

locale sync_fifo =
  fixes F :: "'f stream_fifo"
    and contents :: "'f \<Rightarrow> byte list"
    and ok :: "nat \<Rightarrow> 'f \<Rightarrow> bool"
  assumes ok_init: "ok d (fifo_init F d)"
    and contents_init: "contents (fifo_init F d) = []"
    and ok_clock: "ok d f \<Longrightarrow> ok d (fifo_clock F d v x r f)"
    and level: "ok d f \<Longrightarrow> fifo_level F d f = length (contents f)"
    and capacity: "ok d f \<Longrightarrow> length (contents f) \<le> Suc d"
    and ready: "ok d f \<Longrightarrow> length (contents f) < d \<Longrightarrow> sink_ready F d f"
    and full: "ok d f \<Longrightarrow> length (contents f) = Suc d \<Longrightarrow> \<not> sink_ready F d f"
    and head: "ok d f \<Longrightarrow> source_valid F d f \<Longrightarrow>
      contents f \<noteq> [] \<and> source_data F d f = hd (contents f)"
    and clock: "ok d f \<Longrightarrow> contents (fifo_clock F d v x r f) =
      (if r \<and> source_valid F d f then tl (contents f) else contents f) @
      (if v \<and> sink_ready F d f then [x] else [])"
    and valid_hold: "ok d f \<Longrightarrow> source_valid F d f \<Longrightarrow>
      source_valid F d (fifo_clock F d v x False f)"
    and valid_lag: "ok d f \<Longrightarrow> contents f \<noteq> [] \<Longrightarrow>
      source_valid F d (fifo_clock F d v x False f)"
begin

lemma valid_nonempty: "ok d f \<Longrightarrow> source_valid F d f \<Longrightarrow> contents f \<noteq> []"
  by (simp add: head)

lemma head_Cons:
  "ok d f \<Longrightarrow> source_valid F d f \<Longrightarrow> source_data F d f # tl (contents f) = contents f"
  by (simp add: head)

lemma empty_not_valid: "ok d f \<Longrightarrow> contents f = [] \<Longrightarrow> \<not> source_valid F d f"
  using valid_nonempty by blast

lemma valid_length_pos: "ok d f \<Longrightarrow> source_valid F d f \<Longrightarrow> 0 < length (contents f)"
  using valid_nonempty by blast

text \<open>Between two clock edges the occupancy moves by at most one in either direction.\<close>

lemma length_clock_le:
  "ok d f \<Longrightarrow> length (contents (fifo_clock F d v x r f)) \<le> length (contents f) + (if v then 1 else 0)"
  by (auto simp: clock)

end

subsection \<open>The documented structure\<close>

text \<open>
  \<^verbatim>\<open>SyncFIFOBuffered\<close>: an inner FIFO of the given depth and a one-word output register. The
  inner FIFO is read whenever it holds a word and the register is free or being emptied.
\<close>

record buf =
  inner :: "byte list"
  outreg :: "byte option"

definition buf_inner_re :: "bool \<Rightarrow> buf \<Rightarrow> bool" where
  "buf_inner_re r f \<longleftrightarrow> inner f \<noteq> [] \<and> (outreg f = None \<or> r)"

definition buf_clock :: "nat \<Rightarrow> bool \<Rightarrow> byte \<Rightarrow> bool \<Rightarrow> buf \<Rightarrow> buf" where
  "buf_clock d v x r f =
     \<lparr>inner = (if buf_inner_re r f then tl (inner f) else inner f) @
              (if v \<and> length (inner f) < d then [x] else []),
      outreg = (if buf_inner_re r f then Some (hd (inner f))
                else if r then None else outreg f)\<rparr>"

definition buf_fifo :: "buf stream_fifo" where
  "buf_fifo =
     \<lparr>fifo_init = (\<lambda>d. \<lparr>inner = [], outreg = None\<rparr>),
      fifo_level = (\<lambda>d f. length (inner f) + (if outreg f = None then 0 else 1)),
      source_valid = (\<lambda>d f. outreg f \<noteq> None),
      source_data = (\<lambda>d f. case outreg f of None \<Rightarrow> 0 | Some b \<Rightarrow> b),
      sink_ready = (\<lambda>d f. length (inner f) < d),
      fifo_clock = buf_clock\<rparr>"

definition buf_contents :: "buf \<Rightarrow> byte list" where
  "buf_contents f = (case outreg f of None \<Rightarrow> [] | Some b \<Rightarrow> [b]) @ inner f"

definition buf_ok :: "nat \<Rightarrow> buf \<Rightarrow> bool" where
  "buf_ok d f \<longleftrightarrow> length (inner f) \<le> d"

lemma buf_fifo_sel [simp]:
  "fifo_init buf_fifo d = \<lparr>inner = [], outreg = None\<rparr>"
  "fifo_level buf_fifo d f = length (inner f) + (if outreg f = None then 0 else 1)"
  "source_valid buf_fifo d f \<longleftrightarrow> outreg f \<noteq> None"
  "source_data buf_fifo d f = (case outreg f of None \<Rightarrow> 0 | Some b \<Rightarrow> b)"
  "sink_ready buf_fifo d f \<longleftrightarrow> length (inner f) < d"
  "fifo_clock buf_fifo = buf_clock"
  by (simp_all add: buf_fifo_def)

lemmas buf_defs = buf_clock_def buf_inner_re_def buf_contents_def buf_ok_def

interpretation bf: sync_fifo buf_fifo buf_contents buf_ok
  by unfold_locales (auto simp: buf_defs hd_Cons_tl split: option.splits)

end
