(* ===== verification/Console_Bridge.thy ===== *)
theory Console_Bridge
  imports Fifo
begin

text \<open>
  The gateware console bridge, \<^verbatim>\<open>src/soc/console_bridge.py\<close>: two FIFOs between the serial PHY
  and six CSRs, the backpressure stall with hysteresis, and three sticky error bits.

  The Migen module is one clock domain. Its combinational statements are functions of the
  current state and inputs; its \<^verbatim>\<open>sync\<close> statements are \<open>bridge_clock\<close>, the state after the next
  rising edge. The inputs of one cycle are the record \<open>cycle\<close>: the reset, the PHY's streams
  and the write strobes of the three writable CSRs.
\<close>

subsection \<open>Constants and state\<close>

definition RX_DEPTH :: nat where "RX_DEPTH = 4096"
definition TX_DEPTH :: nat where "TX_DEPTH = 256"
definition RX_HEADROOM :: int where "RX_HEADROOM = 64"
definition RX_HYSTERESIS :: int where "RX_HYSTERESIS = 64"

definition hwm :: "nat \<Rightarrow> int" where
  "hwm rx_depth = int rx_depth - RX_HEADROOM"

definition lwm :: "nat \<Rightarrow> int" where
  "lwm rx_depth = hwm rx_depth - RX_HYSTERESIS"

lemmas wm_defs = hwm_def lwm_def RX_HEADROOM_def RX_HYSTERESIS_def

record 'f bridge =
  rx_fifo :: 'f
  tx_fifo :: 'f
  stall :: bool
  sticky_err_0 :: bool
  sticky_err_1 :: bool
  sticky_err_2 :: bool

record cycle =
  sys_rst :: bool
  phy_source_valid :: bool
  phy_source_data :: byte
  phy_sink_ready :: bool
  rx_pop_re :: bool
  tx_data_re :: bool
  tx_data_r :: byte
  err_clear_re :: bool
  err_clear_r :: "3 word"

definition idle :: cycle where
  "idle = \<lparr>sys_rst = False, phy_source_valid = False, phy_source_data = 0,
     phy_sink_ready = False, rx_pop_re = False, tx_data_re = False, tx_data_r = 0,
     err_clear_re = False, err_clear_r = 0\<rparr>"

lemma idle_fields [simp]:
  "\<not> sys_rst idle" "\<not> phy_source_valid idle" "phy_source_data idle = 0" "\<not> phy_sink_ready idle"
  "\<not> rx_pop_re idle" "\<not> tx_data_re idle" "tx_data_r idle = 0" "\<not> err_clear_re idle"
  "err_clear_r idle = 0"
  by (simp_all add: idle_def)

subsection \<open>The read-only registers\<close>

definition pack_console_rx :: "byte \<Rightarrow> bool \<Rightarrow> nat \<Rightarrow> u32" where
  "pack_console_rx data valid lvl =
     ucast data OR push_bit 8 (of_bool valid) OR push_bit 9 (take_bit 13 (of_nat lvl))"

definition pack_console_tx :: "nat \<Rightarrow> bool \<Rightarrow> u32" where
  "pack_console_tx lvl full = take_bit 9 (of_nat lvl) OR push_bit 9 (of_bool full)"

definition rx_level_capped :: "'f stream_fifo \<Rightarrow> nat \<Rightarrow> 'f bridge \<Rightarrow> nat" where
  "rx_level_capped F rx_depth b =
     (if fifo_level F rx_depth (rx_fifo b) > rx_depth then rx_depth
      else fifo_level F rx_depth (rx_fifo b))"

definition console_rx :: "'f stream_fifo \<Rightarrow> nat \<Rightarrow> 'f bridge \<Rightarrow> u32" where
  "console_rx F rx_depth b =
     (let valid = source_valid F rx_depth (rx_fifo b) in
      if valid
      then pack_console_rx (source_data F rx_depth (rx_fifo b)) valid (rx_level_capped F rx_depth b)
      else pack_console_rx 0 valid 0)"

definition tx_full :: "'f stream_fifo \<Rightarrow> nat \<Rightarrow> 'f bridge \<Rightarrow> bool" where
  "tx_full F tx_depth b \<longleftrightarrow> fifo_level F tx_depth (tx_fifo b) = tx_depth"

definition console_tx :: "'f stream_fifo \<Rightarrow> nat \<Rightarrow> 'f bridge \<Rightarrow> u32" where
  "console_tx F tx_depth b =
     pack_console_tx (fifo_level F tx_depth (tx_fifo b)) (tx_full F tx_depth b)"

definition console_err :: "'f bridge \<Rightarrow> u32" where
  "console_err b =
     of_bool (sticky_err_0 b) OR push_bit 1 (of_bool (sticky_err_1 b)) OR
     push_bit 2 (of_bool (sticky_err_2 b))"

subsection \<open>Combinational strobes\<close>

definition rx_source_ready :: "'f stream_fifo \<Rightarrow> nat \<Rightarrow> cycle \<Rightarrow> 'f bridge \<Rightarrow> bool" where
  "rx_source_ready F rx_depth i b \<longleftrightarrow> rx_pop_re i \<and> source_valid F rx_depth (rx_fifo b)"

definition err_rx_pop_when_empty :: "'f stream_fifo \<Rightarrow> nat \<Rightarrow> cycle \<Rightarrow> 'f bridge \<Rightarrow> bool" where
  "err_rx_pop_when_empty F rx_depth i b \<longleftrightarrow>
     rx_pop_re i \<and> \<not> source_valid F rx_depth (rx_fifo b)"

definition tx_sink_valid :: "'f stream_fifo \<Rightarrow> nat \<Rightarrow> cycle \<Rightarrow> 'f bridge \<Rightarrow> bool" where
  "tx_sink_valid F tx_depth i b \<longleftrightarrow> tx_data_re i \<and> \<not> tx_full F tx_depth b"

definition err_tx_write_when_full :: "'f stream_fifo \<Rightarrow> nat \<Rightarrow> cycle \<Rightarrow> 'f bridge \<Rightarrow> bool" where
  "err_tx_write_when_full F tx_depth i b \<longleftrightarrow> tx_data_re i \<and> tx_full F tx_depth b"

definition err_rx_overflow :: "'f stream_fifo \<Rightarrow> nat \<Rightarrow> cycle \<Rightarrow> 'f bridge \<Rightarrow> bool" where
  "err_rx_overflow F rx_depth i b \<longleftrightarrow>
     phy_source_valid i \<and> \<not> sink_ready F rx_depth (rx_fifo b)"

text \<open>The byte the serial transmitter takes from the TX FIFO in this cycle, if any.\<close>

definition phy_tx_byte :: "'f stream_fifo \<Rightarrow> nat \<Rightarrow> cycle \<Rightarrow> 'f bridge \<Rightarrow> byte list" where
  "phy_tx_byte F tx_depth i b =
     (if source_valid F tx_depth (tx_fifo b) \<and> phy_sink_ready i
      then [source_data F tx_depth (tx_fifo b)] else [])"

subsection \<open>The clock edge\<close>

definition stall_next :: "'f stream_fifo \<Rightarrow> nat \<Rightarrow> 'f bridge \<Rightarrow> bool" where
  "stall_next F rx_depth b =
     (if int (fifo_level F rx_depth (rx_fifo b)) \<ge> hwm rx_depth then True
      else if int (fifo_level F rx_depth (rx_fifo b)) \<le> lwm rx_depth then False
      else stall b)"

definition sticky_next :: "bool \<Rightarrow> nat \<Rightarrow> cycle \<Rightarrow> bool \<Rightarrow> bool" where
  "sticky_next src idx i sticky =
     (if src then True
      else if err_clear_re i \<and> bit (err_clear_r i) idx then False
      else sticky)"

text \<open>
  A reset returns both FIFOs and the stall to their reset values; the sticky bits are
  declared \<^verbatim>\<open>reset_less\<close> and follow their own statements in every cycle.
\<close>

definition bridge_clock ::
    "'f stream_fifo \<Rightarrow> nat \<Rightarrow> nat \<Rightarrow> cycle \<Rightarrow> 'f bridge \<Rightarrow> 'f bridge" where
  "bridge_clock F rx_depth tx_depth i b =
     \<lparr>rx_fifo = (if sys_rst i then fifo_init F rx_depth
                 else fifo_clock F rx_depth (phy_source_valid i) (phy_source_data i)
                        (rx_source_ready F rx_depth i b) (rx_fifo b)),
      tx_fifo = (if sys_rst i then fifo_init F tx_depth
                 else fifo_clock F tx_depth (tx_sink_valid F tx_depth i b) (tx_data_r i)
                        (phy_sink_ready i) (tx_fifo b)),
      stall = (if sys_rst i then False else stall_next F rx_depth b),
      sticky_err_0 = sticky_next (err_rx_overflow F rx_depth i b) 0 i (sticky_err_0 b),
      sticky_err_1 = sticky_next (err_tx_write_when_full F tx_depth i b) 1 i (sticky_err_1 b),
      sticky_err_2 = sticky_next (err_rx_pop_when_empty F rx_depth i b) 2 i (sticky_err_2 b)\<rparr>"

definition bridge_init :: "'f stream_fifo \<Rightarrow> nat \<Rightarrow> nat \<Rightarrow> 'f bridge" where
  "bridge_init F rx_depth tx_depth =
     \<lparr>rx_fifo = fifo_init F rx_depth, tx_fifo = fifo_init F tx_depth, stall = False,
      sticky_err_0 = False, sticky_err_1 = False, sticky_err_2 = False\<rparr>"

fun bridge_run ::
    "'f stream_fifo \<Rightarrow> nat \<Rightarrow> nat \<Rightarrow> cycle list \<Rightarrow> 'f bridge \<Rightarrow> 'f bridge" where
  "bridge_run F rx_depth tx_depth [] b = b"
| "bridge_run F rx_depth tx_depth (i # is) b =
     bridge_run F rx_depth tx_depth is (bridge_clock F rx_depth tx_depth i b)"

subsection \<open>Decoding the registers\<close>

lemma bit_pack_console_rx:
  "bit (pack_console_rx d v l) n \<longleftrightarrow>
     n < 8 \<and> bit d n \<or> n = 8 \<and> v \<or> 9 \<le> n \<and> n < 22 \<and> bit l (n - 9)"
  unfolding pack_console_rx_def by (auto simp: bit_simps dest: bit_imp_le_length)

lemma bit_pack_console_tx:
  "bit (pack_console_tx l f) n \<longleftrightarrow> n < 9 \<and> bit l n \<or> n = 9 \<and> f"
  unfolding pack_console_tx_def by (auto simp: bit_simps dest: bit_imp_le_length)

lemma bit_console_err:
  "bit (console_err b) n \<longleftrightarrow>
     n = 0 \<and> sticky_err_0 b \<or> n = 1 \<and> sticky_err_1 b \<or> n = 2 \<and> sticky_err_2 b"
  by (auto simp: console_err_def bit_simps)

lemma rx_data_field [reg_simps]: "uint (pack_console_rx d v l) AND 255 = uint d"
  by (rule bit_eqI) (auto simp: int_and_255 bit_simps bit_pack_console_rx dest: bit_imp_le_length)

lemma rx_valid_field [reg_simps]: "uint (pack_console_rx d v l) AND 256 = 0 \<longleftrightarrow> \<not> v"
  using int_and_exp_zero [of "uint (pack_console_rx d v l)" 8]
  by (simp add: bit_simps bit_pack_console_rx)

lemma rx_level_field [reg_simps]:
  "l < 8192 \<Longrightarrow> drop_bit 9 (uint (pack_console_rx d v l)) = int l"
  using bit_nat_less_exp [of l 13]
  by (auto intro!: bit_eqI simp: bit_simps bit_pack_console_rx)

lemma rx_empty_word [reg_simps]: "pack_console_rx 0 False 0 = 0"
  by (rule bit_word_eqI) (simp add: bit_pack_console_rx)

lemma tx_level_field [reg_simps]:
  "l < 512 \<Longrightarrow> take_bit 9 (uint (pack_console_tx l f)) = int l"
  using bit_nat_less_exp [of l 9]
  by (auto intro!: bit_eqI simp: bit_simps bit_pack_console_tx)

lemma tx_full_field [reg_simps]: "uint (pack_console_tx l f) AND 512 = 0 \<longleftrightarrow> \<not> f"
  using int_and_exp_zero [of "uint (pack_console_tx l f)" 9]
  by (simp add: bit_simps bit_pack_console_tx)

subsection \<open>Invariant, traces and specification\<close>

text \<open>
  \<open>bridge_inv\<close>: both FIFOs are in legal states and the TX FIFO never holds more than its
  declared depth, although the buffered FIFO could hold one word more.
\<close>

definition bridge_inv ::
    "('f \<Rightarrow> byte list) \<Rightarrow> (nat \<Rightarrow> 'f \<Rightarrow> bool) \<Rightarrow> nat \<Rightarrow> nat \<Rightarrow> 'f bridge \<Rightarrow> bool" where
  "bridge_inv cont okf rx_depth tx_depth b \<longleftrightarrow>
     okf rx_depth (rx_fifo b) \<and> okf tx_depth (tx_fifo b) \<and> length (cont (tx_fifo b)) \<le> tx_depth"

text \<open>What enters and leaves the two FIFOs during a run of cycles.\<close>

definition rx_arrivals :: "cycle list \<Rightarrow> byte list" where
  "rx_arrivals is = map phy_source_data (filter phy_source_valid is)"

fun rx_popped ::
    "'f stream_fifo \<Rightarrow> nat \<Rightarrow> nat \<Rightarrow> cycle list \<Rightarrow> 'f bridge \<Rightarrow> byte list" where
  "rx_popped F rx_depth tx_depth [] b = []"
| "rx_popped F rx_depth tx_depth (i # is) b =
     (if rx_source_ready F rx_depth i b then [source_data F rx_depth (rx_fifo b)] else []) @
     rx_popped F rx_depth tx_depth is (bridge_clock F rx_depth tx_depth i b)"

fun tx_accepted ::
    "'f stream_fifo \<Rightarrow> nat \<Rightarrow> nat \<Rightarrow> cycle list \<Rightarrow> 'f bridge \<Rightarrow> byte list" where
  "tx_accepted F rx_depth tx_depth [] b = []"
| "tx_accepted F rx_depth tx_depth (i # is) b =
     (if tx_sink_valid F tx_depth i b then [tx_data_r i] else []) @
     tx_accepted F rx_depth tx_depth is (bridge_clock F rx_depth tx_depth i b)"

fun tx_sent ::
    "'f stream_fifo \<Rightarrow> nat \<Rightarrow> nat \<Rightarrow> cycle list \<Rightarrow> 'f bridge \<Rightarrow> byte list" where
  "tx_sent F rx_depth tx_depth [] b = []"
| "tx_sent F rx_depth tx_depth (i # is) b =
     phy_tx_byte F tx_depth i b @
     tx_sent F rx_depth tx_depth is (bridge_clock F rx_depth tx_depth i b)"

fun rx_never_full ::
    "'f stream_fifo \<Rightarrow> nat \<Rightarrow> nat \<Rightarrow> cycle list \<Rightarrow> 'f bridge \<Rightarrow> bool" where
  "rx_never_full F rx_depth tx_depth [] b \<longleftrightarrow> True"
| "rx_never_full F rx_depth tx_depth (i # is) b \<longleftrightarrow>
     \<not> err_rx_overflow F rx_depth i b \<and>
     rx_never_full F rx_depth tx_depth is (bridge_clock F rx_depth tx_depth i b)"

text \<open>
  The abstract console of \<^verbatim>\<open>SPEC.md\<close> sections 8, 9 and 11: two byte queues and three error
  bits. \<open>rx_vis\<close> and \<open>tx_vis\<close> say whether the head of each queue has reached the FIFO's output
  register; the abstract console leaves the length of that delay open.
\<close>

record console_spec =
  spec_rx :: "byte list"
  spec_tx :: "byte list"
  spec_tx_err :: bool
  spec_pop_err :: bool

definition spec_clock :: "nat \<Rightarrow> bool \<Rightarrow> bool \<Rightarrow> cycle \<Rightarrow> console_spec \<Rightarrow> console_spec" where
  "spec_clock tx_depth rx_vis tx_vis i s =
     \<lparr>spec_rx = (if sys_rst i then []
        else (if rx_pop_re i \<and> rx_vis then tl (spec_rx s) else spec_rx s) @
             (if phy_source_valid i then [phy_source_data i] else [])),
      spec_tx = (if sys_rst i then []
        else (if phy_sink_ready i \<and> tx_vis then tl (spec_tx s) else spec_tx s) @
             (if tx_data_re i \<and> length (spec_tx s) < tx_depth then [tx_data_r i] else [])),
      spec_tx_err = sticky_next (tx_data_re i \<and> length (spec_tx s) = tx_depth) 1 i (spec_tx_err s),
      spec_pop_err = sticky_next (rx_pop_re i \<and> \<not> rx_vis) 2 i (spec_pop_err s)\<rparr>"

definition bridge_abs :: "('f \<Rightarrow> byte list) \<Rightarrow> 'f bridge \<Rightarrow> console_spec" where
  "bridge_abs cont b =
     \<lparr>spec_rx = cont (rx_fifo b), spec_tx = cont (tx_fifo b),
      spec_tx_err = sticky_err_1 b, spec_pop_err = sticky_err_2 b\<rparr>"

text \<open>
  The stalled core: bytes may still arrive while \<^verbatim>\<open>stall\<close> is asserted, because a byte is in a
  shift register or the stall has not crossed into the core's clock domain yet (\<^verbatim>\<open>SPEC.md\<close>
  S-BP-6). \<open>bp_reach F rx_depth tx_depth K b n\<close>: the bridge can be in state \<open>b\<close>, \<open>n\<close> bytes
  having arrived since the stall was last asserted, when at most \<open>K\<close> do so per stall.
\<close>

definition late_bytes :: "cycle \<Rightarrow> 'f bridge \<Rightarrow> 'f bridge \<Rightarrow> nat \<Rightarrow> nat" where
  "late_bytes i b b' n =
     (if stall b \<and> stall b' then n + (if phy_source_valid i then 1 else 0) else 0)"

inductive bp_reach ::
    "'f stream_fifo \<Rightarrow> nat \<Rightarrow> nat \<Rightarrow> nat \<Rightarrow> 'f bridge \<Rightarrow> nat \<Rightarrow> bool"
  for F rx_depth tx_depth K where
  bp_init: "bp_reach F rx_depth tx_depth K (bridge_init F rx_depth tx_depth) 0"
| bp_step: "bp_reach F rx_depth tx_depth K b n \<Longrightarrow>
     stall b \<and> phy_source_valid i \<longrightarrow> n < K \<Longrightarrow>
     b' = bridge_clock F rx_depth tx_depth i b \<Longrightarrow>
     bp_reach F rx_depth tx_depth K b' (late_bytes i b b' n)"

text \<open>The same bound on late bytes, along a given run of cycles.\<close>

fun late_budget ::
    "'f stream_fifo \<Rightarrow> nat \<Rightarrow> nat \<Rightarrow> nat \<Rightarrow> cycle list \<Rightarrow> 'f bridge \<Rightarrow> nat \<Rightarrow> bool" where
  "late_budget F rx_depth tx_depth K [] b n \<longleftrightarrow> True"
| "late_budget F rx_depth tx_depth K (i # is) b n \<longleftrightarrow>
     (stall b \<and> phy_source_valid i \<longrightarrow> n < K) \<and>
     (let b' = bridge_clock F rx_depth tx_depth i b in
      late_budget F rx_depth tx_depth K is b' (late_bytes i b b' n))"

text \<open>One host pop, preceded by a cycle in which nothing happens.\<close>

definition pop_cycles :: "cycle list" where
  "pop_cycles = [idle, idle\<lparr>rx_pop_re := True\<rparr>]"

lemma bridge_run_append:
  "bridge_run F rx_depth tx_depth (xs @ ys) b =
     bridge_run F rx_depth tx_depth ys (bridge_run F rx_depth tx_depth xs b)"
  by (induction xs arbitrary: b) simp_all

lemma idle_not_overflow [simp]:
  "\<not> err_rx_overflow F rx_depth idle b" "\<not> err_rx_overflow F rx_depth (idle\<lparr>rx_pop_re := True\<rparr>) b"
  by (simp_all add: err_rx_overflow_def)

subsection \<open>The bridge over any conforming FIFO\<close>

context sync_fifo
begin

lemma inv_init: "bridge_inv contents ok rxd txd (bridge_init F rxd txd)"
  by (simp add: bridge_inv_def bridge_init_def ok_init contents_init)

text \<open>A write that is not flagged as rejected always finds room, so none is dropped.\<close>

lemma tx_accept_ready:
  "bridge_inv contents ok rxd txd b \<Longrightarrow> tx_sink_valid F txd i b \<Longrightarrow>
   sink_ready F txd (tx_fifo b) \<and> length (contents (tx_fifo b)) < txd"
  by (auto simp: bridge_inv_def tx_sink_valid_def tx_full_def level intro!: ready)

lemma rx_contents_clock:
  assumes "bridge_inv contents ok rxd txd b" "\<not> sys_rst i" "\<not> err_rx_overflow F rxd i b"
  shows "contents (rx_fifo (bridge_clock F rxd txd i b)) =
    (if rx_source_ready F rxd i b then tl (contents (rx_fifo b)) else contents (rx_fifo b)) @
    (if phy_source_valid i then [phy_source_data i] else [])"
  using assms
  by (auto simp: bridge_inv_def bridge_clock_def clock rx_source_ready_def err_rx_overflow_def)

lemma tx_contents_clock:
  assumes "bridge_inv contents ok rxd txd b" "\<not> sys_rst i"
  shows "contents (tx_fifo (bridge_clock F rxd txd i b)) =
    (if phy_sink_ready i \<and> source_valid F txd (tx_fifo b) then tl (contents (tx_fifo b))
     else contents (tx_fifo b)) @
    (if tx_sink_valid F txd i b then [tx_data_r i] else [])"
  using assms tx_accept_ready [OF assms(1)]
  by (auto simp: bridge_inv_def bridge_clock_def clock)

lemma inv_clock:
  assumes "bridge_inv contents ok rxd txd b"
  shows "bridge_inv contents ok rxd txd (bridge_clock F rxd txd i b)"
proof (cases "sys_rst i")
  case True
  then show ?thesis by (simp add: bridge_inv_def bridge_clock_def ok_init contents_init)
next
  case False
  have "length (contents (tx_fifo (bridge_clock F rxd txd i b))) \<le> txd"
    using assms tx_accept_ready [OF assms, of i] tx_contents_clock [OF assms False]
    by (auto simp: bridge_inv_def)
  with False assms show ?thesis
    by (auto simp: bridge_inv_def bridge_clock_def ok_clock)
qed

lemma inv_run:
  "bridge_inv contents ok rxd txd b \<Longrightarrow> bridge_inv contents ok rxd txd (bridge_run F rxd txd is b)"
  by (induction "is" arbitrary: b) (simp_all add: inv_clock)

lemma rx_pop_head:
  "bridge_inv contents ok rxd txd b \<Longrightarrow> rx_source_ready F rxd i b \<Longrightarrow>
   source_data F rxd (rx_fifo b) # tl (contents (rx_fifo b)) = contents (rx_fifo b)"
  by (simp add: bridge_inv_def rx_source_ready_def head_Cons)

lemma rx_conservation_step:
  assumes "bridge_inv contents ok rxd txd b" "\<not> sys_rst i" "\<not> err_rx_overflow F rxd i b"
  shows "contents (rx_fifo b) @ (if phy_source_valid i then [phy_source_data i] else []) =
    (if rx_source_ready F rxd i b then [source_data F rxd (rx_fifo b)] else []) @
    contents (rx_fifo (bridge_clock F rxd txd i b))"
  using rx_contents_clock [OF assms] rx_pop_head [OF assms(1), of i] by auto

lemma tx_conservation_step:
  assumes "bridge_inv contents ok rxd txd b" "\<not> sys_rst i"
  shows "contents (tx_fifo b) @ (if tx_sink_valid F txd i b then [tx_data_r i] else []) =
    phy_tx_byte F txd i b @ contents (tx_fifo (bridge_clock F rxd txd i b))"
  using tx_contents_clock [OF assms] assms(1)
  by (auto simp: phy_tx_byte_def bridge_inv_def head_Cons)

lemma rx_conservation:
  assumes "bridge_inv contents ok rxd txd b" "\<forall>i\<in>set is. \<not> sys_rst i"
    "rx_never_full F rxd txd is b"
  shows "contents (rx_fifo b) @ rx_arrivals is =
    rx_popped F rxd txd is b @ contents (rx_fifo (bridge_run F rxd txd is b))"
  using assms
proof (induction "is" arbitrary: b)
  case Nil
  then show ?case by (simp add: rx_arrivals_def)
next
  case (Cons i "is")
  let ?b = "bridge_clock F rxd txd i b"
  have IH: "contents (rx_fifo ?b) @ rx_arrivals is =
      rx_popped F rxd txd is ?b @ contents (rx_fifo (bridge_run F rxd txd is ?b))"
    using Cons by (simp add: inv_clock)
  have "contents (rx_fifo b) @ rx_arrivals (i # is) =
      (contents (rx_fifo b) @ (if phy_source_valid i then [phy_source_data i] else [])) @ rx_arrivals is"
    by (simp add: rx_arrivals_def)
  also have "\<dots> = (if rx_source_ready F rxd i b then [source_data F rxd (rx_fifo b)] else []) @
      contents (rx_fifo ?b) @ rx_arrivals is"
    using rx_conservation_step [OF Cons.prems(1), of i] Cons.prems(2,3) by simp
  finally show ?case by (simp add: IH)
qed

lemma tx_conservation:
  assumes "bridge_inv contents ok rxd txd b" "\<forall>i\<in>set is. \<not> sys_rst i"
  shows "contents (tx_fifo b) @ tx_accepted F rxd txd is b =
    tx_sent F rxd txd is b @ contents (tx_fifo (bridge_run F rxd txd is b))"
  using assms
proof (induction "is" arbitrary: b)
  case Nil
  then show ?case by simp
next
  case (Cons i "is")
  let ?b = "bridge_clock F rxd txd i b"
  have IH: "contents (tx_fifo ?b) @ tx_accepted F rxd txd is ?b =
      tx_sent F rxd txd is ?b @ contents (tx_fifo (bridge_run F rxd txd is ?b))"
    using Cons by (simp add: inv_clock)
  have "contents (tx_fifo b) @ tx_accepted F rxd txd (i # is) b =
      phy_tx_byte F txd i b @ contents (tx_fifo ?b) @ tx_accepted F rxd txd is ?b"
    using tx_conservation_step [OF Cons.prems(1), of i] Cons.prems(2) by simp
  then show ?case by (simp add: IH)
qed

lemma length_rx_clock:
  assumes "bridge_inv contents ok rxd txd b"
  shows "length (contents (rx_fifo (bridge_clock F rxd txd i b)))
    \<le> length (contents (rx_fifo b)) + (if phy_source_valid i then 1 else 0)"
  using assms length_clock_le [of rxd "rx_fifo b" "phy_source_valid i" "phy_source_data i"
      "rx_source_ready F rxd i b"]
  by (auto simp: bridge_inv_def bridge_clock_def contents_init)

lemma stall_clock:
  assumes "bridge_inv contents ok rxd txd b"
  shows "stall (bridge_clock F rxd txd i b) \<longleftrightarrow> \<not> sys_rst i \<and>
    (hwm rxd \<le> int (length (contents (rx_fifo b))) \<or>
     lwm rxd < int (length (contents (rx_fifo b))) \<and> stall b)"
  using assms by (auto simp: bridge_inv_def bridge_clock_def stall_next_def level)

text \<open>
  The backpressure invariant: without a stall the RX FIFO is at most at the high-water mark,
  and during one it exceeds the mark by the bytes that arrived late plus the one that may have
  arrived in the cycle the stall was raised.
\<close>

lemma bp_invariant:
  assumes "bp_reach F rxd txd K b n" "64 \<le> rxd"
  shows "bridge_inv contents ok rxd txd b \<and>
    int (length (contents (rx_fifo b))) \<le> hwm rxd + (if stall b then 1 + int n else 0)"
  using assms(1)
proof (induction rule: bp_reach.induct)
  case bp_init
  then show ?case
    using assms(2) by (simp add: inv_init) (simp add: bridge_init_def contents_init wm_defs)
next
  case (bp_step b n i b')
  let ?l = "int (length (contents (rx_fifo b)))"
  let ?l' = "int (length (contents (rx_fifo b')))"
  have "bridge_inv contents ok rxd txd b" and l: "?l \<le> hwm rxd + (if stall b then 1 + int n else 0)"
    using bp_step.IH by auto
  moreover have "?l' \<le> ?l + (if phy_source_valid i then 1 else 0)"
    using length_rx_clock [OF \<open>bridge_inv contents ok rxd txd b\<close>, of i] bp_step.hyps by auto
  moreover have "sys_rst i \<longrightarrow> ?l' = 0"
    using bp_step.hyps by (simp add: bridge_clock_def contents_init)
  ultimately show ?case
    using bp_step.hyps assms(2) inv_clock stall_clock [of rxd txd b i]
    by (auto simp: late_bytes_def wm_defs split: if_splits)
qed

lemma bp_no_overflow:
  assumes "bp_reach F rxd txd K b n" "64 \<le> rxd" "K < 64"
    and "stall b \<and> phy_source_valid i \<longrightarrow> n < K"
  shows "\<not> err_rx_overflow F rxd i b"
proof (cases "phy_source_valid i")
  case True
  have "bridge_inv contents ok rxd txd b" and
    "int (length (contents (rx_fifo b))) \<le> hwm rxd + (if stall b then 1 + int n else 0)"
    using bp_invariant [OF assms(1,2)] by auto
  moreover from this have "length (contents (rx_fifo b)) < rxd"
    using assms True by (auto simp: wm_defs split: if_splits)
  ultimately show ?thesis
    by (simp add: err_rx_overflow_def bridge_inv_def ready)
qed (simp add: err_rx_overflow_def)

lemma bp_sticky_clear:
  assumes "bp_reach F rxd txd K b n" "64 \<le> rxd" "K < 64"
  shows "\<not> sticky_err_0 b"
  using assms(1)
proof (induction rule: bp_reach.induct)
  case bp_init
  then show ?case by (simp add: bridge_init_def)
next
  case (bp_step b n i b')
  then show ?case
    using bp_no_overflow [OF bp_step.hyps(1) assms(2,3) bp_step.hyps(2)]
    by (simp add: bridge_clock_def sticky_next_def)
qed

lemma bp_never_full:
  assumes "bp_reach F rxd txd K b n" "64 \<le> rxd" "K < 64" "late_budget F rxd txd K is b n"
  shows "rx_never_full F rxd txd is b"
  using assms
proof (induction "is" arbitrary: b n)
  case Nil
  then show ?case by simp
next
  case (Cons i "is")
  have budget: "stall b \<and> phy_source_valid i \<longrightarrow> n < K" using Cons.prems(4) by simp
  show ?case
    using Cons.IH [OF bp_step [OF Cons.prems(1) budget refl] Cons.prems(2,3)] Cons.prems(4)
      bp_no_overflow [OF Cons.prems(1-3) budget]
    by (simp add: Let_def)
qed

lemma stall_run:
  assumes "bridge_inv contents ok rxd txd b" "stall b" "\<forall>i\<in>set is. \<not> sys_rst i"
    and "\<forall>k<length is. lwm rxd < int (length (contents (rx_fifo (bridge_run F rxd txd (take k is) b))))"
  shows "stall (bridge_run F rxd txd is b)"
  using assms
proof (induction "is" arbitrary: b)
  case Nil
  then show ?case by simp
next
  case (Cons i "is")
  let ?b = "bridge_clock F rxd txd i b"
  have "lwm rxd < int (length (contents (rx_fifo b)))"
    using Cons.prems(4) by (metis bridge_run.simps(1) length_greater_0_conv list.discI take0)
  then have "stall ?b"
    using Cons.prems by (simp add: stall_clock)
  moreover have "\<forall>k<length is. lwm rxd <
      int (length (contents (rx_fifo (bridge_run F rxd txd (take k is) ?b))))"
    using Cons.prems(4) by (metis Suc_less_eq bridge_run.simps(2) length_Cons take_Suc_Cons)
  ultimately show ?case
    using Cons by (simp add: inv_clock)
qed

lemma abs_clock:
  assumes "bridge_inv contents ok rxd txd b" "\<not> err_rx_overflow F rxd i b"
  shows "bridge_abs contents (bridge_clock F rxd txd i b) =
    spec_clock txd (source_valid F rxd (rx_fifo b)) (source_valid F txd (tx_fifo b)) i
      (bridge_abs contents b)"
proof -
  let ?b = "bridge_clock F rxd txd i b"
  have full: "tx_full F txd b \<longleftrightarrow> length (contents (tx_fifo b)) = txd"
    using assms(1) by (simp add: tx_full_def bridge_inv_def level)
  then have room: "tx_sink_valid F txd i b \<longleftrightarrow> tx_data_re i \<and> length (contents (tx_fifo b)) < txd"
    using assms(1) by (auto simp: bridge_inv_def tx_sink_valid_def)
  have err: "sticky_err_1 ?b = sticky_next (tx_data_re i \<and> length (contents (tx_fifo b)) = txd) 1 i (sticky_err_1 b)"
    "sticky_err_2 ?b = sticky_next (rx_pop_re i \<and> \<not> source_valid F rxd (rx_fifo b)) 2 i (sticky_err_2 b)"
    by (simp_all add: bridge_clock_def err_tx_write_when_full_def err_rx_pop_when_empty_def full)
  show ?thesis
  proof (cases "sys_rst i")
    case True
    then have "contents (rx_fifo ?b) = []" "contents (tx_fifo ?b) = []"
      by (simp_all add: bridge_clock_def contents_init)
    with True show ?thesis by (simp add: bridge_abs_def spec_clock_def err)
  next
    case False
    note rx = rx_contents_clock [OF assms(1) False assms(2), unfolded rx_source_ready_def]
    note tx = tx_contents_clock [OF assms(1) False, unfolded room]
    from False show ?thesis by (simp add: bridge_abs_def spec_clock_def err rx tx)
  qed
qed

lemma pop_cycles_rx:
  assumes "bridge_inv contents ok rxd txd b"
  shows "contents (rx_fifo (bridge_run F rxd txd pop_cycles b)) = tl (contents (rx_fifo b))"
proof -
  let ?b = "bridge_clock F rxd txd idle b" and ?pop = "idle\<lparr>rx_pop_re := True\<rparr>"
  have inv: "bridge_inv contents ok rxd txd ?b" using assms by (rule inv_clock)
  have c: "contents (rx_fifo ?b) = contents (rx_fifo b)"
    using rx_contents_clock [OF assms, of idle] by (simp add: rx_source_ready_def)
  have v: "contents (rx_fifo b) \<noteq> [] \<Longrightarrow> source_valid F rxd (rx_fifo ?b)"
    using assms by (simp add: bridge_inv_def bridge_clock_def rx_source_ready_def valid_lag)
  have "contents (rx_fifo (bridge_clock F rxd txd ?pop ?b)) = tl (contents (rx_fifo b))"
    using rx_contents_clock [OF inv, of ?pop] v c
    by (cases "contents (rx_fifo b) = []") (auto simp: rx_source_ready_def)
  then show ?thesis by (simp add: pop_cycles_def)
qed

lemma pops_empty:
  assumes "bridge_inv contents ok rxd txd b" "length (contents (rx_fifo b)) \<le> n"
  shows "contents (rx_fifo (bridge_run F rxd txd (concat (replicate n pop_cycles)) b)) = []"
  using assms
proof (induction n arbitrary: b)
  case 0
  then show ?case by simp
next
  case (Suc n)
  have "length (contents (rx_fifo (bridge_run F rxd txd pop_cycles b))) \<le> n"
    using Suc.prems by (simp add: pop_cycles_rx)
  then show ?case
    using Suc by (simp add: bridge_run_append inv_run)
qed

lemma pops_release_stall:
  assumes "bridge_inv contents ok rxd txd b" "length (contents (rx_fifo b)) \<le> n" "128 \<le> rxd"
  shows "\<not> stall (bridge_run F rxd txd (concat (replicate n pop_cycles) @ [idle]) b)"
  using assms pops_empty [OF assms(1,2)] stall_clock [OF inv_run [OF assms(1)], where i = idle]
  by (simp add: bridge_run_append wm_defs)

end

subsection \<open>Properties of the console bridge\<close>

text \<open>
  C2. The RX FIFO never overflows (S-BP-8, S-BP-9). Whatever the host does and whenever resets
  happen, if at most 63 bytes arrive after each assertion of the stall (the specification
  counts at most 3), the canary bit \<^verbatim>\<open>console_err.rx_overflow\<close> is 0 in every reachable state.
\<close>

theorem rx_overflow_unreachable:
  assumes "sync_fifo F cont okf" and "64 \<le> rx_depth" and "K < 64"
    and "bp_reach F rx_depth tx_depth K b n"
  shows "\<not> bit (console_err b) 0"
  using sync_fifo.bp_sticky_clear [OF assms(1,4,2,3)] by (simp add: bit_console_err)

text \<open>A byte arriving in the first cycle after power-on, on the shipped depths.\<close>

theorem rx_overflow_unreachable_witness:
  "\<not> bit (console_err (bridge_clock buf_fifo RX_DEPTH TX_DEPTH (idle\<lparr>phy_source_valid := True\<rparr>)
      (bridge_init buf_fifo RX_DEPTH TX_DEPTH))) 0"
  by (rule rx_overflow_unreachable [OF bf.sync_fifo_axioms _ _
        bp_reach.bp_step [OF bp_reach.bp_init, where K = 3]])
    (simp_all add: RX_DEPTH_def bridge_init_def)


definition rx_demo :: "cycle list" where
  "rx_demo = [idle\<lparr>phy_source_valid := True, phy_source_data := 72\<rparr>,
     idle\<lparr>phy_source_valid := True, phy_source_data := 105\<rparr>, idle, idle\<lparr>rx_pop_re := True\<rparr>]"

lemmas bridge_eval =
  bridge_clock_def bridge_init_def rx_source_ready_def err_rx_pop_when_empty_def
  tx_sink_valid_def err_tx_write_when_full_def err_rx_overflow_def phy_tx_byte_def tx_full_def
  stall_next_def sticky_next_def wm_defs RX_DEPTH_def TX_DEPTH_def late_bytes_def
  rx_arrivals_def buf_defs Let_def


text \<open>
  C20. Exactly-once on the transmit path (S-TX-2). Between resets the bytes accepted by
  \<^verbatim>\<open>console_tx_data\<close> are, in order, exactly the bytes handed to the serial transmitter followed
  by the bytes still queued; and the queue never exceeds its declared depth.
\<close>

theorem tx_exactly_once:
  assumes "sync_fifo F cont okf" and "\<forall>i\<in>set is. \<not> sys_rst i"
  shows "let b0 = bridge_init F rx_depth tx_depth in
    tx_accepted F rx_depth tx_depth is b0 =
      tx_sent F rx_depth tx_depth is b0 @ cont (tx_fifo (bridge_run F rx_depth tx_depth is b0)) \<and>
    length (cont (tx_fifo (bridge_run F rx_depth tx_depth is b0))) \<le> tx_depth"
  using sync_fifo.tx_conservation [OF assms(1) sync_fifo.inv_init [OF assms(1)] assms(2)]
    sync_fifo.inv_run [OF assms(1) sync_fifo.inv_init [OF assms(1)]]
  by (simp add: Let_def bridge_inv_def)
    (simp add: bridge_init_def sync_fifo.contents_init [OF assms(1)])

text \<open>Three writes into a two-byte queue while the line is busy: the third is rejected.\<close>

definition tx_demo :: "cycle list" where
  "tx_demo = [idle\<lparr>tx_data_re := True, tx_data_r := 1\<rparr>, idle\<lparr>tx_data_re := True, tx_data_r := 2\<rparr>,
     idle\<lparr>tx_data_re := True, tx_data_r := 3\<rparr>, idle\<lparr>phy_sink_ready := True\<rparr>]"

theorem tx_exactly_once_witness:
  "tx_accepted buf_fifo 128 2 tx_demo (bridge_init buf_fifo 128 2) = [1, 2] \<and>
   tx_sent buf_fifo 128 2 tx_demo (bridge_init buf_fifo 128 2) = [1] \<and>
   buf_contents (tx_fifo (bridge_run buf_fifo 128 2 tx_demo (bridge_init buf_fifo 128 2))) = [2]"
proof -
  have acc: "tx_accepted buf_fifo 128 2 tx_demo (bridge_init buf_fifo 128 2) = [1, 2]"
    by (simp add: tx_demo_def bridge_eval)
  have snt: "tx_sent buf_fifo 128 2 tx_demo (bridge_init buf_fifo 128 2) = [1]"
    by (simp add: tx_demo_def bridge_eval)
  have rst: "\<forall>i\<in>set tx_demo. \<not> sys_rst i" by (simp add: tx_demo_def)
  show ?thesis
    using tx_exactly_once [OF bf.sync_fifo_axioms rst, of 128 2]
    by (simp add: Let_def acc snt)
qed

text \<open>
  \<^verbatim>\<open>console_rx\<close> is atomic and consistent (S-RX-7, S-RX-8). In every legal state one read
  yields \<open>valid\<close> exactly when its \<open>level\<close> field is nonzero, a \<open>level\<close> within 0..depth, and, when
  valid, the byte the next pop consumes; an invalid read is all zeros.
\<close>

theorem console_rx_atomic:
  assumes "sync_fifo F cont okf" and "bridge_inv cont okf rx_depth tx_depth b"
    and "0 < rx_depth" and "rx_depth < 8192"
  shows "let w = uint (console_rx F rx_depth b) in
    (w AND 256 = 0 \<longleftrightarrow> drop_bit 9 w = 0) \<and> drop_bit 9 w \<le> int rx_depth \<and>
    (w AND 256 = 0 \<longrightarrow> w = 0) \<and>
    (w AND 256 \<noteq> 0 \<longrightarrow> cont (rx_fifo b) \<noteq> [] \<and> w AND 255 = uint (hd (cont (rx_fifo b))))"
proof (cases "source_valid F rx_depth (rx_fifo b)")
  case True
  have "okf rx_depth (rx_fifo b)" using assms(2) by (simp add: bridge_inv_def)
  then have h: "cont (rx_fifo b) \<noteq> [] \<and> source_data F rx_depth (rx_fifo b) = hd (cont (rx_fifo b))"
    and l: "fifo_level F rx_depth (rx_fifo b) = length (cont (rx_fifo b))"
    using True sync_fifo.head [OF assms(1)] sync_fifo.level [OF assms(1)] by auto
  then have lc: "0 < rx_level_capped F rx_depth b" "rx_level_capped F rx_depth b \<le> rx_depth"
    using assms(3) by (auto simp: rx_level_capped_def)
  with h True assms(4) show ?thesis
    by (simp add: Let_def console_rx_def reg_simps)
next
  case False
  then show ?thesis by (simp add: Let_def console_rx_def reg_simps)
qed

theorem console_rx_atomic_witness:
  "let b = bridge_run buf_fifo RX_DEPTH TX_DEPTH rx_demo (bridge_init buf_fifo RX_DEPTH TX_DEPTH) in
    uint (console_rx buf_fifo RX_DEPTH b) AND 256 \<noteq> 0 \<and>
    uint (console_rx buf_fifo RX_DEPTH b) AND 255 = 105 \<and>
    drop_bit 9 (uint (console_rx buf_fifo RX_DEPTH b)) \<noteq> 0"
proof -
  define b where
    "b = bridge_run buf_fifo RX_DEPTH TX_DEPTH rx_demo (bridge_init buf_fifo RX_DEPTH TX_DEPTH)"
  have inv: "bridge_inv buf_contents buf_ok RX_DEPTH TX_DEPTH b"
    unfolding b_def by (rule bf.inv_run [OF bf.inv_init])
  have c: "buf_contents (rx_fifo b) = [105]" and v: "outreg (rx_fifo b) = Some 105"
    by (simp_all add: b_def rx_demo_def bridge_eval)
  have "uint (console_rx buf_fifo RX_DEPTH b) AND 256 \<noteq> 0"
    by (simp add: console_rx_def Let_def v reg_simps)
  moreover have "0 < RX_DEPTH" "RX_DEPTH < 8192" by (simp_all add: RX_DEPTH_def)
  ultimately show ?thesis
    using console_rx_atomic [OF bf.sync_fifo_axioms inv] c by (simp add: Let_def b_def)
qed

text \<open>
  \<^verbatim>\<open>console_tx\<close> tells the truth (S-TX-1, S-TX-5). After any run from power-on, \<open>full\<close> is set
  exactly when the \<open>level\<close> field equals the depth, the \<open>level\<close> field is the number of queued
  bytes, and while \<open>full\<close> is clear the FIFO has room for the next write.
\<close>

theorem console_tx_full_iff:
  assumes "sync_fifo F cont okf" and "tx_depth < 512"
  shows "let b = bridge_run F rx_depth tx_depth is (bridge_init F rx_depth tx_depth);
      w = uint (console_tx F tx_depth b) in
    (w AND 512 \<noteq> 0 \<longleftrightarrow> take_bit 9 w = int tx_depth) \<and>
    take_bit 9 w = int (length (cont (tx_fifo b))) \<and>
    (w AND 512 = 0 \<longrightarrow> sink_ready F tx_depth (tx_fifo b))"
proof -
  define b where "b = bridge_run F rx_depth tx_depth is (bridge_init F rx_depth tx_depth)"
  have inv: "bridge_inv cont okf rx_depth tx_depth b"
    unfolding b_def by (rule sync_fifo.inv_run [OF assms(1) sync_fifo.inv_init [OF assms(1)]])
  then have "okf tx_depth (tx_fifo b)" and len: "length (cont (tx_fifo b)) \<le> tx_depth"
    by (auto simp: bridge_inv_def)
  moreover from this have "fifo_level F tx_depth (tx_fifo b) = length (cont (tx_fifo b))"
    by (simp add: sync_fifo.level [OF assms(1)])
  ultimately show ?thesis
    using assms(2) sync_fifo.ready [OF assms(1), of tx_depth "tx_fifo b"]
    by (auto simp: b_def [symmetric] Let_def console_tx_def tx_full_def reg_simps)
qed

theorem console_tx_full_iff_witness:
  "uint (console_tx buf_fifo 2 (bridge_run buf_fifo 128 2 (take 3 tx_demo) (bridge_init buf_fifo 128 2)))
     AND 512 \<noteq> 0"
proof -
  have c: "buf_contents (tx_fifo (bridge_run buf_fifo 128 2 (take 3 tx_demo)
      (bridge_init buf_fifo 128 2))) = [1, 2]"
    by (simp add: tx_demo_def bridge_eval)
  show ?thesis
    using console_tx_full_iff [OF bf.sync_fifo_axioms, of 2 128 "take 3 tx_demo"] c
    by (simp add: Let_def)
qed

text \<open>
  C29. The sticky bits (S-CSR-9 to S-CSR-12). After every clock edge, resets included, bit \<open>n\<close> of
  \<^verbatim>\<open>console_err\<close> is set exactly when its fault occurred in that cycle, or it was set and not
  cleared: a fault wins over a coinciding clear, a clear touches only the bits written as 1,
  and no reset clears anything.
\<close>

theorem sticky_bits_law:
  "bit (console_err (bridge_clock F rx_depth tx_depth i b)) n \<longleftrightarrow>
     n = 0 \<and> err_rx_overflow F rx_depth i b \<or>
     n = 1 \<and> err_tx_write_when_full F tx_depth i b \<or>
     n = 2 \<and> err_rx_pop_when_empty F rx_depth i b \<or>
     bit (console_err b) n \<and> \<not> (err_clear_re i \<and> bit (err_clear_r i) n)"
  by (auto simp: bit_console_err bridge_clock_def sticky_next_def)

text \<open>
  C18. Refinement: over any conforming FIFO, each cycle of the bridge is a step of the abstract
  console (two queues and two fault bits), resets included, as long as no byte is presented to
  a full RX FIFO.
\<close>

theorem bridge_refines_spec:
  assumes "sync_fifo F cont okf" and "bridge_inv cont okf rx_depth tx_depth b"
    and "\<not> err_rx_overflow F rx_depth i b"
  shows "bridge_abs cont (bridge_clock F rx_depth tx_depth i b) =
    spec_clock tx_depth (source_valid F rx_depth (rx_fifo b)) (source_valid F tx_depth (tx_fifo b)) i
      (bridge_abs cont b)"
  using sync_fifo.abs_clock [OF assms] .

theorem bridge_refines_spec_witness:
  "bridge_abs buf_contents (bridge_clock buf_fifo RX_DEPTH TX_DEPTH (hd rx_demo)
      (bridge_init buf_fifo RX_DEPTH TX_DEPTH)) =
   \<lparr>spec_rx = [72], spec_tx = [], spec_tx_err = False, spec_pop_err = False\<rparr>"
proof -
  have "\<not> err_rx_overflow buf_fifo RX_DEPTH (hd rx_demo) (bridge_init buf_fifo RX_DEPTH TX_DEPTH)"
    by (simp add: rx_demo_def bridge_eval)
  from bridge_refines_spec [OF bf.sync_fifo_axioms bf.inv_init this] show ?thesis
    by (simp add: rx_demo_def spec_clock_def bridge_abs_def bridge_eval)
qed

text \<open>
  Backpressure holds (S-BP-5, S-BP-7): once asserted, the stall stays asserted, with no
  timeout, for as long as the RX FIFO has not drained to the low-water mark.
\<close>

theorem stall_until_drained:
  assumes "sync_fifo F cont okf" and "bridge_inv cont okf rx_depth tx_depth b" and "stall b"
    and "\<forall>i\<in>set is. \<not> sys_rst i"
    and "\<forall>k<length is. lwm rx_depth <
      int (length (cont (rx_fifo (bridge_run F rx_depth tx_depth (take k is) b))))"
  shows "stall (bridge_run F rx_depth tx_depth is b)"
  by (rule sync_fifo.stall_run [OF assms])

text \<open>A stalled bridge of depth 128 (marks 64 and 0) that still holds one byte stays stalled.\<close>

lemma stall_demo:
  assumes "k = 0 \<or> k = 1"
  shows "lwm 128 < int (length (buf_contents (rx_fifo (bridge_run buf_fifo 128 2 (take k [idle, idle])
     \<lparr>rx_fifo = \<lparr>inner = [], outreg = Some 7\<rparr>, tx_fifo = \<lparr>inner = [], outreg = None\<rparr>, stall = True,
      sticky_err_0 = False, sticky_err_1 = False, sticky_err_2 = False\<rparr>))))"
  using assms by (auto simp: bridge_eval)

theorem stall_until_drained_witness:
  "stall (bridge_run buf_fifo 128 2 [idle, idle]
     \<lparr>rx_fifo = \<lparr>inner = [], outreg = Some 7\<rparr>, tx_fifo = \<lparr>inner = [], outreg = None\<rparr>, stall = True,
      sticky_err_0 = False, sticky_err_1 = False, sticky_err_2 = False\<rparr>)"
proof (rule stall_until_drained [OF bf.sync_fifo_axioms], goal_cases)
  case 4
  have "k = 0 \<or> k = 1" if "k < length [idle, idle]" for k using that by auto
  then show ?case by (metis (no_types, lifting) stall_demo)
qed (simp_all add: bridge_inv_def buf_defs)

text \<open>
  Draining releases the core (S-BP-7): however many bytes the RX FIFO holds, once the host
  has popped that many (each pop preceded by an idle cycle), the stall is deasserted.
\<close>

theorem drain_releases_stall:
  assumes "sync_fifo F cont okf" and "bridge_inv cont okf rx_depth tx_depth b"
    and "length (cont (rx_fifo b)) \<le> n" and "128 \<le> rx_depth"
  shows "\<not> stall (bridge_run F rx_depth tx_depth (concat (replicate n pop_cycles) @ [idle]) b)"
  by (rule sync_fifo.pops_release_stall [OF assms])

theorem drain_releases_stall_witness:
  "\<not> stall (bridge_run buf_fifo 128 2 (concat (replicate 1 pop_cycles) @ [idle])
     \<lparr>rx_fifo = \<lparr>inner = [], outreg = Some 7\<rparr>, tx_fifo = \<lparr>inner = [], outreg = None\<rparr>, stall = True,
      sticky_err_0 = False, sticky_err_1 = False, sticky_err_2 = False\<rparr>)"
  by (rule drain_releases_stall [OF bf.sync_fifo_axioms])
    (simp_all add: bridge_inv_def buf_defs)

end
