(* ===== verification/Console.thy ===== *)
theory Console
  imports Prelude "HOL-Library.Sublist"
begin

text \<open>
  The host's console client, \<^verbatim>\<open>src/host/b8008net/console.py\<close>: draining and sending bytes over the
  six console registers, the sticky-error report, the interactive pump and its terminal loop.

  The registers, the clock and the standard streams are reached through records of operations
  (\<open>console_board\<close>, \<open>console_io\<close>, \<open>console_tty\<close>), one field per call the source makes; register
  values are Python integers. Times are integers in microseconds. The source accumulates
  \<^verbatim>\<open>waited\<close> in binary floating point, where, as in exact arithmetic, the bound of 1.0 s is first
  reached after 1000 additions of 0.001.

  The locales \<open>console_port\<close> and \<open>console_session\<close> state what the client relies on; the board
  side that fulfils them is in \<open>Console_System\<close>.
\<close>

subsection \<open>Constants\<close>

definition RX_DATA_MASK :: int where "RX_DATA_MASK = 255"
definition RX_VALID_BIT :: int where "RX_VALID_BIT = 256"
definition TX_FULL_BIT :: int where "TX_FULL_BIT = 512"
definition ERR_RX_OVERFLOW :: int where "ERR_RX_OVERFLOW = 1"
definition ERR_TX_WRITE_WHEN_FULL :: int where "ERR_TX_WRITE_WHEN_FULL = 2"
definition ERR_RX_POP_WHEN_EMPTY :: int where "ERR_RX_POP_WHEN_EMPTY = 4"

definition ERROR_NAMES :: "(int \<times> string) list" where
  "ERROR_NAMES =
     [(ERR_RX_OVERFLOW, ''rx_overflow''),
      (ERR_TX_WRITE_WHEN_FULL, ''tx_write_when_full''),
      (ERR_RX_POP_WHEN_EMPTY, ''rx_pop_when_empty'')]"

definition DRAIN_MAX_BYTES :: nat where "DRAIN_MAX_BYTES = 4096"
definition TX_GAP_US :: int where "TX_GAP_US = 3000"
definition TX_FULL_TIMEOUT_US :: int where "TX_FULL_TIMEOUT_US = 1000000"
definition TX_FULL_POLL_US :: int where "TX_FULL_POLL_US = 1000"
definition READ_CHUNK :: nat where "READ_CHUNK = 4096"
definition EXIT_BYTE :: byte where "EXIT_BYTE = 29"

lemmas console_consts =
  RX_DATA_MASK_def RX_VALID_BIT_def TX_FULL_BIT_def ERR_RX_OVERFLOW_def
  ERR_TX_WRITE_WHEN_FULL_def ERR_RX_POP_WHEN_EMPTY_def

subsection \<open>The board and the streams the client talks to\<close>

record 'w console_board =
  console_rx_read :: "('w, int) sx"
  console_rx_pop_write :: "int \<Rightarrow> ('w, unit) sx"
  console_tx_read :: "('w, int) sx"
  console_tx_data_write :: "int \<Rightarrow> ('w, unit) sx"
  console_err_read :: "('w, int) sx"
  console_err_clear_write :: "int \<Rightarrow> ('w, unit) sx"
  sleep_us :: "int \<Rightarrow> ('w, unit) sx"

record 'w console_io = "'w console_board" +
  stderr_print :: "string \<Rightarrow> ('w, unit) sx"
  stdout_write :: "byte list \<Rightarrow> ('w, unit) sx"
  stdout_flush :: "('w, unit) sx option"
  stdin_read :: "nat \<Rightarrow> ('w, byte list) sx"

record ('w, 't) console_tty = "'w console_io" +
  select_stdin :: "('w, bool) sx"
  tty_tcgetattr :: "('w, 't) sx"
  tty_setraw :: "('w, unit) sx"
  tty_tcsetattr :: "'t \<Rightarrow> ('w, unit) sx"

subsection \<open>Receiving\<close>

fun drain_loop :: "('w, 'z) console_board_scheme \<Rightarrow> nat \<Rightarrow> byte list \<Rightarrow> ('w, byte list) sx" where
  "drain_loop B 0 out = sx_return out"
| "drain_loop B (Suc n) out =
     sx_bind (console_rx_read B) (\<lambda>word.
       if word AND RX_VALID_BIT = 0 then sx_return out
       else sx_bind (console_rx_pop_write B 1) (\<lambda>_.
         drain_loop B n (out @ [word_of_int (word AND RX_DATA_MASK)])))"

definition drain :: "('w, 'z) console_board_scheme \<Rightarrow> ('w, byte list) sx" where
  "drain B = drain_loop B DRAIN_MAX_BYTES []"

subsection \<open>Sending\<close>

text \<open>
  The bounded wait for \<^verbatim>\<open>console_tx.full\<close> to clear: \<open>True\<close> when there is room, \<open>False\<close> when the
  wait exceeded \<^verbatim>\<open>TX_FULL_TIMEOUT_S\<close>.
\<close>

function tx_wait :: "('w, 'z) console_board_scheme \<Rightarrow> int \<Rightarrow> ('w, bool) sx" where
  "tx_wait B waited =
     sx_bind (console_tx_read B) (\<lambda>v.
       if v AND TX_FULL_BIT = 0 then sx_return True
       else if waited \<ge> TX_FULL_TIMEOUT_US then sx_return False
       else sx_bind (sleep_us B TX_FULL_POLL_US) (\<lambda>_. tx_wait B (waited + TX_FULL_POLL_US)))"
  by pat_completeness auto
termination
  by (relation "measure (\<lambda>(B, waited). nat (TX_FULL_TIMEOUT_US - waited))")
    (auto simp: TX_FULL_POLL_US_def)

declare tx_wait.simps [simp del]

fun send_loop ::
    "('w, 'z) console_board_scheme \<Rightarrow> int \<Rightarrow> byte list \<Rightarrow> nat \<Rightarrow> ('w, nat) sx" where
  "send_loop B gap [] accepted = sx_return accepted"
| "send_loop B gap (b # rest) accepted =
     sx_bind (tx_wait B 0) (\<lambda>room.
       if \<not> room then sx_return accepted
       else sx_bind (console_tx_data_write B (uint b)) (\<lambda>_.
         sx_bind (if gap \<noteq> 0 then sleep_us B gap else sx_return ()) (\<lambda>_.
           send_loop B gap rest (Suc accepted))))"

definition send ::
    "('w, 'z) console_board_scheme \<Rightarrow> byte list \<Rightarrow> int option \<Rightarrow> ('w, nat) sx" where
  "send B data gap_s =
     (let gap = (case gap_s of None \<Rightarrow> TX_GAP_US | Some g \<Rightarrow> g)
      in send_loop B gap data 0)"

subsection \<open>Sticky errors\<close>

definition check_errors :: "('w, 'z) console_board_scheme \<Rightarrow> bool \<Rightarrow> ('w, int) sx" where
  "check_errors B clear =
     sx_bind (console_err_read B) (\<lambda>err.
       if err \<noteq> 0 \<and> clear
       then sx_bind (console_err_clear_write B err) (\<lambda>_. sx_return err)
       else sx_return err)"

definition describe_errors :: "int \<Rightarrow> string list" where
  "describe_errors err = map snd (filter (\<lambda>(b, name). err AND b \<noteq> 0) ERROR_NAMES)"

definition report_errors :: "('w, 'z) console_io_scheme \<Rightarrow> int \<Rightarrow> ('w, unit) sx" where
  "report_errors B err =
     (let joined = join '', '' (describe_errors err);
          names = (if joined = [] then ''0x'' @ hex_int err else joined)
      in stderr_print B
           (''-- console: error condition detected ('' @ names @
            '') -- bytes may be missing from this transcript --''))"

definition report_dropped :: "('w, 'z) console_io_scheme \<Rightarrow> nat \<Rightarrow> nat \<Rightarrow> ('w, unit) sx" where
  "report_dropped B dropped requested =
     stderr_print B
       (''-- console: '' @ dec_nat dropped @ '' of '' @ dec_nat requested @
        '' typed byte(s) dropped -- TX FIFO stayed full --'')"

definition send_and_report :: "('w, 'z) console_io_scheme \<Rightarrow> byte list \<Rightarrow> ('w, unit) sx" where
  "send_and_report B data =
     sx_bind (send B data None) (\<lambda>accepted.
       if accepted < length data
       then report_dropped B (length data - accepted) (length data)
       else sx_return ())"

subsection \<open>The pump and the terminal loop\<close>

text \<open>\<^verbatim>\<open>data.find(bytes([b]))\<close>: the first index, or -1.\<close>

fun find_byte :: "byte \<Rightarrow> byte list \<Rightarrow> int" where
  "find_byte b [] = -1"
| "find_byte b (x # xs) =
     (if x = b then 0 else if find_byte b xs = -1 then -1 else find_byte b xs + 1)"

definition pump_errors :: "('w, 'z) console_io_scheme \<Rightarrow> ('w, unit) sx" where
  "pump_errors B =
     sx_bind (check_errors B True) (\<lambda>err. if err \<noteq> 0 then report_errors B err else sx_return ())"

definition pump_output :: "('w, 'z) console_io_scheme \<Rightarrow> ('w, unit) sx" where
  "pump_output B =
     sx_bind (drain B) (\<lambda>out.
       if out \<noteq> []
       then sx_bind (stdout_write B out) (\<lambda>_.
         case stdout_flush B of None \<Rightarrow> sx_return () | Some flush \<Rightarrow> flush)
       else sx_return ())"

definition pump_keys :: "('w, 'z) console_io_scheme \<Rightarrow> bool \<Rightarrow> ('w, bool) sx" where
  "pump_keys B stdin_ready =
     (if stdin_ready
      then sx_bind (stdin_read B READ_CHUNK) (\<lambda>data.
        if data = [] then sx_return False
        else let exit_idx = find_byte EXIT_BYTE data
             in if exit_idx \<noteq> -1
                then sx_bind (if exit_idx > 0 then send_and_report B (take (nat exit_idx) data)
                              else sx_return ()) (\<lambda>_. sx_return False)
                else sx_bind (send_and_report B data) (\<lambda>_. sx_return True))
      else sx_return True)"

definition console_pump :: "('w, 'z) console_io_scheme \<Rightarrow> bool \<Rightarrow> ('w, bool) sx" where
  "console_pump B stdin_ready =
     sx_bind (pump_errors B) (\<lambda>_. sx_bind (pump_output B) (\<lambda>_. pump_keys B stdin_ready))"

text \<open>
  The \<^verbatim>\<open>while True\<close> of \<^verbatim>\<open>console_loop\<close>: it runs until the pump asks to stop or something raises,
  so it may run forever (\<open>None\<close>).
\<close>

partial_function (option) pump_loop ::
    "('w, 't, 'z) console_tty_scheme \<Rightarrow> 'w \<Rightarrow> ((exn + unit) \<times> 'w) option" where
  "pump_loop T w =
     (case select_stdin T w of
        (Inl e, w1) \<Rightarrow> Some (Inl e, w1)
      | (Inr ready, w1) \<Rightarrow>
          (case console_pump T ready w1 of
             (Inl e, w2) \<Rightarrow> Some (Inl e, w2)
           | (Inr go, w2) \<Rightarrow> if go then pump_loop T w2 else Some (Inr (), w2)))"

definition console_banner :: string where
  "console_banner = ''-- b8008net console: Ctrl-] to exit --'' @ [char_of (13::nat)]"

definition console_loop ::
    "('w, 't, 'z) console_tty_scheme \<Rightarrow> 'w \<Rightarrow> ((exn + unit) \<times> 'w) option" where
  "console_loop T w =
     (case tty_tcgetattr T w of
        (Inl e, w1) \<Rightarrow> Some (Inl e, w1)
      | (Inr old_settings, w1) \<Rightarrow>
          (case (case sx_bind (tty_setraw T) (\<lambda>_. stderr_print T console_banner) w1 of
                   (Inl e, w2) \<Rightarrow> Some (Inl e, w2)
                 | (Inr _, w2) \<Rightarrow> pump_loop T w2) of
             None \<Rightarrow> None
           | Some (r, w3) \<Rightarrow>
               (case tty_tcsetattr T old_settings w3 of
                  (Inl e, w4) \<Rightarrow> Some (Inl e, w4)
                | (Inr _, w4) \<Rightarrow> Some (if r = Inl KeyboardInterrupt then Inr () else r, w4))))"

subsection \<open>What draining and sending leave alone\<close>

lemma keeps_drain:
  assumes "keeps f (console_rx_read B)" "\<And>v. keeps f (console_rx_pop_write B v)"
  shows "keeps f (drain B)"
proof -
  have "keeps f (drain_loop B n out)" for n out
    by (induction n arbitrary: out) (auto intro!: keeps_intros assms)
  then show ?thesis by (simp add: drain_def)
qed

lemma keeps_send:
  assumes B: "keeps f (console_tx_read B)" "\<And>v. keeps f (console_tx_data_write B v)" "\<And>t. keeps f (sleep_us B t)"
  shows "keeps f (send B data gap)"
proof -
  have wait: "keeps f (tx_wait B waited)" for waited
    using B
  proof (induction B waited rule: tx_wait.induct)
    case (1 B waited)
    show ?case
      by (subst tx_wait.simps) (auto intro!: keeps_intros 1(2-4) 1(1) [OF _ _ 1(2-4)])
  qed
  have "keeps f (send_loop B g bs n)" for g bs n
    by (induction bs arbitrary: n) (auto intro!: keeps_intros B wait)
  then show ?thesis by (simp add: send_def)
qed

subsection \<open>What the client relies on\<close>

text \<open>
  A \<open>port_view\<close> is what matters about a world: the bytes not yet consumed on the receive side
  (held by the board or still to be sent by the core), the bytes accepted on the transmit side
  so far, whether the host provoked a fault (a write while full, a pop while empty), the
  transcript written to standard output, the lines written to standard error, the chunks the
  next reads of standard input return (end of file after the last), and whether the next polls
  of standard input find it ready (always, after the last).
\<close>

record port_view =
  pv_rx :: "byte list"
  pv_tx :: "byte list"
  pv_faults :: "bool \<times> bool"
  pv_out :: "byte list"
  pv_err :: "string list"
  pv_in :: "byte list list"
  pv_ready :: "bool list"

definition fewer_faults :: "port_view \<Rightarrow> port_view \<Rightarrow> bool" where
  "fewer_faults v v' \<longleftrightarrow>
     (fst (pv_faults v') \<longrightarrow> fst (pv_faults v)) \<and> (snd (pv_faults v') \<longrightarrow> snd (pv_faults v))"

locale console_port =
  fixes B :: "('w, 'z) console_board_scheme"
    and inv :: "'w \<Rightarrow> bool"
    and avail :: "'w \<Rightarrow> bool"
    and room :: "'w \<Rightarrow> bool"
    and view :: "'w \<Rightarrow> port_view"
  assumes rx_read: "inv w \<Longrightarrow> console_rx_read B w = (r, w') \<Longrightarrow>
      inv w' \<and> view w' = view w \<and>
      (\<forall>v. r = Inr v \<and> v AND 256 \<noteq> 0 \<longrightarrow>
        avail w' \<and> pv_rx (view w) \<noteq> [] \<and> v AND 255 = uint (hd (pv_rx (view w))))"
    and rx_pop: "inv w \<Longrightarrow> avail w \<Longrightarrow> console_rx_pop_write B x w = (u, w') \<Longrightarrow>
      inv w' \<and> (view w' = (view w)\<lparr>pv_rx := tl (pv_rx (view w))\<rparr> \<or> isl u \<and> view w' = view w)"
    and tx_read: "inv w \<Longrightarrow> console_tx_read B w = (r, w') \<Longrightarrow>
      inv w' \<and> view w' = view w \<and> (\<forall>v. r = Inr v \<and> v AND 512 = 0 \<longrightarrow> room w')"
    and tx_write: "inv w \<Longrightarrow> room w \<Longrightarrow> console_tx_data_write B (uint y) w = (u, w') \<Longrightarrow>
      inv w' \<and> (view w' = (view w)\<lparr>pv_tx := pv_tx (view w) @ [y]\<rparr> \<or> isl u \<and> view w' = view w)"
    and err_read: "inv w \<Longrightarrow> console_err_read B w = (r, w') \<Longrightarrow> inv w' \<and> view w' = view w"
    and err_clear: "inv w \<Longrightarrow> console_err_clear_write B x w = (u, w') \<Longrightarrow>
      inv w' \<and> view w' = (view w)\<lparr>pv_faults := pv_faults (view w')\<rparr> \<and> fewer_faults (view w) (view w')"
    and sleeping: "inv w \<Longrightarrow> sleep_us B t w = (u, w') \<Longrightarrow> inv w' \<and> view w' = view w"
begin

text \<open>
  The bytes already consumed and the bytes still to come make up the original stream on both
  exits; on a normal return the consumed ones are exactly the ones returned.
\<close>

lemma drain_loop_spec:
  assumes "inv w" "drain_loop B n acc w = (r, w')"
  shows "inv w' \<and> (\<exists>got. length got \<le> n \<and> pv_rx (view w) = got @ pv_rx (view w') \<and>
    view w' = (view w)\<lparr>pv_rx := pv_rx (view w')\<rparr> \<and> (\<forall>out. r = Inr out \<longrightarrow> out = acc @ got))"
  using assms
proof (induction n arbitrary: acc w)
  case 0
  then show ?case by auto
next
  case (Suc n)
  obtain r1 w1 where rd: "console_rx_read B w = (r1, w1)" by fastforce
  note r1 = rx_read [OF Suc.prems(1) rd]
  show ?case
  proof (cases "\<exists>v. r1 = Inr v \<and> v AND 256 \<noteq> 0")
    case False
    then have "w' = w1 \<and> (\<forall>out. r = Inr out \<longrightarrow> out = acc)"
      using Suc.prems(2) rd
      by (auto simp: sx_bind_def RX_VALID_BIT_def split: sum.splits)
    with r1 show ?thesis by auto
  next
    case True
    then obtain v where v: "r1 = Inr v" "v AND 256 \<noteq> 0" by auto
    then have a: "avail w1" "pv_rx (view w) \<noteq> []" "v AND 255 = uint (hd (pv_rx (view w)))"
      using r1 by auto
    obtain r2 w2 where pop: "console_rx_pop_write B 1 w1 = (r2, w2)" by fastforce
    then have p: "inv w2"
      "view w2 = (view w)\<lparr>pv_rx := tl (pv_rx (view w))\<rparr> \<or> isl r2 \<and> view w2 = view w"
      using rx_pop [OF _ a(1) pop] r1 by auto
    let ?x = "hd (pv_rx (view w))"
    show ?thesis
    proof (cases r2)
      case (Inl e)
      then have "r = Inl e" "w' = w2"
        using Suc.prems(2) rd v pop by (auto simp: sx_bind_def RX_VALID_BIT_def)
      show ?thesis
      proof (cases "view w2 = view w")
        case True
        then show ?thesis using \<open>r = Inl e\<close> \<open>w' = w2\<close> p(1) by (intro conjI exI [of _ "[]"]) auto
      next
        case False
        then show ?thesis
          using \<open>r = Inl e\<close> \<open>w' = w2\<close> p a by (intro conjI exI [of _ "[?x]"]) auto
      qed
    next
      case (Inr u)
      then have "drain_loop B n (acc @ [?x]) w2 = (r, w')"
        using Suc.prems(2) rd v pop a(3)
        by (simp add: sx_bind_def RX_VALID_BIT_def RX_DATA_MASK_def)
      from Suc.IH [OF p(1) this] obtain got where g: "inv w'" "length got \<le> n"
        "pv_rx (view w2) = got @ pv_rx (view w')" "view w' = (view w2)\<lparr>pv_rx := pv_rx (view w')\<rparr>"
        "\<forall>out. r = Inr out \<longrightarrow> out = acc @ [?x] @ got" by auto
      then show ?thesis using Inr p a by (intro conjI exI [of _ "?x # got"]) (auto simp: neq_Nil_conv)
    qed
  qed
qed

lemma drain_spec:
  assumes "inv w" "drain B w = (Inr out, w')"
  shows "inv w' \<and> pv_rx (view w) = out @ pv_rx (view w') \<and> length out \<le> DRAIN_MAX_BYTES \<and>
    view w' = (view w)\<lparr>pv_rx := pv_rx (view w')\<rparr>"
  using drain_loop_spec [OF assms(1) assms(2) [unfolded drain_def]] by auto

lemma drain_raises:
  assumes "inv w" "drain B w = (Inl e, w')"
  shows "inv w' \<and> (\<exists>gone. pv_rx (view w) = gone @ pv_rx (view w')) \<and>
    view w' = (view w)\<lparr>pv_rx := pv_rx (view w')\<rparr>"
  using drain_loop_spec [OF assms(1) assms(2) [unfolded drain_def]] by auto

lemma tx_wait_spec:
  assumes "inv w" "tx_wait B t w = (r, w')"
  shows "inv w' \<and> view w' = view w \<and> (r = Inr True \<longrightarrow> room w')"
  using assms
proof (induction "nat (TX_FULL_TIMEOUT_US - t)" arbitrary: t w rule: less_induct)
  case less
  obtain r1 w1 where rd: "console_tx_read B w = (r1, w1)" by fastforce
  note r1 = tx_read [OF less.prems(1) rd]
  obtain u w2 where sl: "sleep_us B TX_FULL_POLL_US w1 = (u, w2)" by fastforce
  have w2: "inv w2" "view w2 = view w"
    using sleeping [OF _ sl] r1 by auto
  consider (stop) "w' = w1" "r = Inr True \<longrightarrow> (\<exists>v. r1 = Inr v \<and> v AND 512 = 0)"
    | (woken) e where "w' = w2" "r = Inl e"
    | (again) "t < TX_FULL_TIMEOUT_US" "tx_wait B (t + TX_FULL_POLL_US) w2 = (r, w')"
    using less.prems(2) rd sl
    by (subst (asm) tx_wait.simps)
      (auto simp: sx_bind_def TX_FULL_BIT_def split: sum.splits if_splits)
  then show ?case
  proof cases
    case again
    then have "nat (TX_FULL_TIMEOUT_US - (t + TX_FULL_POLL_US)) < nat (TX_FULL_TIMEOUT_US - t)"
      by (simp add: TX_FULL_POLL_US_def)
    from less.hyps [OF this w2(1) again(2)] w2(2) show ?thesis by simp
  qed (use r1 w2 in auto)
qed

lemma send_loop_spec:
  assumes "inv w" "send_loop B gap data acc w = (r, w')"
  shows "inv w' \<and> (\<exists>n\<le>length data.
    view w' = (view w)\<lparr>pv_tx := pv_tx (view w) @ take n data\<rparr> \<and> (\<forall>m. r = Inr m \<longrightarrow> m = acc + n))"
  using assms
proof (induction data arbitrary: acc w)
  case Nil
  then show ?case by auto
next
  case (Cons x data)
  obtain r1 w1 where wt: "tx_wait B 0 w = (r1, w1)" by fastforce
  note w1 = tx_wait_spec [OF Cons.prems(1) wt]
  show ?case
  proof (cases "r1 = Inr True")
    case False
    then have "w' = w1 \<and> (\<forall>m. r = Inr m \<longrightarrow> m = acc)"
      using Cons.prems(2) wt by (auto simp: sx_bind_def split: sum.splits if_splits)
    with w1 show ?thesis by (auto intro!: exI [of _ 0])
  next
    case True
    obtain u2 w2 where wr: "console_tx_data_write B (uint x) w1 = (u2, w2)" by fastforce
    then have w2: "inv w2"
      "view w2 = (view w)\<lparr>pv_tx := pv_tx (view w) @ [x]\<rparr> \<or> isl u2 \<and> view w2 = view w"
      using tx_write [OF _ _ wr] w1 True by auto
    obtain u3 w3 where gp: "(if gap \<noteq> 0 then sleep_us B gap else sx_return ()) w2 = (u3, w3)"
      by fastforce
    then have w3: "inv w3" "view w3 = view w2"
      using w2 sleeping [of w2 gap u3 w3] by (auto split: if_splits)
    consider (stop) e where "r = Inl e" "w' = w2 \<or> w' = w3"
      | (next_byte) "\<not> isl u2" "send_loop B gap data (Suc acc) w3 = (r, w')"
      using Cons.prems(2) wt True wr gp by (auto simp: sx_bind_def split: sum.splits)
    then show ?thesis
    proof cases
      case stop
      show ?thesis
      proof (cases "view w2 = view w")
        case True
        then show ?thesis using stop w2 w3 by (intro conjI exI [of _ 0]) auto
      next
        case False
        then show ?thesis using stop w2 w3 by (intro conjI exI [of _ 1]) auto
      qed
    next
      case next_byte
      from Cons.IH [OF w3(1) this(2)] obtain n where "inv w'" "n \<le> length data"
        "view w' = (view w3)\<lparr>pv_tx := pv_tx (view w3) @ take n data\<rparr>"
        "\<forall>m. r = Inr m \<longrightarrow> m = Suc acc + n" by auto
      then show ?thesis using next_byte(1) w2 w3 by (auto intro!: exI [of _ "Suc n"])
    qed
  qed
qed

lemma send_spec:
  assumes "inv w" "send B data gap w = (r, w')"
  shows "inv w' \<and> (\<exists>n\<le>length data.
    view w' = (view w)\<lparr>pv_tx := pv_tx (view w) @ take n data\<rparr> \<and> (\<forall>m. r = Inr m \<longrightarrow> m = n))"
  using send_loop_spec [OF assms(1)] assms(2) by (fastforce simp: send_def Let_def)

lemma check_errors_spec:
  assumes "inv w" "check_errors B clear w = (r, w')"
  shows "inv w' \<and> view w' = (view w)\<lparr>pv_faults := pv_faults (view w')\<rparr> \<and>
    fewer_faults (view w) (view w')"
proof -
  obtain r1 w1 where rd: "console_err_read B w = (r1, w1)" by fastforce
  note w1 = err_read [OF assms(1) rd]
  show ?thesis
  proof (cases "\<exists>v. r1 = Inr v \<and> v \<noteq> 0 \<and> clear")
    case False
    then have "w' = w1"
      using assms(2) rd by (auto simp: check_errors_def sx_bind_def split: sum.splits)
    with w1 show ?thesis by (simp add: fewer_faults_def)
  next
    case True
    then obtain v where v: "r1 = Inr v" "v \<noteq> 0" "clear" by auto
    obtain u w2 where cl: "console_err_clear_write B v w1 = (u, w2)" by fastforce
    then have "w' = w2"
      using assms(2) rd v by (auto simp: check_errors_def sx_bind_def split: sum.splits)
    with err_clear [OF _ cl] w1 show ?thesis by simp
  qed
qed

end

definition drop_message :: "nat \<Rightarrow> nat \<Rightarrow> string" where
  "drop_message dropped requested =
     ''-- console: '' @ dec_nat dropped @ '' of '' @ dec_nat requested @
     '' typed byte(s) dropped -- TX FIFO stayed full --''"

text \<open>
  One iteration of the pump, seen from outside: the transcript followed by the bytes still to
  come is unchanged, the host provokes no fault, and what was typed before the escape byte is
  sent from the front, with a message for every byte that was not.
\<close>

definition stdin_chunk :: "port_view \<Rightarrow> byte list" where
  "stdin_chunk v = (case pv_in v of [] \<Rightarrow> [] | c # _ \<Rightarrow> c)"

definition typed :: "byte list \<Rightarrow> byte list" where
  "typed data = takeWhile (\<lambda>x. x \<noteq> EXIT_BYTE) data"

definition keys_handled :: "byte list \<Rightarrow> port_view \<Rightarrow> port_view \<Rightarrow> bool" where
  "keys_handled want v v' \<longleftrightarrow>
     (\<exists>n reports. n \<le> length want \<and> pv_tx v' = pv_tx v @ take n want \<and>
        pv_err v' = pv_err v @ reports \<and>
        (n < length want \<longrightarrow> drop_message (length want - n) (length want) \<in> set reports))"

definition pump_ok :: "bool \<Rightarrow> bool \<Rightarrow> port_view \<Rightarrow> port_view \<Rightarrow> bool" where
  "pump_ok ready go v v' \<longleftrightarrow>
     (let data = (if ready then stdin_chunk v else []) in
      pv_out v' @ pv_rx v' = pv_out v @ pv_rx v \<and> fewer_faults v v' \<and>
      pv_in v' = (if ready then tl (pv_in v) else pv_in v) \<and> pv_ready v' = pv_ready v \<and>
      go = (\<not> ready \<or> data \<noteq> [] \<and> EXIT_BYTE \<notin> set data) \<and>
      keys_handled (typed data) v v')"

lemma find_byte_takeWhile:
  "find_byte b xs = (if b \<in> set xs then int (length (takeWhile (\<lambda>x. x \<noteq> b) xs)) else -1)"
  by (induction xs) auto

lemma take_find_byte:
  "b \<in> set xs \<Longrightarrow> take (nat (find_byte b xs)) xs = takeWhile (\<lambda>x. x \<noteq> b) xs"
  by (simp add: find_byte_takeWhile takeWhile_eq_take [symmetric])

lemma typed_split:
  "typed data = (if EXIT_BYTE \<in> set data then take (nat (find_byte EXIT_BYTE data)) data else data)"
  using take_find_byte [of EXIT_BYTE data] takeWhile_eq_all_conv [of "\<lambda>x. x \<noteq> EXIT_BYTE" data]
  by (auto simp: typed_def)

lemma find_byte_pos: "EXIT_BYTE \<in> set data \<Longrightarrow> 0 < find_byte EXIT_BYTE data \<longleftrightarrow> typed data \<noteq> []"
  by (simp add: find_byte_takeWhile typed_def)

lemma keys_handled_trans:
  assumes "keys_handled want v1 v2" "pv_tx v1 = pv_tx v" "pv_err v1 = pv_err v @ r"
  shows "keys_handled want v v2"
  using assms by (fastforce simp: keys_handled_def)

text \<open>
  A whole session: the keystrokes a user means to send are those of the chunks up to end of file
  or the escape byte. Each is sent in order, or a message says that some were dropped.
\<close>

fun session_keys :: "byte list list \<Rightarrow> byte list" where
  "session_keys [] = []"
| "session_keys (c # cs) =
     (if c = [] then []
      else typed c @ (if EXIT_BYTE \<in> set c then [] else session_keys cs))"

definition session_ok :: "port_view \<Rightarrow> port_view \<Rightarrow> bool" where
  "session_ok v v' \<longleftrightarrow>
     pv_out v' @ pv_rx v' = pv_out v @ pv_rx v \<and> fewer_faults v v' \<and>
     (\<exists>sent reports. pv_tx v' = pv_tx v @ sent \<and> pv_err v' = pv_err v @ reports \<and>
        subseq sent (session_keys (pv_in v)) \<and>
        (sent = session_keys (pv_in v) \<or> (\<exists>d t. drop_message d t \<in> set reports)))"

lemma session_ok_stop:
  assumes "pump_ok ready False v v'"
  shows "session_ok v v'"
proof -
  obtain n reports where n: "n \<le> length (typed (stdin_chunk v))"
    "pv_tx v' = pv_tx v @ take n (typed (stdin_chunk v))" "pv_err v' = pv_err v @ reports"
    "n < length (typed (stdin_chunk v)) \<longrightarrow>
      drop_message (length (typed (stdin_chunk v)) - n) (length (typed (stdin_chunk v))) \<in> set reports"
    using assms by (auto simp: pump_ok_def keys_handled_def Let_def split: if_splits)
  have "session_keys (pv_in v) = typed (stdin_chunk v)"
    using assms by (cases "pv_in v") (auto simp: pump_ok_def stdin_chunk_def typed_def Let_def split: if_splits)
  moreover have "subseq (take n xs) xs" for xs :: "byte list"
    by (metis append_take_drop_id list_emb_append2 subseq_order.order_refl subseq_rev_drop_many)
  ultimately show ?thesis
    using assms n by (auto simp: session_ok_def pump_ok_def Let_def)
qed

lemma session_ok_step:
  assumes "pump_ok ready True v v1" "session_ok v1 v'"
  shows "session_ok v v'"
proof -
  define want where "want = typed (if ready then stdin_chunk v else [])"
  obtain n reports where n: "n \<le> length want"
    "pv_tx v1 = pv_tx v @ take n want" "pv_err v1 = pv_err v @ reports"
    "n < length want \<longrightarrow> drop_message (length want - n) (length want) \<in> set reports"
    using assms(1) by (auto simp: pump_ok_def keys_handled_def want_def Let_def)
  obtain sent reports' where s: "pv_tx v' = pv_tx v1 @ sent" "pv_err v' = pv_err v1 @ reports'"
    "subseq sent (session_keys (pv_in v1))"
    "sent = session_keys (pv_in v1) \<or> (\<exists>d t. drop_message d t \<in> set reports')"
    using assms(2) by (auto simp: session_ok_def)
  have keys: "session_keys (pv_in v) = want @ session_keys (pv_in v1)"
    using assms(1)
    by (cases "pv_in v") (auto simp: pump_ok_def want_def stdin_chunk_def typed_def Let_def split: if_splits)
  have "subseq (take n want) want"
    by (metis append_take_drop_id list_emb_append2 subseq_order.order_refl subseq_rev_drop_many)
  then have "subseq (take n want @ sent) (session_keys (pv_in v))"
    using s(3) by (simp add: keys list_emb_append_mono)
  moreover have "take n want @ sent = session_keys (pv_in v) \<or>
      (\<exists>d t. drop_message d t \<in> set (reports @ reports'))"
    using n(1,4) s(4) by (cases "n = length want") (auto simp: keys)
  ultimately have "\<exists>sent reports. pv_tx v' = pv_tx v @ sent \<and> pv_err v' = pv_err v @ reports \<and>
        subseq sent (session_keys (pv_in v)) \<and>
        (sent = session_keys (pv_in v) \<or> (\<exists>d t. drop_message d t \<in> set reports))"
    using n(2,3) s(1,2)
    by (intro exI [of _ "take n want @ sent"] exI [of _ "reports @ reports'"]) simp
  moreover have "pv_out v' @ pv_rx v' = pv_out v @ pv_rx v" "fewer_faults v v'"
    using assms by (auto simp: session_ok_def pump_ok_def Let_def fewer_faults_def)
  ultimately show ?thesis by (simp add: session_ok_def)
qed

locale console_session = console_port B inv avail room view
  for B :: "('w, 'z) console_io_scheme" and inv avail room view +
  assumes print: "inv w \<Longrightarrow> stderr_print B msg w = (Inr u', w') \<Longrightarrow>
      inv w' \<and> view w' = (view w)\<lparr>pv_err := pv_err (view w) @ [msg]\<rparr>"
    and out_write: "inv w \<Longrightarrow> stdout_write B bs w = (Inr u', w') \<Longrightarrow>
      inv w' \<and> view w' = (view w)\<lparr>pv_out := pv_out (view w) @ bs\<rparr>"
    and out_flush: "stdout_flush B = Some fl \<Longrightarrow> inv w \<Longrightarrow> fl w = (Inr u', w') \<Longrightarrow>
      inv w' \<and> view w' = view w"
    and in_read: "inv w \<Longrightarrow> stdin_read B READ_CHUNK w = (Inr bs, w') \<Longrightarrow>
      inv w' \<and> view w' = (view w)\<lparr>pv_in := tl (pv_in (view w))\<rparr> \<and>
      bs = (case pv_in (view w) of [] \<Rightarrow> [] | c # _ \<Rightarrow> c)"
begin

lemma send_and_report_spec:
  assumes "inv w" "send_and_report B data w = (Inr u, w')"
  shows "inv w' \<and> (\<exists>n\<le>length data. view w' = (view w)\<lparr>pv_tx := pv_tx (view w) @ take n data,
      pv_err := pv_err (view w) @
        (if n < length data then [drop_message (length data - n) (length data)] else [])\<rparr>)"
proof -
  from assms(2) obtain n w1 where s: "send B data None w = (Inr n, w1)"
    and rest: "(if n < length data then report_dropped B (length data - n) (length data)
                else sx_return ()) w1 = (Inr u, w')"
    by (auto simp: send_and_report_def sx_bind_Inr)
  then show ?thesis
    using send_spec [OF assms(1) s] print [of w1 "drop_message (length data - n) (length data)"]
    by (auto simp: report_dropped_def drop_message_def split: if_splits)
qed

lemma pump_errors_spec:
  assumes "inv w" "pump_errors B w = (Inr u, w')"
  shows "inv w' \<and> fewer_faults (view w) (view w') \<and> (\<exists>reports.
    view w' = (view w)\<lparr>pv_faults := pv_faults (view w'), pv_err := pv_err (view w) @ reports\<rparr>)"
proof -
  obtain err w1 where ce: "check_errors B True w = (Inr err, w1)"
    and rp: "(if err \<noteq> 0 then report_errors B err else sx_return ()) w1 = (Inr u, w')"
    using assms(2) by (auto simp: pump_errors_def sx_bind_Inr)
  have w1: "inv w1" "view w1 = (view w)\<lparr>pv_faults := pv_faults (view w1)\<rparr>"
    "fewer_faults (view w) (view w1)"
    using check_errors_spec [OF assms(1) ce] by auto
  obtain reports where w2: "inv w'" "view w' = (view w1)\<lparr>pv_err := pv_err (view w1) @ reports\<rparr>"
  proof (cases "err = 0")
    case True
    with rp w1(1) show ?thesis by (intro that [of "[]"]) auto
  next
    case False
    with rp print [OF w1(1)] show ?thesis
      by (auto simp: report_errors_def Let_def intro: that)
  qed
  moreover have "pv_err (view w1) = pv_err (view w)" by (subst w1(2)) simp
  ultimately show ?thesis
    using w1 by (auto simp: fewer_faults_def intro!: exI [of _ reports])
qed

lemma pump_output_spec:
  assumes "inv w" "pump_output B w = (Inr u, w')"
  shows "inv w' \<and> pv_out (view w') @ pv_rx (view w') = pv_out (view w) @ pv_rx (view w) \<and>
    view w' = (view w)\<lparr>pv_rx := pv_rx (view w'), pv_out := pv_out (view w')\<rparr>"
proof -
  obtain out w1 where d: "drain B w = (Inr out, w1)"
    and wr: "(if out \<noteq> [] then sx_bind (stdout_write B out) (\<lambda>_.
        case stdout_flush B of None \<Rightarrow> sx_return () | Some flush \<Rightarrow> flush)
      else sx_return ()) w1 = (Inr u, w')"
    using assms(2) by (auto simp: pump_output_def sx_bind_Inr [where m = "drain B"])
  have w1: "inv w1" "pv_rx (view w) = out @ pv_rx (view w1)"
    "view w1 = (view w)\<lparr>pv_rx := pv_rx (view w1)\<rparr>"
    using drain_spec [OF assms(1) d] by auto
  have "inv w' \<and> view w' = (view w1)\<lparr>pv_out := pv_out (view w1) @ out\<rparr>"
    using wr w1(1) out_write [of w1] out_flush
    by (fastforce simp: sx_bind_Inr split: if_splits option.splits)
  moreover have "pv_out (view w1) = pv_out (view w)" by (subst w1(3)) simp
  ultimately show ?thesis using w1 by auto
qed

lemma pump_keys_spec:
  assumes "inv w" "pump_keys B True w = (Inr go, w')"
  shows "inv w' \<and> go = (stdin_chunk (view w) \<noteq> [] \<and> EXIT_BYTE \<notin> set (stdin_chunk (view w))) \<and>
    keys_handled (typed (stdin_chunk (view w))) (view w) (view w') \<and>
    view w' = (view w)\<lparr>pv_in := tl (pv_in (view w)), pv_tx := pv_tx (view w'), pv_err := pv_err (view w')\<rparr>"
proof -
  obtain data w1 where rd: "stdin_read B READ_CHUNK w = (Inr data, w1)"
    and rest: "(if data = [] then sx_return False
        else let exit_idx = find_byte EXIT_BYTE data
             in if exit_idx \<noteq> -1
                then sx_bind (if exit_idx > 0 then send_and_report B (take (nat exit_idx) data)
                              else sx_return ()) (\<lambda>_. sx_return False)
                else sx_bind (send_and_report B data) (\<lambda>_. sx_return True)) w1 = (Inr go, w')"
    using assms(2) by (auto simp: pump_keys_def sx_bind_Inr [where m = "stdin_read B READ_CHUNK"])
  have w1: "inv w1" "view w1 = (view w)\<lparr>pv_in := tl (pv_in (view w))\<rparr>" "data = stdin_chunk (view w)"
    using in_read [OF assms(1) rd] by (auto simp: stdin_chunk_def)
  have go: "go = (data \<noteq> [] \<and> EXIT_BYTE \<notin> set data)"
    using rest find_byte_takeWhile [of EXIT_BYTE data]
    by (auto simp: Let_def sx_bind_Inr split: if_splits)
  have sent: "typed data = [] \<and> w' = w1 \<or> send_and_report B (typed data) w1 = (Inr (), w')"
  proof (cases "EXIT_BYTE \<in> set data")
    case True
    then show ?thesis
      using rest find_byte_takeWhile [of EXIT_BYTE data] find_byte_pos [OF True] typed_split [of data]
      by (auto simp: Let_def sx_bind_Inr split: if_splits)
  next
    case False
    then show ?thesis
      using rest find_byte_takeWhile [of EXIT_BYTE data] typed_split [of data]
      by (auto simp: Let_def sx_bind_Inr split: if_splits)
  qed
  have "inv w' \<and> keys_handled (typed data) (view w1) (view w') \<and>
      view w' = (view w1)\<lparr>pv_tx := pv_tx (view w'), pv_err := pv_err (view w')\<rparr>"
    using sent
  proof
    assume "typed data = [] \<and> w' = w1"
    then show ?thesis using w1(1) by (auto simp: keys_handled_def)
  next
    assume "send_and_report B (typed data) w1 = (Inr (), w')"
    from send_and_report_spec [OF w1(1) this] show ?thesis
      by (auto simp: keys_handled_def)
  qed
  then show ?thesis using w1 go by (auto simp: keys_handled_def)
qed

lemma pump_spec:
  assumes "inv w" "console_pump B ready w = (Inr go, w')"
  shows "inv w' \<and> pump_ok ready go (view w) (view w')"
proof -
  obtain u1 w2 u2 w4 where s: "pump_errors B w = (Inr u1, w2)" "pump_output B w2 = (Inr u2, w4)"
    "pump_keys B ready w4 = (Inr go, w')"
    using assms(2) by (auto simp: console_pump_def sx_bind_Inr)
  obtain reports where w2: "inv w2" "fewer_faults (view w) (view w2)"
    "view w2 = (view w)\<lparr>pv_faults := pv_faults (view w2), pv_err := pv_err (view w) @ reports\<rparr>"
    using pump_errors_spec [OF assms(1) s(1)] by auto
  have w4: "inv w4" "pv_out (view w4) @ pv_rx (view w4) = pv_out (view w2) @ pv_rx (view w2)"
    "view w4 = (view w2)\<lparr>pv_rx := pv_rx (view w4), pv_out := pv_out (view w4)\<rparr>"
    using pump_output_spec [OF w2(1) s(2)] by auto
  have proj2: "f (view w2) =
      f ((view w)\<lparr>pv_faults := pv_faults (view w2), pv_err := pv_err (view w) @ reports\<rparr>)"
    for f :: "port_view \<Rightarrow> 'v" using w2(3) by simp
  have proj4: "f (view w4) =
      f ((view w2)\<lparr>pv_rx := pv_rx (view w4), pv_out := pv_out (view w4)\<rparr>)"
    for f :: "port_view \<Rightarrow> 'v" using w4(3) by simp
  have eqs: "pv_out (view w2) = pv_out (view w)" "pv_rx (view w2) = pv_rx (view w)"
    "pv_in (view w4) = pv_in (view w)" "pv_tx (view w4) = pv_tx (view w)"
    "pv_err (view w4) = pv_err (view w) @ reports" "pv_faults (view w4) = pv_faults (view w2)"
    "pv_ready (view w4) = pv_ready (view w)"
    using proj2 [of pv_out] proj2 [of pv_rx] proj4 [of pv_in] proj2 [of pv_in]
      proj4 [of pv_tx] proj2 [of pv_tx] proj4 [of pv_err] proj2 [of pv_err] proj4 [of pv_faults]
      proj4 [of pv_ready] proj2 [of pv_ready]
    by simp_all
  have w': "inv w'" "pump_ok ready go (view w4) (view w')"
  proof -
    have "inv w' \<and> pump_ok ready go (view w4) (view w')"
    proof (cases ready)
      case False
      with s(3) w4(1) show ?thesis
        by (auto simp: pump_keys_def pump_ok_def keys_handled_def fewer_faults_def typed_def)
    next
      case True
      then have "pump_keys B True w4 = (Inr go, w')"
        using s(3) by simp
      note k = pump_keys_spec [OF w4(1) this]
      have proj: "f (view w') = f ((view w4)\<lparr>pv_in := tl (pv_in (view w4)),
          pv_tx := pv_tx (view w'), pv_err := pv_err (view w')\<rparr>)" for f :: "port_view \<Rightarrow> 'v"
        using k by metis
      show ?thesis
        using k True proj [of pv_out] proj [of pv_rx] proj [of pv_faults] proj [of pv_in] proj [of pv_ready]
        by (simp add: pump_ok_def fewer_faults_def)
    qed
    then show "inv w'" "pump_ok ready go (view w4) (view w')" by auto
  qed
  moreover have "keys_handled want (view w) (view w')"
    if "keys_handled want (view w4) (view w')" for want
    using keys_handled_trans [OF that eqs(4,5)] .
  ultimately show ?thesis
    using w2(2) w4(2) eqs by (auto simp: pump_ok_def Let_def fewer_faults_def stdin_chunk_def)
qed

end

locale console_terminal = console_session T inv avail room view
  for T :: "('w, 't, 'z) console_tty_scheme" and inv avail room view +
  assumes select_ready: "inv w \<Longrightarrow> select_stdin T w = (Inr rdy, w') \<Longrightarrow>
      inv w' \<and> view w' = (view w)\<lparr>pv_ready := tl (pv_ready (view w))\<rparr> \<and>
      rdy = (case pv_ready (view w) of [] \<Rightarrow> True | b # _ \<Rightarrow> b)"
begin

text \<open>
  The loop ends: each poll either consumes one of the pending not-ready answers or reads a
  chunk, and end of file stops it.
\<close>

lemma pump_loop_spec:
  assumes "inv w"
  shows "\<exists>r w'. pump_loop T w = Some (r, w') \<and>
    (r = Inr () \<longrightarrow> inv w' \<and> session_ok (view w) (view w'))"
  using assms
proof (induction "length (pv_ready (view w)) + length (pv_in (view w))" arbitrary: w
    rule: less_induct)
  case less
  obtain r1 w1 where sel: "select_stdin T w = (r1, w1)" by fastforce
  show ?case
  proof (cases r1)
    case (Inl e)
    then show ?thesis using sel by (simp add: pump_loop.simps)
  next
    case (Inr ready)
    have w1: "inv w1" "view w1 = (view w)\<lparr>pv_ready := tl (pv_ready (view w))\<rparr>"
      "ready = (case pv_ready (view w) of [] \<Rightarrow> True | b # _ \<Rightarrow> b)"
      using select_ready [OF less.prems sel [unfolded Inr]] by auto
    obtain r2 w2 where pump: "console_pump T ready w1 = (r2, w2)" by fastforce
    show ?thesis
    proof (cases r2)
      case (Inl e)
      then show ?thesis using sel Inr pump by (simp add: pump_loop.simps)
    next
      case r2: (Inr go)
      have w2: "inv w2" "pump_ok ready go (view w1) (view w2)"
        using pump_spec [OF w1(1) pump [unfolded r2]] by auto
      then have ok: "pump_ok ready go (view w) ((view w2)\<lparr>pv_ready := pv_ready (view w)\<rparr>)"
        by (auto simp: pump_ok_def w1(2) fewer_faults_def stdin_chunk_def keys_handled_def Let_def)
      have ses: "session_ok (view w) v" if "session_ok (view w) (v\<lparr>pv_ready := x\<rparr>)" for v x
        using that by (simp add: session_ok_def fewer_faults_def)
      show ?thesis
      proof (cases go)
        case False
        then have "pump_loop T w = Some (Inr (), w2)"
          using sel Inr pump r2 by (simp add: pump_loop.simps)
        moreover have "session_ok (view w) (view w2)"
          by (rule ses, rule session_ok_stop) (use ok False in simp)
        ultimately show ?thesis using w2(1) by blast
      next
        case True
        then have loop: "pump_loop T w = pump_loop T w2"
          using sel Inr pump r2 by (simp add: pump_loop.simps [of T w])
        have "length (pv_ready (view w2)) + length (pv_in (view w2))
            < length (pv_ready (view w)) + length (pv_in (view w))"
          using w2(2) w1(2,3) True
          by (cases "pv_ready (view w)"; cases "pv_in (view w)")
            (auto simp: pump_ok_def stdin_chunk_def Let_def split: if_splits)
        from less.hyps [OF this w2(1)] obtain r w' where rec: "pump_loop T w2 = Some (r, w')"
          "r = Inr () \<longrightarrow> inv w' \<and> session_ok (view w2) (view w')" by auto
        have "session_ok (view w) (view w')" if "session_ok (view w2) (view w')"
          by (rule session_ok_step [of ready _ "(view w2)\<lparr>pv_ready := pv_ready (view w)\<rparr>"])
            (use ok True that in \<open>simp_all add: session_ok_def fewer_faults_def\<close>)
        then show ?thesis using loop rec by auto
      qed
    qed
  qed
qed

end

end
