(* ===== verification/Console_System.thy ===== *)
theory Console_System
  imports Console_Bridge Console
begin

text \<open>
  The host's console client running against the board's console bridge. A \<open>world\<close> holds the
  bridge, the bytes the core has still to send, the bytes its receiver has taken, and the host's
  standard streams. Every register access of the host takes time: a \<open>slot\<close> lists the clock cycles
  that pass before it takes effect, with what the core does in each, and whether the access
  raises or its datagram is lost (register writes are not acknowledged, so a lost one goes
  unnoticed; a lost read is an exception).

  \<open>console_system\<close> shows that the bridge fulfils the contract \<open>console_terminal\<close> of the client.
\<close>

subsection \<open>The world\<close>

record slot =
  slot_cycles :: "(bool \<times> bool) list"
  slot_last :: "bool \<times> bool"
  slot_exn :: "exn option"
  slot_lost :: bool

definition quick :: slot where
  "quick = \<lparr>slot_cycles = [(False, False)], slot_last = (False, False), slot_exn = None,
     slot_lost = False\<rparr>"

record 'f world =
  br :: "'f bridge"
  late :: nat
  src :: "byte list"
  line :: "byte list"
  slots :: "slot list"
  keyboard :: "(exn + byte list) list"
  polls :: "(exn + bool) list"
  screen :: "byte list"
  messages :: "string list"
  tty_mode :: nat

text \<open>
  One cycle of the core beside the bridge: it presents its next byte when it wants to, unless it
  has been stalled for \<open>K\<close> bytes, and its receiver takes a byte when it is ready to.
\<close>

definition core_cycle :: "nat \<Rightarrow> bool \<times> bool \<Rightarrow> 'f world \<Rightarrow> cycle" where
  "core_cycle K p w =
     (let send = fst p \<and> src w \<noteq> [] \<and> (stall (br w) \<longrightarrow> late w < K) in
      idle\<lparr>phy_source_valid := send, phy_source_data := (if send then hd (src w) else 0),
           phy_sink_ready := snd p\<rparr>)"

definition world_clock :: "'f stream_fifo \<Rightarrow> nat \<Rightarrow> nat \<Rightarrow> cycle \<Rightarrow> 'f world \<Rightarrow> 'f world" where
  "world_clock F rxd txd i w =
     (let b' = bridge_clock F rxd txd i (br w) in
      w\<lparr>br := b', late := late_bytes i (br w) b' (late w),
        src := (if phy_source_valid i then tl (src w) else src w),
        line := line w @ phy_tx_byte F txd i (br w)\<rparr>)"

fun elapse :: "'f stream_fifo \<Rightarrow> nat \<Rightarrow> nat \<Rightarrow> nat \<Rightarrow> (bool \<times> bool) list \<Rightarrow> 'f world \<Rightarrow> 'f world" where
  "elapse F rxd txd K [] w = w"
| "elapse F rxd txd K (p # ps) w = elapse F rxd txd K ps (world_clock F rxd txd (core_cycle K p w) w)"

definition next_slot :: "'f world \<Rightarrow> slot" where
  "next_slot w = (case slots w of [] \<Rightarrow> quick | s # _ \<Rightarrow> s)"

definition arrive :: "'f stream_fifo \<Rightarrow> nat \<Rightarrow> nat \<Rightarrow> nat \<Rightarrow> 'f world \<Rightarrow> 'f world" where
  "arrive F rxd txd K w = elapse F rxd txd K (slot_cycles (next_slot w)) (w\<lparr>slots := tl (slots w)\<rparr>)"

definition sys_read ::
    "'f stream_fifo \<Rightarrow> nat \<Rightarrow> nat \<Rightarrow> nat \<Rightarrow> ('f bridge \<Rightarrow> u32) \<Rightarrow> ('f world, int) sx" where
  "sys_read F rxd txd K reg w =
     (let w1 = arrive F rxd txd K w in
      case slot_exn (next_slot w) of
        Some e \<Rightarrow> (Inl e, w1)
      | None \<Rightarrow> (Inr (uint (reg (br w1))), w1))"

definition sys_write ::
    "'f stream_fifo \<Rightarrow> nat \<Rightarrow> nat \<Rightarrow> nat \<Rightarrow> (cycle \<Rightarrow> cycle) \<Rightarrow> ('f world, unit) sx" where
  "sys_write F rxd txd K strobe w =
     (let w1 = arrive F rxd txd K w in
      case slot_exn (next_slot w) of
        Some e \<Rightarrow> (Inl e, w1)
      | None \<Rightarrow>
          (Inr (), if slot_lost (next_slot w) then w1
                   else world_clock F rxd txd (strobe (core_cycle K (slot_last (next_slot w)) w1)) w1))"

definition sys_sleep :: "'f stream_fifo \<Rightarrow> nat \<Rightarrow> nat \<Rightarrow> nat \<Rightarrow> ('f world, unit) sx" where
  "sys_sleep F rxd txd K w =
     ((case slot_exn (next_slot w) of Some e \<Rightarrow> Inl e | None \<Rightarrow> Inr ()), arrive F rxd txd K w)"

definition bridge_board ::
    "'f stream_fifo \<Rightarrow> nat \<Rightarrow> nat \<Rightarrow> nat \<Rightarrow> ('f world, nat) console_tty" where
  "bridge_board F rxd txd K =
     \<lparr>console_rx_read = sys_read F rxd txd K (console_rx F rxd),
      console_rx_pop_write = (\<lambda>v. sys_write F rxd txd K (rx_pop_re_update (\<lambda>_. True))),
      console_tx_read = sys_read F rxd txd K (console_tx F txd),
      console_tx_data_write = (\<lambda>v. sys_write F rxd txd K
        (\<lambda>i. i\<lparr>tx_data_re := True, tx_data_r := word_of_int v\<rparr>)),
      console_err_read = sys_read F rxd txd K console_err,
      console_err_clear_write = (\<lambda>v. sys_write F rxd txd K
        (\<lambda>i. i\<lparr>err_clear_re := True, err_clear_r := word_of_int v\<rparr>)),
      sleep_us = (\<lambda>_. sys_sleep F rxd txd K),
      stderr_print = (\<lambda>msg w. (Inr (), w\<lparr>messages := messages w @ [msg]\<rparr>)),
      stdout_write = (\<lambda>bs w. (Inr (), w\<lparr>screen := screen w @ bs\<rparr>)),
      stdout_flush = Some (sx_return ()),
      stdin_read = (\<lambda>n w. case keyboard w of
          [] \<Rightarrow> (Inr [], w)
        | Inl e # ks \<Rightarrow> (Inl e, w\<lparr>keyboard := ks\<rparr>)
        | Inr c # ks \<Rightarrow>
            if length c \<le> n then (Inr c, w\<lparr>keyboard := ks\<rparr>)
            else (Inr (take n c), w\<lparr>keyboard := Inr (drop n c) # ks\<rparr>)),
      select_stdin = (\<lambda>w. case polls w of
          [] \<Rightarrow> (Inr True, w)
        | p # ps \<Rightarrow> (p, w\<lparr>polls := ps\<rparr>)),
      tty_tcgetattr = (\<lambda>w. (Inr (tty_mode w), w)),
      tty_setraw = (\<lambda>w. (Inr (), w\<lparr>tty_mode := 0\<rparr>)),
      tty_tcsetattr = (\<lambda>t w. (Inr (), w\<lparr>tty_mode := t\<rparr>))\<rparr>"

lemma bridge_board_sel [simp]:
  "console_rx_read (bridge_board F rxd txd K) = sys_read F rxd txd K (console_rx F rxd)"
  "console_rx_pop_write (bridge_board F rxd txd K) x =
     sys_write F rxd txd K (rx_pop_re_update (\<lambda>_. True))"
  "console_tx_read (bridge_board F rxd txd K) = sys_read F rxd txd K (console_tx F txd)"
  "console_tx_data_write (bridge_board F rxd txd K) x =
     sys_write F rxd txd K (\<lambda>i. i\<lparr>tx_data_re := True, tx_data_r := word_of_int x\<rparr>)"
  "console_err_read (bridge_board F rxd txd K) = sys_read F rxd txd K console_err"
  "console_err_clear_write (bridge_board F rxd txd K) x =
     sys_write F rxd txd K (\<lambda>i. i\<lparr>err_clear_re := True, err_clear_r := word_of_int x\<rparr>)"
  "sleep_us (bridge_board F rxd txd K) t = sys_sleep F rxd txd K"
  "stderr_print (bridge_board F rxd txd K) msg w = (Inr (), w\<lparr>messages := messages w @ [msg]\<rparr>)"
  "stdout_write (bridge_board F rxd txd K) bs w = (Inr (), w\<lparr>screen := screen w @ bs\<rparr>)"
  "stdout_flush (bridge_board F rxd txd K) = Some (sx_return ())"
  "tty_tcgetattr (bridge_board F rxd txd K) w = (Inr (tty_mode w), w)"
  "tty_setraw (bridge_board F rxd txd K) w = (Inr (), w\<lparr>tty_mode := 0\<rparr>)"
  "tty_tcsetattr (bridge_board F rxd txd K) m w = (Inr (), w\<lparr>tty_mode := m\<rparr>)"
  by (simp_all add: bridge_board_def)

subsection \<open>What the client sees of a world\<close>

definition pending :: "('f \<Rightarrow> byte list) \<Rightarrow> 'f world \<Rightarrow> byte list" where
  "pending cont w = cont (rx_fifo (br w)) @ src w"

definition delivered :: "('f \<Rightarrow> byte list) \<Rightarrow> 'f world \<Rightarrow> byte list" where
  "delivered cont w = line w @ cont (tx_fifo (br w))"

definition world_view :: "('f \<Rightarrow> byte list) \<Rightarrow> 'f world \<Rightarrow> port_view" where
  "world_view cont w =
     \<lparr>pv_rx = pending cont w, pv_tx = delivered cont w,
      pv_faults = (sticky_err_1 (br w), sticky_err_2 (br w)), pv_out = screen w,
      pv_err = messages w, pv_in = map (case_sum (\<lambda>_. []) id) (keyboard w),
      pv_ready = map (case_sum (\<lambda>_. True) id) (polls w)\<rparr>"

text \<open>
  A sound world: the bridge is in a state it can reach, no datagram will be lost, and a chunk of
  the keyboard is what one read returns.
\<close>

definition sound :: "'f stream_fifo \<Rightarrow> nat \<Rightarrow> nat \<Rightarrow> nat \<Rightarrow> 'f world \<Rightarrow> bool" where
  "sound F rxd txd K w \<longleftrightarrow>
     bp_reach F rxd txd K (br w) (late w) \<and> (\<forall>s\<in>set (slots w). \<not> slot_lost s) \<and>
     (\<forall>k\<in>set (keyboard w). \<forall>c. k = Inr c \<longrightarrow> length c \<le> READ_CHUNK)"

definition rx_avail :: "'f stream_fifo \<Rightarrow> nat \<Rightarrow> 'f world \<Rightarrow> bool" where
  "rx_avail F rxd w \<longleftrightarrow> source_valid F rxd (rx_fifo (br w))"

definition tx_room :: "'f stream_fifo \<Rightarrow> nat \<Rightarrow> 'f world \<Rightarrow> bool" where
  "tx_room F txd w \<longleftrightarrow> \<not> tx_full F txd (br w)"

text \<open>Every cycle of the model is one the core may take, with some of the host's strobes set.\<close>

definition host_cycle :: "nat \<Rightarrow> 'f world \<Rightarrow> cycle \<Rightarrow> bool" where
  "host_cycle K w i \<longleftrightarrow>
     \<not> sys_rst i \<and>
     (phy_source_valid i \<longrightarrow> src w \<noteq> [] \<and> phy_source_data i = hd (src w) \<and>
        (stall (br w) \<longrightarrow> late w < K))"

lemma core_cycle_fields [simp]:
  "host_cycle K w (core_cycle K p w)"
  "host_cycle K w ((core_cycle K p w)\<lparr>rx_pop_re := True\<rparr>)"
  "host_cycle K w ((core_cycle K p w)\<lparr>tx_data_re := True, tx_data_r := x\<rparr>)"
  "host_cycle K w ((core_cycle K p w)\<lparr>err_clear_re := True, err_clear_r := m\<rparr>)"
  "\<not> rx_pop_re (core_cycle K p w)" "\<not> tx_data_re (core_cycle K p w)"
  "\<not> err_clear_re (core_cycle K p w)" "\<not> sys_rst (core_cycle K p w)"
  by (simp_all add: host_cycle_def core_cycle_def Let_def)

subsection \<open>The bridge fulfils the client's contract\<close>

locale console_system = sync_fifo F contents ok
  for F :: "'f stream_fifo" and contents ok +
  fixes rxd txd K :: nat
  assumes headroom: "64 \<le> rxd" "K < 64"
begin

lemma sound_inv: "sound F rxd txd K w \<Longrightarrow> bridge_inv contents ok rxd txd (br w)"
  using bp_invariant headroom by (auto simp: sound_def)

lemma sound_clock:
  assumes "sound F rxd txd K w" "host_cycle K w i"
  shows "sound F rxd txd K (world_clock F rxd txd i w)" "\<not> err_rx_overflow F rxd i (br w)"
  using assms bp_step [of F rxd txd K "br w" "late w" i] bp_no_overflow [of rxd txd K "br w" "late w" i]
    headroom
  by (auto simp: sound_def host_cycle_def world_clock_def Let_def)

lemma pending_clock:
  assumes "sound F rxd txd K w" "host_cycle K w i"
  shows "pending contents (world_clock F rxd txd i w) =
    (if rx_source_ready F rxd i (br w) then tl (pending contents w) else pending contents w)"
proof -
  have "contents (rx_fifo (br w)) \<noteq> []" if "rx_source_ready F rxd i (br w)"
    using that rx_pop_head [OF sound_inv [OF assms(1)] that] by auto
  then show ?thesis
    using rx_contents_clock [OF sound_inv [OF assms(1)], of i] sound_clock(2) [OF assms] assms(2)
    by (auto simp: pending_def world_clock_def Let_def host_cycle_def)
qed

lemma delivered_clock:
  assumes "sound F rxd txd K w" "host_cycle K w i"
  shows "delivered contents (world_clock F rxd txd i w) =
    delivered contents w @ (if tx_sink_valid F txd i (br w) then [tx_data_r i] else [])"
  using tx_conservation_step [OF sound_inv [OF assms(1)], of i] assms(2)
  by (auto simp: delivered_def world_clock_def Let_def host_cycle_def)

lemma faults_clock:
  "sticky_err_1 (br (world_clock F rxd txd i w)) =
     sticky_next (err_tx_write_when_full F txd i (br w)) 1 i (sticky_err_1 (br w))"
  "sticky_err_2 (br (world_clock F rxd txd i w)) =
     sticky_next (err_rx_pop_when_empty F rxd i (br w)) 2 i (sticky_err_2 (br w))"
  by (simp_all add: world_clock_def Let_def bridge_clock_def)

lemma streams_clock [simp]:
  "screen (world_clock F rxd txd i w) = screen w" "messages (world_clock F rxd txd i w) = messages w"
  "keyboard (world_clock F rxd txd i w) = keyboard w" "polls (world_clock F rxd txd i w) = polls w"
  "tty_mode (world_clock F rxd txd i w) = tty_mode w" "slots (world_clock F rxd txd i w) = slots w"
  by (simp_all add: world_clock_def Let_def)

lemma view_clock:
  assumes "sound F rxd txd K w" "host_cycle K w i"
  shows "world_view contents (world_clock F rxd txd i w) = (world_view contents w)\<lparr>
      pv_rx := (if rx_source_ready F rxd i (br w) then tl (pending contents w) else pending contents w),
      pv_tx := delivered contents w @ (if tx_sink_valid F txd i (br w) then [tx_data_r i] else []),
      pv_faults :=
        (sticky_next (err_tx_write_when_full F txd i (br w)) 1 i (sticky_err_1 (br w)),
         sticky_next (err_rx_pop_when_empty F rxd i (br w)) 2 i (sticky_err_2 (br w)))\<rparr>"
  by (simp add: world_view_def pending_clock [OF assms] delivered_clock [OF assms] faults_clock)

lemma quiet_clock:
  assumes "sound F rxd txd K w"
  shows "world_view contents (world_clock F rxd txd (core_cycle K p w) w) = world_view contents w"
  using view_clock [OF assms core_cycle_fields(1), of p]
  by (simp add: rx_source_ready_def tx_sink_valid_def err_tx_write_when_full_def
      err_rx_pop_when_empty_def sticky_next_def world_view_def)

lemma avail_clock:
  assumes "sound F rxd txd K w" "host_cycle K w i" "rx_avail F rxd w" "\<not> rx_pop_re i"
  shows "rx_avail F rxd (world_clock F rxd txd i w)"
  using sound_inv [OF assms(1)] assms
  by (auto simp: rx_avail_def world_clock_def Let_def bridge_clock_def rx_source_ready_def
      bridge_inv_def host_cycle_def valid_hold)

lemma tx_room_iff:
  "sound F rxd txd K w \<Longrightarrow> tx_room F txd w \<longleftrightarrow> length (contents (tx_fifo (br w))) < txd"
  using sound_inv by (fastforce simp: tx_room_def tx_full_def bridge_inv_def level)

lemma room_clock:
  assumes "sound F rxd txd K w" "host_cycle K w i" "tx_room F txd w" "\<not> tx_data_re i"
  shows "tx_room F txd (world_clock F rxd txd i w)"
proof -
  have "length (contents (tx_fifo (br (world_clock F rxd txd i w)))) \<le> length (contents (tx_fifo (br w)))"
    using tx_contents_clock [OF sound_inv [OF assms(1)], of i] assms(2,4)
    by (auto simp: world_clock_def Let_def tx_sink_valid_def host_cycle_def)
  with assms(3) show ?thesis
    by (simp add: tx_room_iff assms(1) sound_clock(1) [OF assms(1,2)])
qed

lemma elapse_sound:
  assumes "sound F rxd txd K w"
  shows "sound F rxd txd K (elapse F rxd txd K ps w) \<and>
    world_view contents (elapse F rxd txd K ps w) = world_view contents w \<and>
    slots (elapse F rxd txd K ps w) = slots w \<and>
    (rx_avail F rxd w \<longrightarrow> rx_avail F rxd (elapse F rxd txd K ps w)) \<and>
    (tx_room F txd w \<longrightarrow> tx_room F txd (elapse F rxd txd K ps w))"
  using assms
proof (induction ps arbitrary: w)
  case (Cons p ps)
  let ?w = "world_clock F rxd txd (core_cycle K p w) w"
  have "sound F rxd txd K ?w" using Cons.prems by (simp add: sound_clock)
  from Cons.IH [OF this] show ?case
    using Cons.prems by (auto simp: quiet_clock avail_clock room_clock)
qed simp

lemma arrive_sound:
  assumes "sound F rxd txd K w"
  shows "sound F rxd txd K (arrive F rxd txd K w)"
    "world_view contents (arrive F rxd txd K w) = world_view contents w"
    "rx_avail F rxd w \<Longrightarrow> rx_avail F rxd (arrive F rxd txd K w)"
    "tx_room F txd w \<Longrightarrow> tx_room F txd (arrive F rxd txd K w)"
    "\<not> slot_lost (next_slot w)"
proof -
  let ?v = "w\<lparr>slots := tl (slots w)\<rparr>"
  have "sound F rxd txd K ?v"
    using assms by (cases "slots w") (auto simp: sound_def)
  moreover have "world_view contents ?v = world_view contents w" "rx_avail F rxd ?v = rx_avail F rxd w"
    "tx_room F txd ?v = tx_room F txd w"
    by (simp_all add: world_view_def pending_def delivered_def rx_avail_def tx_room_def)
  ultimately show "sound F rxd txd K (arrive F rxd txd K w)"
    "world_view contents (arrive F rxd txd K w) = world_view contents w"
    "rx_avail F rxd w \<Longrightarrow> rx_avail F rxd (arrive F rxd txd K w)"
    "tx_room F txd w \<Longrightarrow> tx_room F txd (arrive F rxd txd K w)"
    using elapse_sound [of ?v "slot_cycles (next_slot w)"] by (auto simp: arrive_def)
  show "\<not> slot_lost (next_slot w)"
    using assms by (cases "slots w") (auto simp: sound_def next_slot_def quick_def)
qed

lemma sys_read_law:
  assumes "sound F rxd txd K w" "sys_read F rxd txd K reg w = (r, w')"
  shows "sound F rxd txd K w'" "world_view contents w' = world_view contents w"
    "r = Inr v \<Longrightarrow> v = uint (reg (br w'))"
  using assms arrive_sound [OF assms(1)] by (auto simp: sys_read_def Let_def split: option.splits)

lemma sys_sleep_law:
  assumes "sound F rxd txd K w" "sys_sleep F rxd txd K w = (r, w')"
  shows "sound F rxd txd K w' \<and> world_view contents w' = world_view contents w"
  using assms arrive_sound [OF assms(1)] by (auto simp: sys_sleep_def)

text \<open>A write that raised did nothing; any other one is applied in its own cycle.\<close>

lemma sys_write_law:
  assumes "sound F rxd txd K w" "sys_write F rxd txd K strobe w = (r, w')"
    and "\<And>p (v :: 'f world). host_cycle K v (strobe (core_cycle K p v))"
  shows "sound F rxd txd K w' \<and> (isl r \<and> world_view contents w' = world_view contents w \<or>
    w' = world_clock F rxd txd (strobe (core_cycle K (slot_last (next_slot w)) (arrive F rxd txd K w)))
           (arrive F rxd txd K w))"
proof -
  note a = arrive_sound [OF assms(1)]
  have "sound F rxd txd K (world_clock F rxd txd
      (strobe (core_cycle K (slot_last (next_slot w)) (arrive F rxd txd K w))) (arrive F rxd txd K w))"
    by (rule sound_clock(1) [OF a(1) assms(3)])
  then show ?thesis
    using assms(2) a(1,2,5) by (auto simp: sys_write_def Let_def split: option.splits)
qed

lemma pop_clock:
  assumes "sound F rxd txd K w" "rx_avail F rxd w"
  shows "world_view contents (world_clock F rxd txd ((core_cycle K p w)\<lparr>rx_pop_re := True\<rparr>) w) =
    (world_view contents w)\<lparr>pv_rx := tl (pv_rx (world_view contents w))\<rparr>"
  using assms(2) view_clock [OF assms(1) core_cycle_fields(2), of p]
  by (simp add: rx_source_ready_def rx_avail_def tx_sink_valid_def err_tx_write_when_full_def
      err_rx_pop_when_empty_def sticky_next_def world_view_def)

lemma tx_data_clock:
  assumes "sound F rxd txd K w" "tx_room F txd w"
  shows "world_view contents
      (world_clock F rxd txd ((core_cycle K p w)\<lparr>tx_data_re := True, tx_data_r := y\<rparr>) w) =
    (world_view contents w)\<lparr>pv_tx := pv_tx (world_view contents w) @ [y]\<rparr>"
  using assms(2) view_clock [OF assms(1) core_cycle_fields(3) [where p = p and x = y]]
  by (simp add: rx_source_ready_def tx_room_def tx_sink_valid_def err_tx_write_when_full_def
      err_rx_pop_when_empty_def sticky_next_def world_view_def)

lemma err_clear_clock:
  assumes "sound F rxd txd K w"
  shows "world_view contents
      (world_clock F rxd txd ((core_cycle K p w)\<lparr>err_clear_re := True, err_clear_r := m\<rparr>) w) =
    (world_view contents w)\<lparr>pv_faults :=
      (sticky_err_1 (br w) \<and> \<not> bit m 1, sticky_err_2 (br w) \<and> \<not> bit m 2)\<rparr>"
  using view_clock [OF assms(1) core_cycle_fields(4) [where p = p and m = m]]
  by (simp add: rx_source_ready_def tx_sink_valid_def err_tx_write_when_full_def
      err_rx_pop_when_empty_def sticky_next_def world_view_def)

lemma rx_read_law:
  assumes "sound F rxd txd K w" "sys_read F rxd txd K (console_rx F rxd) w = (Inr v, w')"
    "v AND 256 \<noteq> 0"
  shows "rx_avail F rxd w'" "pending contents w' \<noteq> []" "v AND 255 = uint (hd (pending contents w'))"
proof -
  have w': "sound F rxd txd K w'" "v = uint (console_rx F rxd (br w'))"
    using sys_read_law [OF assms(1,2)] by auto
  then have "ok rxd (rx_fifo (br w'))"
    using sound_inv by (auto simp: bridge_inv_def)
  moreover show avail: "rx_avail F rxd w'"
    using w'(2) assms(3)
    by (auto simp: console_rx_def rx_avail_def Let_def rx_valid_field split: if_splits)
  ultimately have h: "contents (rx_fifo (br w')) \<noteq> []"
    "source_data F rxd (rx_fifo (br w')) = hd (contents (rx_fifo (br w')))"
    using head by (auto simp: rx_avail_def)
  then show "pending contents w' \<noteq> []" "v AND 255 = uint (hd (pending contents w'))"
    using avail w'(2)
    by (simp_all add: pending_def console_rx_def rx_avail_def Let_def rx_data_field)
qed

lemma rx_pop_law:
  assumes "sound F rxd txd K w" "rx_avail F rxd w"
    "sys_write F rxd txd K (rx_pop_re_update (\<lambda>_. True)) w = (u, w')"
  shows "sound F rxd txd K w' \<and>
    (world_view contents w' = (world_view contents w)\<lparr>pv_rx := tl (pv_rx (world_view contents w))\<rparr> \<or>
     isl u \<and> world_view contents w' = world_view contents w)"
  using sys_write_law [OF assms(1,3) core_cycle_fields(2)]
  by (elim conjE disjE) (simp_all add: pop_clock arrive_sound assms(1,2))

lemma tx_write_law:
  assumes "sound F rxd txd K w" "tx_room F txd w"
    "sys_write F rxd txd K (\<lambda>i. i\<lparr>tx_data_re := True, tx_data_r := y\<rparr>) w = (u, w')"
  shows "sound F rxd txd K w' \<and>
    (world_view contents w' = (world_view contents w)\<lparr>pv_tx := pv_tx (world_view contents w) @ [y]\<rparr> \<or>
     isl u \<and> world_view contents w' = world_view contents w)"
  using sys_write_law [OF assms(1,3) core_cycle_fields(3)]
  by (elim conjE disjE) (simp_all add: tx_data_clock arrive_sound assms(1,2))

lemma err_clear_law:
  assumes "sound F rxd txd K w"
    "sys_write F rxd txd K (\<lambda>i. i\<lparr>err_clear_re := True, err_clear_r := m\<rparr>) w = (u, w')"
  shows "sound F rxd txd K w' \<and>
    world_view contents w' = (world_view contents w)\<lparr>pv_faults := pv_faults (world_view contents w')\<rparr> \<and>
    fewer_faults (world_view contents w) (world_view contents w')"
proof -
  let ?a = "arrive F rxd txd K w"
  note a = arrive_sound [OF assms(1)]
  have same: "sticky_err_1 (br ?a) = sticky_err_1 (br w)" "sticky_err_2 (br ?a) = sticky_err_2 (br w)"
    using arg_cong [OF a(2), of pv_faults] by (simp_all add: world_view_def)
  have "sound F rxd txd K w'" "world_view contents w' = world_view contents w \<or>
      world_view contents w' = (world_view contents w)\<lparr>pv_faults :=
        (sticky_err_1 (br w) \<and> \<not> bit m 1, sticky_err_2 (br w) \<and> \<not> bit m 2)\<rparr>"
    using sys_write_law [OF assms core_cycle_fields(4)]
    by (elim conjE disjE; simp add: err_clear_clock a same)+
  then show ?thesis by (auto simp: fewer_faults_def) (simp_all add: world_view_def)
qed

end

sublocale console_system \<subseteq> client: console_terminal "bridge_board F rxd txd K"
  "sound F rxd txd K" "rx_avail F rxd" "tx_room F txd" "world_view contents"
proof (unfold_locales, goal_cases)
  case (1 w r w')
  then show ?case
    using sys_read_law [of w] rx_read_law [of w] by (fastforce simp: world_view_def)
next
  case (2 w x u w')
  then show ?case using rx_pop_law by simp
next
  case (3 w r w')
  then show ?case
    using sys_read_law [of w "console_tx F txd" r w']
    by (auto simp: console_tx_def tx_full_field tx_room_def)
next
  case (4 w y u w')
  then show ?case using tx_write_law [of w y] by simp
next
  case (5 w r w')
  then show ?case using sys_read_law [of w] by fastforce
next
  case (6 w x u w')
  then show ?case using err_clear_law by simp
next
  case (7 w t u w')
  then show ?case using sys_sleep_law by simp
next
  case (8 w msg u' w')
  then show ?case by (auto simp: sound_def world_view_def pending_def delivered_def)
next
  case (9 w bs u' w')
  then show ?case by (auto simp: sound_def world_view_def pending_def delivered_def)
next
  case (10 fl w u' w')
  then show ?case by auto
next
  case (11 w bs w')
  then show ?case
    by (auto simp: bridge_board_def sound_def world_view_def pending_def delivered_def
        split: list.splits sum.splits if_splits)
next
  case (12 w rdy w')
  then show ?case
    by (auto simp: bridge_board_def sound_def world_view_def pending_def delivered_def
        split: list.splits sum.splits)
qed

interpretation sys: console_system buf_fifo buf_contents buf_ok RX_DEPTH TX_DEPTH 3
  by unfold_locales (simp_all add: RX_DEPTH_def)

subsection \<open>Progress\<close>

text \<open>A steady world: no access raises, and at least one cycle passes before each.\<close>

definition steady :: "'f stream_fifo \<Rightarrow> nat \<Rightarrow> nat \<Rightarrow> nat \<Rightarrow> 'f world \<Rightarrow> bool" where
  "steady F rxd txd K w \<longleftrightarrow>
     sound F rxd txd K w \<and> (\<forall>s\<in>set (slots w). slot_exn s = None \<and> slot_cycles s \<noteq> [])"

context console_system
begin

lemma next_slot_steady:
  "steady F rxd txd K w \<Longrightarrow> slot_exn (next_slot w) = None \<and> slot_cycles (next_slot w) \<noteq> [] \<and>
     \<not> slot_lost (next_slot w)"
  by (cases "slots w") (auto simp: steady_def sound_def next_slot_def quick_def)

lemma elapse_src: "src w = [] \<Longrightarrow> src (elapse F rxd txd K ps w) = []"
  by (induction ps arbitrary: w) (simp_all add: world_clock_def core_cycle_def Let_def)

lemma elapse_tx:
  "sound F rxd txd K w \<Longrightarrow>
   length (contents (tx_fifo (br (elapse F rxd txd K ps w)))) \<le> length (contents (tx_fifo (br w)))"
proof (induction ps arbitrary: w)
  case (Cons p ps)
  let ?w = "world_clock F rxd txd (core_cycle K p w) w"
  have "length (contents (tx_fifo (br ?w))) \<le> length (contents (tx_fifo (br w)))"
    using tx_contents_clock [OF sound_inv [OF Cons.prems], of "core_cycle K p w"]
      core_cycle_fields(1) [of K w p]
    by (auto simp: host_cycle_def world_clock_def Let_def tx_sink_valid_def)
  with Cons.IH [of ?w] Cons.prems show ?case by (simp add: sound_clock)
qed simp

lemma elapse_avail:
  assumes "sound F rxd txd K w" "contents (rx_fifo (br w)) \<noteq> []" "ps \<noteq> []"
  shows "rx_avail F rxd (elapse F rxd txd K ps w)"
proof -
  obtain p qs where ps: "ps = p # qs" using assms(3) by (cases ps) auto
  let ?w = "world_clock F rxd txd (core_cycle K p w) w"
  have "rx_avail F rxd ?w"
    using sound_inv [OF assms(1)] assms(2) core_cycle_fields(1) [of K w p]
    by (simp add: rx_avail_def world_clock_def Let_def bridge_clock_def rx_source_ready_def
        bridge_inv_def host_cycle_def valid_lag)
  then show ?thesis
    using elapse_sound [of ?w qs] assms(1) by (simp add: ps sound_clock)
qed

lemma arrive_steady:
  assumes "steady F rxd txd K w"
  shows "steady F rxd txd K (arrive F rxd txd K w)"
    "src w = [] \<Longrightarrow> src (arrive F rxd txd K w) = []"
    "src w = [] \<Longrightarrow> rx_avail F rxd (arrive F rxd txd K w) \<longleftrightarrow> pending contents w \<noteq> []"
    "length (contents (tx_fifo (br (arrive F rxd txd K w)))) \<le> length (contents (tx_fifo (br w)))"
proof -
  let ?v = "w\<lparr>slots := tl (slots w)\<rparr>"
  have w: "sound F rxd txd K w" "\<forall>s\<in>set (slots w). slot_exn s = None \<and> slot_cycles s \<noteq> []"
    using assms by (auto simp: steady_def)
  then have v: "sound F rxd txd K ?v" "\<forall>s\<in>set (slots ?v). slot_exn s = None \<and> slot_cycles s \<noteq> []"
    by (cases "slots w"; auto simp: sound_def)+
  then show "steady F rxd txd K (arrive F rxd txd K w)"
    using elapse_sound [of ?v "slot_cycles (next_slot w)"]
    by (simp add: steady_def arrive_def)
  show src: "src (arrive F rxd txd K w) = []" if "src w = []"
    using elapse_src [of ?v] that by (simp add: arrive_def)
  show "length (contents (tx_fifo (br (arrive F rxd txd K w)))) \<le> length (contents (tx_fifo (br w)))"
    using elapse_tx [OF v(1)] by (simp add: arrive_def)
  show "rx_avail F rxd (arrive F rxd txd K w) \<longleftrightarrow> pending contents w \<noteq> []" if "src w = []"
  proof (cases "pending contents w = []")
    case True
    then have "contents (rx_fifo (br (arrive F rxd txd K w))) = []"
      using arg_cong [OF arrive_sound(2) [OF w(1)], of pv_rx]
      by (simp add: world_view_def pending_def)
    then show ?thesis
      using True sound_inv [OF arrive_sound(1) [OF w(1)]] empty_not_valid
      by (simp add: rx_avail_def bridge_inv_def)
  next
    case False
    then show ?thesis
      using elapse_avail [OF v(1)] next_slot_steady [OF assms] that
      by (simp add: arrive_def pending_def)
  qed
qed

lemma write_steady:
  assumes "steady F rxd txd K w" "\<And>p (v :: 'f world). host_cycle K v (strobe (core_cycle K p v))"
    "\<And>p (v :: 'f world). phy_source_valid (strobe (core_cycle K p v)) = phy_source_valid (core_cycle K p v)"
  obtains w' where "sys_write F rxd txd K strobe w = (Inr (), w')" "steady F rxd txd K w'"
    "w' = world_clock F rxd txd (strobe (core_cycle K (slot_last (next_slot w)) (arrive F rxd txd K w)))
       (arrive F rxd txd K w)" "src w = [] \<Longrightarrow> src w' = []"
proof
  let ?a = "arrive F rxd txd K w"
  let ?w = "world_clock F rxd txd (strobe (core_cycle K (slot_last (next_slot w)) ?a)) ?a"
  note a = arrive_steady [OF assms(1)]
  show "sys_write F rxd txd K strobe w = (Inr (), ?w)"
    using next_slot_steady [OF assms(1)] by (simp add: sys_write_def Let_def)
  show "steady F rxd txd K ?w"
    using a(1) sound_clock(1) [of ?a, OF _ assms(2)] by (simp add: steady_def)
  show "src ?w = []" if "src w = []"
    using a(2) [OF that] by (simp add: world_clock_def Let_def)
qed (rule refl)

lemma drain_loop_steady:
  assumes "steady F rxd txd K w" "src w = []"
  shows "\<exists>w'. drain_loop (bridge_board F rxd txd K) n acc w =
    (Inr (acc @ take n (pending contents w)), w')"
  using assms
proof (induction n arbitrary: acc w)
  case 0
  then show ?case by simp
next
  case (Suc n)
  let ?a = "arrive F rxd txd K w"
  note a = arrive_steady [OF Suc.prems(1)]
  have rd: "sys_read F rxd txd K (console_rx F rxd) w = (Inr (uint (console_rx F rxd (br ?a))), ?a)"
    using next_slot_steady [OF Suc.prems(1)] by (simp add: sys_read_def Let_def)
  have snd: "sound F rxd txd K w" "sound F rxd txd K ?a"
    using Suc.prems(1) a(1) by (simp_all add: steady_def)
  have same: "pending contents ?a = pending contents w"
    using arg_cong [OF arrive_sound(2) [OF snd(1)], of pv_rx] by (simp add: world_view_def)
  show ?case
  proof (cases "pending contents w = []")
    case True
    then have "uint (console_rx F rxd (br ?a)) AND 256 = 0"
      using a(3) [OF Suc.prems(2)] by (simp add: rx_avail_def console_rx_def rx_valid_field)
    then show ?thesis
      using rd True by (simp add: sx_bind_def RX_VALID_BIT_def)
  next
    case False
    then have av: "rx_avail F rxd ?a" using a(3) [OF Suc.prems(2)] by simp
    then have valid: "uint (console_rx F rxd (br ?a)) AND 256 \<noteq> 0"
      by (simp add: rx_avail_def console_rx_def rx_valid_field)
    obtain w2 where w2: "sys_write F rxd txd K (rx_pop_re_update (\<lambda>_. True)) ?a = (Inr (), w2)"
      "steady F rxd txd K w2" "src ?a = [] \<Longrightarrow> src w2 = []"
      by (rule write_steady [OF a(1), of "rx_pop_re_update (\<lambda>_. True)"]) simp_all
    have "pending contents w2 = tl (pending contents w)"
      using rx_pop_law [OF snd(2) av w2(1)] same by (auto simp: world_view_def)
    moreover obtain w3 where "drain_loop (bridge_board F rxd txd K) n (acc @ [hd (pending contents w)]) w2 =
        (Inr (acc @ [hd (pending contents w)] @ take n (pending contents w2)), w3)"
      using Suc.IH [OF w2(2) w2(3) [OF a(2) [OF Suc.prems(2)]],
          where acc = "acc @ [hd (pending contents w)]"] by auto
    ultimately show ?thesis
      using rd valid rx_read_law(3) [OF snd(1) rd valid] same w2(1) False
      by (simp add: sx_bind_def RX_VALID_BIT_def RX_DATA_MASK_def take_Suc)
  qed
qed

lemma send_loop_steady:
  assumes "steady F rxd txd K w" "length (contents (tx_fifo (br w))) + length data \<le> txd"
  shows "\<exists>w'. send_loop (bridge_board F rxd txd K) gap data acc w = (Inr (acc + length data), w')"
  using assms
proof (induction data arbitrary: acc w)
  case Nil
  then show ?case by simp
next
  case (Cons x data)
  let ?B = "bridge_board F rxd txd K" and ?strobe = "\<lambda>i. i\<lparr>tx_data_re := True, tx_data_r := x\<rparr>"
  let ?a = "arrive F rxd txd K w"
  note a = arrive_steady [OF Cons.prems(1)]
  have "sound F rxd txd K ?a" using a(1) by (simp add: steady_def)
  then have "tx_room F txd ?a"
    using a(4) Cons.prems(2) by (simp add: tx_room_iff)
  then have wt: "tx_wait ?B 0 w = (Inr True, ?a)"
    using next_slot_steady [OF Cons.prems(1)]
    by (simp add: tx_wait.simps sx_bind_def sys_read_def Let_def console_tx_def tx_room_def
        TX_FULL_BIT_def tx_full_field)
  obtain w2 where w2: "sys_write F rxd txd K ?strobe ?a = (Inr (), w2)" "steady F rxd txd K w2"
    "w2 = world_clock F rxd txd (?strobe (core_cycle K (slot_last (next_slot ?a)) (arrive F rxd txd K ?a)))
       (arrive F rxd txd K ?a)"
    by (rule write_steady [OF a(1), of ?strobe]) simp_all
  have "length (contents (tx_fifo (br w2))) \<le> Suc (length (contents (tx_fifo (br (arrive F rxd txd K ?a)))))"
    using tx_contents_clock [OF sound_inv, of "arrive F rxd txd K ?a"
        "?strobe (core_cycle K (slot_last (next_slot ?a)) (arrive F rxd txd K ?a))"]
      arrive_sound(1) [OF \<open>sound F rxd txd K ?a\<close>]
    by (auto simp: w2(3) world_clock_def Let_def host_cycle_def)
  then have room: "length (contents (tx_fifo (br w2))) + length data \<le> txd"
    using a(4) arrive_steady(4) [OF a(1)] Cons.prems(2) by simp
  obtain w3 where w3: "(if gap \<noteq> 0 then sleep_us ?B gap else sx_return ()) w2 = (Inr (), w3)"
    "steady F rxd txd K w3" "length (contents (tx_fifo (br w3))) + length data \<le> txd"
  proof (cases "gap = 0")
    case True
    then show ?thesis using that [of w2] w2(2) room by simp
  next
    case False
    then show ?thesis
      using that [of "arrive F rxd txd K w2"] arrive_steady(1,4) [OF w2(2)] room
        next_slot_steady [OF w2(2)]
      by (simp add: sys_sleep_def)
  qed
  show ?case
    using Cons.IH [OF w3(2,3), of "Suc acc"] wt w2(1) w3(1)
    by (simp add: sx_bind_def)
qed

lemmas drain_world = client.drain_spec
lemmas drain_world_raises = client.drain_raises
lemmas send_world = client.send_spec
lemmas session_world = client.pump_loop_spec

text \<open>Raw mode and the banner leave everything else alone, so the loop is entered soundly.\<close>

lemma console_loop_world:
  assumes "sound F rxd txd K w"
  shows "\<exists>r w'. console_loop (bridge_board F rxd txd K) w = Some (r, w') \<and>
    tty_mode w' = tty_mode w \<and> r \<noteq> Inl KeyboardInterrupt"
proof -
  let ?v = "w\<lparr>tty_mode := 0, messages := messages w @ [console_banner]\<rparr>"
  have "sound F rxd txd K ?v" using assms by (simp add: sound_def)
  from session_world [OF this] obtain r w' where
    "pump_loop (bridge_board F rxd txd K) ?v = Some (r, w')" by auto
  then show ?thesis
    by (simp add: console_loop_def sx_bind_def)
qed

end

subsection \<open>Properties of the console over the network\<close>

lemma shipped_system: "sync_fifo F cont okf \<Longrightarrow> console_system F cont okf RX_DEPTH 3"
  by (simp add: console_system_def console_system_axioms_def RX_DEPTH_def)

text \<open>A world two bytes into a session, for the examples below.\<close>

definition demo_bridge :: "buf bridge" where
  "demo_bridge = bridge_run buf_fifo RX_DEPTH TX_DEPTH
     [idle\<lparr>phy_source_valid := True, phy_source_data := 72\<rparr>,
      idle\<lparr>phy_source_valid := True, phy_source_data := 105\<rparr>]
     (bridge_init buf_fifo RX_DEPTH TX_DEPTH)"

definition demo_world :: "slot list \<Rightarrow> buf world" where
  "demo_world ss =
     \<lparr>br = demo_bridge, late = 0, src = [], line = [], slots = ss,
      keyboard = [Inr [108, 115], Inr [13, 29, 120]], polls = [Inr False, Inr True],
      screen = [], messages = [], tty_mode = 7\<rparr>"

lemma demo_bridge_eval:
  "demo_bridge = \<lparr>rx_fifo = \<lparr>inner = [105], outreg = Some 72\<rparr>,
     tx_fifo = \<lparr>inner = [], outreg = None\<rparr>, stall = False, sticky_err_0 = False,
     sticky_err_1 = False, sticky_err_2 = False\<rparr>"
  by (simp add: demo_bridge_def bridge_eval)

lemma demo_reach: "bp_reach buf_fifo RX_DEPTH TX_DEPTH 3 demo_bridge 0"
proof -
  let ?b0 = "bridge_init buf_fifo RX_DEPTH TX_DEPTH"
  let ?i = "\<lambda>x. idle\<lparr>phy_source_valid := True, phy_source_data := x\<rparr>"
  let ?b1 = "bridge_clock buf_fifo RX_DEPTH TX_DEPTH (?i 72) ?b0"
  have l: "late_bytes i b b' n = 0" if "\<not> stall b" for i n and b b' :: "buf bridge"
    using that by (simp add: late_bytes_def)
  have s: "\<not> stall ?b0" "\<not> stall ?b1" by (simp_all add: bridge_eval)
  have "bp_reach buf_fifo RX_DEPTH TX_DEPTH 3 ?b1 0"
    using bp_step [OF bp_init [of buf_fifo RX_DEPTH TX_DEPTH 3], of "?i 72"] s l by auto
  from bp_step [OF this, of "?i 105"] show ?thesis
    using s l by (simp add: demo_bridge_def)
qed

lemma demo_sound: "sound buf_fifo RX_DEPTH TX_DEPTH 3 (demo_world [])"
  using demo_reach by (simp add: sound_def demo_world_def READ_CHUNK_def)

lemma demo_steady: "steady buf_fifo RX_DEPTH TX_DEPTH 3 (demo_world [])" "src (demo_world []) = []"
  using demo_sound by (simp_all add: steady_def) (simp_all add: demo_world_def)

lemma demo_pending: "pending buf_contents (demo_world ss) = [72, 105]"
  by (simp add: pending_def demo_world_def demo_bridge_eval buf_contents_def)

lemma demo_tx_empty: "buf_contents (tx_fifo (br (demo_world ss))) = []"
  by (simp add: demo_world_def demo_bridge_eval buf_contents_def)

lemma demo_drain:
  obtains w' where "drain (bridge_board buf_fifo RX_DEPTH TX_DEPTH 3) (demo_world []) = (Inr [72, 105], w')"
  using sys.drain_loop_steady [OF demo_steady, of DRAIN_MAX_BYTES "[]"]
  by (auto simp: drain_def demo_pending DRAIN_MAX_BYTES_def)

lemma demo_send:
  obtains w' where "send (bridge_board buf_fifo RX_DEPTH TX_DEPTH 3) [108, 115] gap (demo_world []) = (Inr 2, w')"
  using sys.send_loop_steady [OF demo_steady(1), of "[108, 115]" "case gap of None \<Rightarrow> TX_GAP_US | Some g \<Rightarrow> g" 0]
  by (auto simp: send_def Let_def demo_tx_empty TX_DEPTH_def)

text \<open>
  C16. Draining is exactly-once (S-RX-4, S-RX-6). When no datagram is lost, the bytes
  \<^verbatim>\<open>console.drain\<close> returns are exactly the next bytes of the core's output, in order, at most 4096
  of them; everything after them is still to be had, the transmit side is untouched, and no
  sticky error is provoked, whatever the core does between the register accesses.
\<close>

theorem drain_exactly_once:
  assumes "sync_fifo F cont okf" and "sound F RX_DEPTH TX_DEPTH 3 w"
    and "drain (bridge_board F RX_DEPTH TX_DEPTH 3) w = (Inr out, w')"
  shows "pending cont w = out @ pending cont w' \<and> length out \<le> DRAIN_MAX_BYTES \<and>
    delivered cont w' = delivered cont w \<and> console_err (br w') = console_err (br w)"
proof -
  note d = console_system.drain_world [OF shipped_system [OF assms(1)] assms(2,3)]
  have "sound F RX_DEPTH TX_DEPTH 3 w'" "pv_rx (world_view cont w) = out @ pv_rx (world_view cont w')"
    "length out \<le> DRAIN_MAX_BYTES"
    "world_view cont w' = (world_view cont w)\<lparr>pv_rx := pv_rx (world_view cont w')\<rparr>"
    using d by auto
  moreover have "\<not> sticky_err_0 (br v)" if "sound F RX_DEPTH TX_DEPTH 3 v" for v
    using that sync_fifo.bp_sticky_clear [OF assms(1)] by (auto simp: sound_def RX_DEPTH_def)
  ultimately show ?thesis
    using assms(2) by (simp add: world_view_def console_err_def)
qed

theorem drain_exactly_once_witness:
  "\<exists>w'. drain (bridge_board buf_fifo RX_DEPTH TX_DEPTH 3) (demo_world []) = (Inr [72, 105], w') \<and>
     pending buf_contents (demo_world []) = [72, 105] @ pending buf_contents w' \<and>
     console_err (br w') = 0"
proof -
  obtain w' where d: "drain (bridge_board buf_fifo RX_DEPTH TX_DEPTH 3) (demo_world []) = (Inr [72, 105], w')"
    by (rule demo_drain)
  moreover have "console_err (br (demo_world [])) = 0"
    by (simp add: demo_world_def demo_bridge_eval console_err_def)
  ultimately show ?thesis
    using drain_exactly_once [OF bf.sync_fifo_axioms demo_sound d] by auto
qed

text \<open>
  Draining empties the board: when no access raises and the core is silent, one call of
  \<^verbatim>\<open>console.drain\<close> returns every byte the RX FIFO holds, up to 4096.
\<close>

theorem drain_complete:
  assumes "sync_fifo F cont okf" and "steady F RX_DEPTH TX_DEPTH 3 w" and "src w = []"
  shows "\<exists>w'. drain (bridge_board F RX_DEPTH TX_DEPTH 3) w =
    (Inr (take DRAIN_MAX_BYTES (cont (rx_fifo (br w)))), w')"
  using console_system.drain_loop_steady [OF shipped_system [OF assms(1)] assms(2,3), of DRAIN_MAX_BYTES "[]"]
  by (simp add: drain_def pending_def assms(3))

theorem drain_complete_witness:
  "\<exists>w'. drain (bridge_board buf_fifo RX_DEPTH TX_DEPTH 3) (demo_world []) = (Inr [72, 105], w')"
  using drain_complete [OF bf.sync_fifo_axioms demo_steady]
  by (simp add: demo_world_def demo_bridge_eval buf_contents_def DRAIN_MAX_BYTES_def)

text \<open>
  C17. Sending is honest (S-TX-2, S-TX-5). When no datagram is lost, the bytes that reach the core's
  receive line are a prefix of the data, of exactly the length \<^verbatim>\<open>console.send\<close> returns; the receive
  side is untouched, and \<^verbatim>\<open>tx_write_when_full\<close> is never provoked, whatever the core does meanwhile.
\<close>

theorem send_exact_prefix:
  assumes "sync_fifo F cont okf" and "sound F RX_DEPTH TX_DEPTH 3 w"
    and "send (bridge_board F RX_DEPTH TX_DEPTH 3) data gap w = (Inr n, w')"
  shows "n \<le> length data \<and> delivered cont w' = delivered cont w @ take n data \<and>
    pending cont w' = pending cont w \<and> sticky_err_1 (br w') = sticky_err_1 (br w)"
  using console_system.send_world [OF shipped_system [OF assms(1)] assms(2,3)]
  by (auto simp: world_view_def)

theorem send_exact_prefix_witness:
  "\<exists>w'. send (bridge_board buf_fifo RX_DEPTH TX_DEPTH 3) [108, 115] None (demo_world []) = (Inr 2, w') \<and>
     delivered buf_contents w' = [108, 115] \<and> \<not> sticky_err_1 (br w')"
proof -
  obtain w' where d: "send (bridge_board buf_fifo RX_DEPTH TX_DEPTH 3) [108, 115] None (demo_world []) = (Inr 2, w')"
    by (rule demo_send)
  moreover have "delivered buf_contents (demo_world []) = []" "\<not> sticky_err_1 (br (demo_world []))"
    by (simp_all add: delivered_def demo_tx_empty)
      (simp_all add: demo_world_def demo_bridge_eval)
  ultimately show ?thesis
    using send_exact_prefix [OF bf.sync_fifo_axioms demo_sound d] by auto
qed

text \<open>
  Sending makes progress: data that fits in the TX FIFO is accepted in full when no access
  raises, however slowly the core's receiver empties it.
\<close>

theorem send_complete:
  assumes "sync_fifo F cont okf" and "steady F RX_DEPTH TX_DEPTH 3 w"
    and "length (cont (tx_fifo (br w))) + length data \<le> TX_DEPTH"
  shows "\<exists>w'. send (bridge_board F RX_DEPTH TX_DEPTH 3) data gap w = (Inr (length data), w')"
  using console_system.send_loop_steady [OF shipped_system [OF assms(1)] assms(2,3), of _ 0]
  by (simp add: send_def Let_def)

theorem send_complete_witness:
  "\<exists>w'. send (bridge_board buf_fifo RX_DEPTH TX_DEPTH 3) [108, 115] (Some 0) (demo_world []) = (Inr 2, w')"
  using send_complete [OF bf.sync_fifo_axioms demo_steady(1), of "[108, 115]" "Some 0"]
  by (simp add: demo_tx_empty TX_DEPTH_def numeral_2_eq_2)



text \<open>
  C21. The terminal comes back (S-TERM): \<^verbatim>\<open>console_loop\<close> always ends once the input does, on every
  exit, exceptions included, the terminal settings are those it found, and an interrupt is not
  passed on.
\<close>

theorem terminal_restored:
  assumes "sync_fifo F cont okf" and "sound F RX_DEPTH TX_DEPTH 3 w"
  shows "\<exists>r w'. console_loop (bridge_board F RX_DEPTH TX_DEPTH 3) w = Some (r, w') \<and>
    tty_mode w' = tty_mode w \<and> r \<noteq> Inl KeyboardInterrupt"
  by (rule console_system.console_loop_world [OF shipped_system [OF assms(1)] assms(2)])

theorem terminal_restored_witness:
  "\<exists>r w'. console_loop (bridge_board buf_fifo RX_DEPTH TX_DEPTH 3) (demo_world []) = Some (r, w') \<and>
     tty_mode w' = 7"
  using terminal_restored [OF bf.sync_fifo_axioms demo_sound] by (auto simp: demo_world_def)

definition lossy_slots :: "slot list" where
  "lossy_slots = [quick, quick\<lparr>slot_lost := True\<rparr>]"

lemma drain_loop_numeral:
  "drain_loop B (numeral n) out =
     sx_bind (console_rx_read B) (\<lambda>word.
       if word AND RX_VALID_BIT = 0 then sx_return out
       else sx_bind (console_rx_pop_write B 1) (\<lambda>_.
         drain_loop B (pred_numeral n) (out @ [word_of_int (word AND RX_DATA_MASK)])))"
  by (simp add: numeral_eq_Suc)


end
