(* ===== verification/Inet.thy ===== *)
theory Inet
  imports Prelude
begin

text \<open>
  IPv4 addresses as the host tools use them: \<^verbatim>\<open>inet_aton\<close> and \<^verbatim>\<open>inet_ntoa\<close> of Python's
  \<^verbatim>\<open>socket\<close> module, as \<^verbatim>\<open>inet(3)\<close> documents them, and from
  \<^verbatim>\<open>src/host/b8008net/discovery.py\<close> the conversions to integers and the enumeration of a
  subnet.
\<close>

subsection \<open>Numbers and components\<close>

fun split_on :: "char \<Rightarrow> string \<Rightarrow> string list" where
  "split_on c [] = [[]]"
| "split_on c (x # xs) =
     (if x = c then [] # split_on c xs
      else case split_on c xs of [] \<Rightarrow> [[x]] | p # ps \<Rightarrow> (x # p) # ps)"

definition digit_val :: "char \<Rightarrow> nat option" where
  "digit_val c =
     (let k = of_char c :: nat in
      if 48 \<le> k \<and> k \<le> 57 then Some (k - 48)
      else if 97 \<le> k \<and> k \<le> 102 then Some (k - 87)
      else if 65 \<le> k \<and> k \<le> 70 then Some (k - 55)
      else None)"

fun parse_digits :: "nat \<Rightarrow> nat \<Rightarrow> string \<Rightarrow> nat option" where
  "parse_digits b acc [] = Some acc"
| "parse_digits b acc (c # cs) =
     (case digit_val c of
        None \<Rightarrow> None
      | Some d \<Rightarrow> if d < b then parse_digits b (acc * b + d) cs else None)"

text \<open>A component of an address: decimal, octal after a leading 0, hexadecimal after 0x.\<close>

definition c_number :: "string \<Rightarrow> nat option" where
  "c_number s =
     (case s of
        [] \<Rightarrow> None
      | x # xs \<Rightarrow>
          if x = CHR ''0'' \<and> xs \<noteq> []
          then if hd xs = CHR ''x'' \<or> hd xs = CHR ''X''
               then if tl xs = [] then None else parse_digits 16 0 (tl xs)
               else parse_digits 8 0 xs
          else parse_digits 10 0 s)"

definition inet_aton :: "string \<Rightarrow> exn + u32" where
  "inet_aton s =
     (case those (map c_number (split_on CHR ''.'' s)) of
        Some [a] \<Rightarrow> if a < 2 ^ 32 then Inr (of_nat a) else Inl OSError
      | Some [a, b] \<Rightarrow>
          if a < 256 \<and> b < 2 ^ 24 then Inr (of_nat (a * 2 ^ 24 + b)) else Inl OSError
      | Some [a, b, c] \<Rightarrow>
          if a < 256 \<and> b < 256 \<and> c < 2 ^ 16 then Inr (of_nat (a * 2 ^ 24 + b * 2 ^ 16 + c))
          else Inl OSError
      | Some [a, b, c, d] \<Rightarrow>
          if a < 256 \<and> b < 256 \<and> c < 256 \<and> d < 256
          then Inr (of_nat (a * 2 ^ 24 + b * 2 ^ 16 + c * 2 ^ 8 + d)) else Inl OSError
      | _ \<Rightarrow> Inl OSError)"

definition inet_ntoa :: "u32 \<Rightarrow> string" where
  "inet_ntoa n =
     join ''.'' (map (\<lambda>k. dec_nat (unat n div 2 ^ k mod 256)) [24, 16, 8, 0])"

definition ip_to_int :: "string \<Rightarrow> exn + int" where
  "ip_to_int ip = (case inet_aton ip of Inl e \<Rightarrow> Inl e | Inr n \<Rightarrow> Inr (uint n))"

definition int_to_ip :: "int \<Rightarrow> string" where
  "int_to_ip n = inet_ntoa (word_of_int (n AND 0xFFFFFFFF))"

definition subnet_candidates :: "string \<Rightarrow> string \<Rightarrow> exn + string list" where
  "subnet_candidates ip netmask =
     (case ip_to_int ip of
        Inl e \<Rightarrow> Inl e
      | Inr ip_i \<Rightarrow>
          (case ip_to_int netmask of
             Inl e \<Rightarrow> Inl e
           | Inr mask_i \<Rightarrow>
               (let network = ip_i AND mask_i;
                    broadcast = network OR (NOT mask_i AND 0xFFFFFFFF)
                in Inr (map int_to_ip
                          (filter (\<lambda>host. host \<noteq> ip_i) [network + 1..broadcast - 1])))))"

text \<open>The subnet-directed broadcast address of \<^verbatim>\<open>probe_broadcast\<close>.\<close>

definition subnet_bcast :: "string \<Rightarrow> string \<Rightarrow> exn + string" where
  "subnet_bcast ip netmask =
     (case ip_to_int ip of
        Inl e \<Rightarrow> Inl e
      | Inr ip_i \<Rightarrow>
          (case ip_to_int netmask of
             Inl e \<Rightarrow> Inl e
           | Inr mask_i \<Rightarrow> Inr (int_to_ip (ip_i OR (NOT mask_i AND 0xFFFFFFFF)))))"

subsection \<open>Printing and parsing\<close>

lemma digit_val_digit_char [simp]: "d < 10 \<Longrightarrow> digit_val (digit_char d) = Some d"
  by (simp add: digit_val_def digit_char_def Let_def)

lemma digit_char_eval:
  "digit_char 0 = CHR ''0''" "digit_char (Suc 0) = CHR ''1''" "digit_char 2 = CHR ''2''"
  "digit_char 3 = CHR ''3''" "digit_char 4 = CHR ''4''" "digit_char 5 = CHR ''5''"
  "digit_char 6 = CHR ''6''" "digit_char 7 = CHR ''7''" "digit_char 8 = CHR ''8''"
  "digit_char 9 = CHR ''9''"
  by code_simp+

lemma parse_digits_append:
  "parse_digits b acc (xs @ ys) =
     (case parse_digits b acc xs of None \<Rightarrow> None | Some a \<Rightarrow> parse_digits b a ys)"
  by (induction xs arbitrary: acc) (auto split: option.splits)

lemma parse_dec_nat: "parse_digits 10 0 (dec_nat n) = Some n"
proof (induction n rule: less_induct)
  case (less n)
  show ?case
  proof (cases "n < 10")
    case True
    then show ?thesis by (simp add: dec_nat_def base_nat.simps [of 10 n])
  next
    case False
    then have "dec_nat n = dec_nat (n div 10) @ [digit_char (n mod 10)]"
      by (simp add: dec_nat_def base_nat.simps [of 10 n])
    moreover have "parse_digits 10 0 (dec_nat (n div 10)) = Some (n div 10)"
      using less False by simp
    ultimately show ?thesis by (simp add: parse_digits_append)
  qed
qed

lemma dec_nat_digits: "c \<in> set (dec_nat n) \<Longrightarrow> \<exists>d<10. c = digit_char d"
proof (induction n rule: less_induct)
  case (less n)
  show ?case
  proof (cases "n < 10")
    case True
    with less.prems show ?thesis by (auto simp: dec_nat_def base_nat.simps [of 10 n])
  next
    case False
    then have "c \<in> set (dec_nat (n div 10)) \<or> c = digit_char (n mod 10)"
      using less.prems by (auto simp: dec_nat_def base_nat.simps [of 10 n])
    then show ?thesis using less.IH [of "n div 10"] False by force
  qed
qed

lemma hd_dec_nat: "0 < n \<Longrightarrow> dec_nat n \<noteq> [] \<and> hd (dec_nat n) \<noteq> CHR ''0''"
proof (induction n rule: less_induct)
  case (less n)
  have d: "digit_char n \<noteq> CHR ''0''" if "0 < n" "n < 10"
  proof
    assume "digit_char n = CHR ''0''"
    then have "Some n = digit_val CHR ''0''" using that by (metis digit_val_digit_char)
    with that show False by (simp add: digit_val_def)
  qed
  show ?case
  proof (cases "n < 10")
    case True
    with d less.prems show ?thesis by (simp add: dec_nat_def base_nat.simps [of 10 n])
  next
    case False
    with less.IH [of "n div 10"] show ?thesis
      by (simp add: dec_nat_def base_nat.simps [of 10 n])
  qed
qed

lemma c_number_dec_nat [simp]: "c_number (dec_nat n) = Some n"
proof (cases "n = 0")
  case True
  then show ?thesis
    by (simp add: c_number_def dec_nat_def base_nat.simps digit_char_def digit_val_def)
next
  case False
  with hd_dec_nat [of n] parse_dec_nat [of n] show ?thesis
    by (auto simp: c_number_def split: list.splits)
qed

lemma dot_not_digit: "CHR ''.'' \<notin> set (dec_nat n)"
proof
  assume "CHR ''.'' \<in> set (dec_nat n)"
  then obtain d where "d < 10" "CHR ''.'' = digit_char d" using dec_nat_digits by blast
  then have "digit_val CHR ''.'' = Some d" by simp
  then show False by (simp add: digit_val_def Let_def)
qed

lemma split_on_none: "c \<notin> set xs \<Longrightarrow> split_on c xs = [xs]"
  by (induction xs) auto

lemma split_on_sep: "c \<notin> set xs \<Longrightarrow> split_on c (xs @ c # ys) = xs # split_on c ys"
  by (induction xs) auto

lemma four_bytes:
  assumes "n < 2 ^ 32"
  shows "n div 2 ^ 24 mod 256 * 2 ^ 24 + n div 2 ^ 16 mod 256 * 2 ^ 16 + n div 2 ^ 8 mod 256 * 2 ^ 8 +
    n mod 256 = (n :: nat)"
proof -
  define A B C D where "A = n div 2 ^ 8" "B = n div 2 ^ 16" "C = n div 2 ^ 24" "D = n mod 256"
  note defs = this
  have "A * 256 + D = n" by (simp add: defs)
  moreover have "A div 256 = B" "B div 256 = C" by (simp_all add: defs div_mult2_eq [symmetric])
  then have "B * 256 + A mod 256 = A" "C * 256 + B mod 256 = B"
    using div_mult_mod_eq [of A 256] div_mult_mod_eq [of B 256] by simp_all
  moreover have "C mod 256 = C" using assms by (simp add: defs)
  ultimately have "C mod 256 * 2 ^ 24 + B mod 256 * 2 ^ 16 + A mod 256 * 2 ^ 8 + D = n"
    by simp
  then show ?thesis by (simp only: defs)
qed

lemma inet_aton_ntoa [simp]: "inet_aton (inet_ntoa n) = Inr n"
proof -
  have "split_on CHR ''.'' (inet_ntoa n) =
      map (\<lambda>k. dec_nat (unat n div 2 ^ k mod 256)) [24, 16, 8, 0]"
    by (simp add: inet_ntoa_def split_on_sep split_on_none dot_not_digit)
  moreover have "unat n < 2 ^ 32" using unsigned_less [of n] by simp
  ultimately show ?thesis
    using four_bytes [of "unat n"] by (simp add: inet_aton_def)
qed

subsection \<open>Subnets\<close>

lemma and_ffffffff: "(x :: int) AND 0xFFFFFFFF = take_bit 32 x"
proof -
  have "(0xFFFFFFFF :: int) = mask 32" by (simp add: mask_eq_exp_minus_1)
  then show ?thesis by (simp only: take_bit_eq_mask)
qed

lemma ip_to_int_to_ip: "ip_to_int (int_to_ip n) = Inr (n mod 2 ^ 32)"
  by (simp add: ip_to_int_def int_to_ip_def and_ffffffff uint_word_of_int take_bit_eq_mod)

lemma int_to_ip_inj: "inj_on int_to_ip {0..<2 ^ 32}"
proof (rule inj_onI)
  fix x y :: int
  assume b: "x \<in> {0..<2 ^ 32}" "y \<in> {0..<2 ^ 32}" and "int_to_ip x = int_to_ip y"
  then have "ip_to_int (int_to_ip x) = ip_to_int (int_to_ip y)" by (simp only:)
  then have "x mod 2 ^ 32 = y mod 2 ^ 32" by (simp only: ip_to_int_to_ip sum.inject)
  with b show "x = y" by simp
qed

text \<open>Stated for addresses of \<open>N\<close> bits, so that the arithmetic stays symbolic.\<close>

lemma netmask_push: "k \<le> N \<Longrightarrow> (2 ^ N - 2 ^ k :: int) = push_bit k (mask (N - k))"
  by (simp add: push_bit_eq_mult mask_eq_exp_minus_1 left_diff_distrib flip: power_add)

lemma netmask_bit: "k \<le> N \<Longrightarrow> bit (2 ^ N - 2 ^ k :: int) n \<longleftrightarrow> k \<le> n \<and> n < N"
  by (subst netmask_push) (auto simp: bit_simps)

lemma small_int_bit: "0 \<le> a \<Longrightarrow> a < 2 ^ m \<Longrightarrow> bit (a :: int) n \<Longrightarrow> n < m"
  by (metis bit_take_bit_iff take_bit_int_eq_self)

lemma network_eq:
  assumes "k \<le> N" "0 \<le> a" "a < 2 ^ N"
  shows "(a :: int) AND (2 ^ N - 2 ^ k) = a div 2 ^ k * 2 ^ k"
proof -
  have "a AND (2 ^ N - 2 ^ k) = push_bit k (drop_bit k a)"
    using assms small_int_bit [of a N]
    by (intro bit_eqI) (auto simp: bit_simps netmask_bit)
  then show ?thesis by (simp add: push_bit_eq_mult drop_bit_eq_div)
qed

lemma hostmask_eq: "k \<le> N \<Longrightarrow> take_bit N (NOT (2 ^ N - 2 ^ k :: int)) = mask k"
  by (rule bit_eqI) (auto simp: bit_simps netmask_bit)

lemma broadcast_eq:
  "a div 2 ^ k * 2 ^ k OR mask k = a div 2 ^ k * 2 ^ k + 2 ^ k - (1 :: int)"
proof -
  have "push_bit k (a div 2 ^ k) OR mask k = push_bit k (a div 2 ^ k) + (mask k :: int)"
    by (rule disjunctive_add [symmetric]) (auto simp: bit_simps)
  then show ?thesis by (simp add: push_bit_eq_mult mask_eq_exp_minus_1)
qed

lemma same_subnet_iff:
  "(h :: int) div 2 ^ k = a div 2 ^ k \<longleftrightarrow> a div 2 ^ k * 2 ^ k \<le> h \<and> h \<le> a div 2 ^ k * 2 ^ k + 2 ^ k - 1"
proof
  have "0 \<le> h mod 2 ^ k" "h mod 2 ^ k < 2 ^ k" by simp_all
  moreover assume "h div 2 ^ k = a div 2 ^ k"
  then have "a div 2 ^ k * 2 ^ k + h mod 2 ^ k = h" using div_mult_mod_eq [of h "2 ^ k"] by simp
  ultimately show "a div 2 ^ k * 2 ^ k \<le> h \<and> h \<le> a div 2 ^ k * 2 ^ k + 2 ^ k - 1" by linarith
next
  assume "a div 2 ^ k * 2 ^ k \<le> h \<and> h \<le> a div 2 ^ k * 2 ^ k + 2 ^ k - 1"
  then show "h div 2 ^ k = a div 2 ^ k"
    by (intro int_div_pos_eq [where r = "h - a div 2 ^ k * 2 ^ k"]) auto
qed

lemma subnet_bounds:
  assumes "k \<le> N" "0 \<le> (a :: int)" "a < 2 ^ N"
  shows "0 \<le> a div 2 ^ k * 2 ^ k" "a div 2 ^ k * 2 ^ k + 2 ^ k \<le> 2 ^ N"
proof -
  show "0 \<le> a div 2 ^ k * 2 ^ k" using assms by (simp add: pos_imp_zdiv_nonneg_iff)
  have N: "(2 ^ N :: int) = 2 ^ (N - k) * 2 ^ k" using assms(1) by (simp flip: power_add)
  moreover have "a div 2 ^ k * 2 ^ k + a mod 2 ^ k = a" "0 \<le> a mod 2 ^ k"
    by (rule div_mult_mod_eq) simp
  ultimately have "a div 2 ^ k * 2 ^ k < 2 ^ (N - k) * 2 ^ k" using assms(3) by linarith
  then have "a div 2 ^ k < 2 ^ (N - k)" by simp
  then have "(a div 2 ^ k + 1) * 2 ^ k \<le> 2 ^ (N - k) * 2 ^ k"
    by (intro mult_right_mono) auto
  then show "a div 2 ^ k * 2 ^ k + 2 ^ k \<le> 2 ^ N"
    by (simp add: N distrib_right)
qed

lemma subnet_candidates_eq:
  assumes "k \<le> 32" "0 \<le> a" "a < 2 ^ 32"
  shows "subnet_candidates (int_to_ip a) (int_to_ip (2 ^ 32 - 2 ^ k)) =
    Inr (map int_to_ip (filter (\<lambda>h. h \<noteq> a)
      [a div 2 ^ k * 2 ^ k + 1..a div 2 ^ k * 2 ^ k + 2 ^ k - 2]))"
proof -
  have "(2 ^ k :: int) \<le> 2 ^ 32" using assms(1) by (rule power_increasing) simp
  then have m: "(2 ^ 32 - 2 ^ k :: int) mod 2 ^ 32 = 2 ^ 32 - 2 ^ k"
    by (intro mod_pos_pos_trivial) auto
  have a: "a mod 2 ^ 32 = a" using assms by simp
  show ?thesis
    by (simp only: subnet_candidates_def ip_to_int_to_ip m a sum.case Let_def and_ffffffff
        network_eq [OF assms] hostmask_eq [OF assms(1)] broadcast_eq) simp
qed

subsection \<open>Properties of the address arithmetic\<close>

text \<open>
  Addresses survive the trip through text: \<^verbatim>\<open>_ip_to_int(_int_to_ip(n))\<close> never raises and
  gives back \<open>n\<close> reduced to 32 bits, for every integer, and \<^verbatim>\<open>_int_to_ip\<close> is injective on the
  32-bit addresses.
\<close>

theorem ip_text_roundtrip:
  "ip_to_int (int_to_ip n) = Inr (n mod 2 ^ 32) \<and> inj_on int_to_ip {0..<2 ^ 32}"
  by (simp only: ip_to_int_to_ip int_to_ip_inj)



end
