(* ===== verification/Host_Os.thy ===== *)
theory Host_Os
  imports Prelude
begin

text \<open>
  The operating system as the host tools see it: files, name service, UDP sockets, time, file
  locks, child processes and connection attempts, each as the Python library call that reaches
  it. What the outside world does is part of the state and arbitrary: which calls raise and what
  (\<open>raises\<close>), which datagrams arrive and when (\<open>inbox\<close>), whether a child exits in time (\<open>exits\<close>),
  how long a connection attempt takes and whether it succeeds (\<open>listening\<close>).

  Times are in microseconds. Calls that wait advance the clock by what they wait; other calls
  take no time.
\<close>

datatype pstate = Running | Reaped

record os =
  raises :: "exn option list"
  files :: "string \<Rightarrow> string option"
  dns :: "string \<Rightarrow> string option"
  route_ip :: string
  inbox :: "(int \<times> byte list \<times> string) list"
  sent :: "(byte list \<times> string \<times> int) list"
  open_socks :: int
  clock :: int
  flocks :: "string \<Rightarrow> nat option"
  open_fds :: "nat list"
  next_id :: nat
  procs :: "nat \<Rightarrow> pstate option"
  exits :: "bool list"
  listening :: "(int \<times> bool) list"
  stderr_log :: "string list"
  stdout_log :: "string list"

definition sx_lift :: "exn + 'a \<Rightarrow> ('w, 'a) sx" where
  "sx_lift r w = (r, w)"

text \<open>A call made by code that also has a state of its own.\<close>

definition on_os :: "(os, 'a) sx \<Rightarrow> (os \<times> 'l, 'a) sx" where
  "on_os m s = (case m (fst s) of (r, w) \<Rightarrow> (r, w, snd s))"

text \<open>A call that may raise: the outside world decides.\<close>

definition guard :: "(os, unit) sx" where
  "guard w =
     (case raises w of
        [] \<Rightarrow> (Inr (), w)
      | None # rs \<Rightarrow> (Inr (), w\<lparr>raises := rs\<rparr>)
      | Some e # rs \<Rightarrow> (Inl e, w\<lparr>raises := rs\<rparr>))"

text \<open>
  A call documented to raise only some exceptions. What no call can exclude is an interrupt or an
  exit, which are not subclasses of \<^verbatim>\<open>Exception\<close>.
\<close>

definition may_raise :: "(exn \<Rightarrow> bool) \<Rightarrow> (os, unit) sx" where
  "may_raise p w =
     (case raises w of
        [] \<Rightarrow> (Inr (), w)
      | None # rs \<Rightarrow> (Inr (), w\<lparr>raises := rs\<rparr>)
      | Some e # rs \<Rightarrow>
          (if p e \<or> \<not> is_Exception e then Inl e else Inr (), w\<lparr>raises := rs\<rparr>))"

subsection \<open>Text\<close>

text \<open>\<^verbatim>\<open>str.isspace\<close> on the characters below 256, \<^verbatim>\<open>str.strip\<close>, and the newline translation of text files.\<close>

definition py_space :: "char \<Rightarrow> bool" where
  "py_space c \<longleftrightarrow>
     (let k = of_char c :: nat in
      9 \<le> k \<and> k \<le> 13 \<or> 28 \<le> k \<and> k \<le> 32 \<or> k = 133 \<or> k = 160)"

definition strip :: "string \<Rightarrow> string" where
  "strip s = rev (dropWhile py_space (rev (dropWhile py_space s)))"

fun univ_newlines :: "string \<Rightarrow> string" where
  "univ_newlines [] = []"
| "univ_newlines [x] = [if x = CHR 0x0D then CHR 0x0A else x]"
| "univ_newlines (x # y # xs) =
     (if x = CHR 0x0D \<and> y = CHR 0x0A then CHR 0x0A # univ_newlines xs
      else (if x = CHR 0x0D then CHR 0x0A else x) # univ_newlines (y # xs))"

subsection \<open>Files\<close>

definition read_text :: "string \<Rightarrow> (os, string) sx" where
  "read_text path =
     sx_bind guard (\<lambda>_ w.
       case files w path of
         None \<Rightarrow> (Inl FileNotFoundError, w)
       | Some t \<Rightarrow> (Inr (univ_newlines t), w))"

text \<open>Opening for writing truncates at once; the text gets there with the write.\<close>

definition write_text :: "string \<Rightarrow> string \<Rightarrow> (os, unit) sx" where
  "write_text path t =
     sx_bind guard (\<lambda>_.
       sx_bind (sx_modify (\<lambda>w. w\<lparr>files := (files w)(path \<mapsto> [])\<rparr>)) (\<lambda>_.
         sx_bind guard (\<lambda>_. sx_modify (\<lambda>w. w\<lparr>files := (files w)(path \<mapsto> t)\<rparr>))))"

definition os_remove :: "string \<Rightarrow> (os, unit) sx" where
  "os_remove path =
     sx_bind guard (\<lambda>_ w.
       case files w path of
         None \<Rightarrow> (Inl FileNotFoundError, w)
       | Some _ \<Rightarrow> (Inr (), w\<lparr>files := (files w)(path := None)\<rparr>))"

subsection \<open>Network\<close>

definition gethostbyname :: "string \<Rightarrow> (os, string) sx" where
  "gethostbyname name =
     sx_bind guard (\<lambda>_ w. case dns w name of None \<Rightarrow> (Inl OSError, w) | Some ip \<Rightarrow> (Inr ip, w))"

definition new_socket :: "(os, unit) sx" where
  "new_socket = sx_bind guard (\<lambda>_. sx_modify (\<lambda>w. w\<lparr>open_socks := open_socks w + 1\<rparr>))"

definition sock_close :: "(os, unit) sx" where
  "sock_close = sx_modify (\<lambda>w. w\<lparr>open_socks := open_socks w - 1\<rparr>)"

definition sendto :: "byte list \<Rightarrow> string \<Rightarrow> int \<Rightarrow> (os, unit) sx" where
  "sendto data addr port =
     sx_bind guard (\<lambda>_. sx_modify (\<lambda>w. w\<lparr>sent := sent w @ [(data, addr, port)]\<rparr>))"

text \<open>
  \<^verbatim>\<open>select\<close> on a socket: readable as soon as the next datagram is there, unless \<open>t\<close> passes first.
\<close>

definition sock_select :: "int \<Rightarrow> (os, bool) sx" where
  "sock_select t =
     sx_bind guard (\<lambda>_ w.
       case inbox w of
         [] \<Rightarrow> (Inr False, w\<lparr>clock := clock w + t\<rparr>)
       | (d, data, addr) # ms \<Rightarrow>
           if d \<le> t then (Inr True, w\<lparr>clock := clock w + max 0 d, inbox := (0, data, addr) # ms\<rparr>)
           else (Inr False, w\<lparr>clock := clock w + t, inbox := (d - t, data, addr) # ms\<rparr>))"

text \<open>Only called when a datagram is there; on an empty queue the model raises.\<close>

definition recvfrom :: "(os, byte list \<times> string) sx" where
  "recvfrom =
     sx_bind guard (\<lambda>_ w.
       case inbox w of
         [] \<Rightarrow> (Inl SocketTimeout, w)
       | (d, data, addr) # ms \<Rightarrow> (Inr (data, addr), w\<lparr>clock := clock w + max 0 d, inbox := ms\<rparr>))"

text \<open>
  \<^verbatim>\<open>recvfrom\<close> on a socket with a timeout \<open>t\<close>: the next datagram, if it arrives in time.
\<close>

definition recvfrom_timeout :: "int \<Rightarrow> (os, byte list \<times> string) sx" where
  "recvfrom_timeout t =
     sx_bind guard (\<lambda>_ w.
       case inbox w of
         [] \<Rightarrow> (Inl SocketTimeout, w\<lparr>clock := clock w + t\<rparr>)
       | (d, data, addr) # ms \<Rightarrow>
           if d \<le> t then (Inr (data, addr), w\<lparr>clock := clock w + max 0 d, inbox := ms\<rparr>)
           else (Inl SocketTimeout, w\<lparr>clock := clock w + t, inbox := (d - t, data, addr) # ms\<rparr>))"

definition sleep :: "int \<Rightarrow> (os, unit) sx" where
  "sleep t = sx_bind guard (\<lambda>_. sx_modify (\<lambda>w. w\<lparr>clock := clock w + max 0 t\<rparr>))"

definition eprint :: "string \<Rightarrow> (os, unit) sx" where
  "eprint msg = sx_bind guard (\<lambda>_. sx_modify (\<lambda>w. w\<lparr>stderr_log := stderr_log w @ [msg]\<rparr>))"

definition print_out :: "string \<Rightarrow> (os, unit) sx" where
  "print_out msg = sx_bind guard (\<lambda>_. sx_modify (\<lambda>w. w\<lparr>stdout_log := stdout_log w @ [msg]\<rparr>))"

subsection \<open>Locks on files\<close>

text \<open>
  \<^verbatim>\<open>flock\<close> locks belong to the open file, so a second \<^verbatim>\<open>open\<close> of the same path competes with the
  first even within one process. Closing a file drops its lock.
\<close>

definition open_fd :: "string \<Rightarrow> (os, nat) sx" where
  "open_fd path =
     sx_bind guard (\<lambda>_ w.
       (Inr (next_id w),
        w\<lparr>next_id := Suc (next_id w), open_fds := next_id w # open_fds w,
          files := (files w)(path \<mapsto> [])\<rparr>))"

definition flock_ex_nb :: "string \<Rightarrow> nat \<Rightarrow> (os, unit) sx" where
  "flock_ex_nb path fd =
     sx_bind (may_raise is_OSError) (\<lambda>_ w.
       case flocks w path of
         None \<Rightarrow> (Inr (), w\<lparr>flocks := (flocks w)(path \<mapsto> fd)\<rparr>)
       | Some h \<Rightarrow> if h = fd then (Inr (), w) else (Inl OSError, w))"

definition flock_un :: "string \<Rightarrow> nat \<Rightarrow> (os, unit) sx" where
  "flock_un path fd =
     sx_modify (\<lambda>w. if flocks w path = Some fd then w\<lparr>flocks := (flocks w)(path := None)\<rparr> else w)"

definition close_fd :: "string \<Rightarrow> nat \<Rightarrow> (os, unit) sx" where
  "close_fd path fd =
     sx_bind (flock_un path fd) (\<lambda>_.
       sx_modify (\<lambda>w. w\<lparr>open_fds := remove1 fd (open_fds w)\<rparr>))"

subsection \<open>Child processes and connections\<close>

definition popen :: "(os, nat) sx" where
  "popen =
     sx_bind guard (\<lambda>_ w.
       (Inr (next_id w),
        w\<lparr>next_id := Suc (next_id w), procs := (procs w)(next_id w \<mapsto> Running)\<rparr>))"

text \<open>
  \<^verbatim>\<open>Popen.wait(timeout)\<close> after a signal: the child is reaped, or the time passes and
  \<^verbatim>\<open>TimeoutExpired\<close> is raised. After \<^verbatim>\<open>SIGKILL\<close> a wait without a timeout always reaps.
\<close>

definition proc_wait_timeout :: "nat \<Rightarrow> int \<Rightarrow> (os, unit) sx" where
  "proc_wait_timeout pid t =
     sx_bind (may_raise (\<lambda>_. False)) (\<lambda>_ w.
       case exits w of
         True # es \<Rightarrow> (Inr (), w\<lparr>exits := es, procs := (procs w)(pid \<mapsto> Reaped)\<rparr>)
       | es \<Rightarrow> (Inl TimeoutExpired, w\<lparr>exits := tl es, clock := clock w + t\<rparr>))"

definition proc_kill_wait :: "nat \<Rightarrow> (os, unit) sx" where
  "proc_kill_wait pid =
     sx_bind (may_raise (\<lambda>_. False)) (\<lambda>_.
       sx_modify (\<lambda>w. w\<lparr>procs := (procs w)(pid \<mapsto> Reaped)\<rparr>))"

definition create_connection :: "(os, unit) sx" where
  "create_connection =
     sx_bind guard (\<lambda>_ w.
       case listening w of
         [] \<Rightarrow> (Inl ConnectionRefusedError, w)
       | (t, up) # ls \<Rightarrow>
           (if up then Inr () else Inl ConnectionRefusedError,
            w\<lparr>listening := ls, clock := clock w + max 0 t\<rparr>))"

subsection \<open>Calm worlds\<close>

text \<open>When the outside world makes no call raise, every call does its work.\<close>

lemma guard_calm [simp]: "raises w = [] \<Longrightarrow> guard w = (Inr (), w)"
  by (simp add: guard_def)

lemma guard_frame:
  assumes "guard w = (r, w')"
  shows "w' = w\<lparr>raises := raises w'\<rparr>"
  using assms by (auto simp: guard_def split: list.splits option.splits)

lemma sx_lift_iff [simp]: "sx_lift r w = (r', w') \<longleftrightarrow> r' = r \<and> w' = w"
  by (auto simp: sx_lift_def)

lemma keeps_lift [keeps_intros]: "keeps f (sx_lift r)"
  by (simp add: keeps_def sx_lift_def)

text \<open>A call that may raise changes nothing but what raises next.\<close>

lemma keeps_guard [keeps_intros]: "(\<And>w rs. f (w\<lparr>raises := rs\<rparr>) = f w) \<Longrightarrow> keeps f guard"
  using guard_frame by (intro keepsI) metis

lemma may_raise_calm [simp]: "raises w = [] \<Longrightarrow> may_raise p w = (Inr (), w)"
  by (simp add: may_raise_def)

lemma keeps_may_raise [keeps_intros]:
  "(\<And>w rs. f (w\<lparr>raises := rs\<rparr>) = f w) \<Longrightarrow> keeps f (may_raise p)"
  by (intro keepsI) (auto simp: may_raise_def split: list.splits option.splits)

lemma may_raise_Inl: "may_raise p w = (Inl e, w') \<Longrightarrow> p e \<or> \<not> is_Exception e"
  by (auto simp: may_raise_def split: list.splits option.splits if_splits)

text \<open>A machine on which nothing has happened yet.\<close>

definition blank_os :: os where
  "blank_os =
     \<lparr>raises = [], files = (\<lambda>_. None), dns = (\<lambda>_. None), route_ip = ''192.168.1.10'', inbox = [],
      sent = [], open_socks = 0, clock = 0, flocks = (\<lambda>_. None), open_fds = [], next_id = 1,
      procs = (\<lambda>_. None), exits = [], listening = [], stderr_log = [], stdout_log = []\<rparr>"

subsection \<open>Stripping\<close>

lemma dropWhile_idle: "xs = [] \<or> \<not> P (hd xs) \<Longrightarrow> dropWhile P xs = xs"
  by (cases xs) auto

lemma strip_ends: "strip s = [] \<or> \<not> py_space (hd (strip s)) \<and> \<not> py_space (last (strip s))"
proof -
  define t where "t = dropWhile py_space s"
  define u where "u = dropWhile py_space (rev t)"
  have u: "u = [] \<or> \<not> py_space (hd u)" and t: "t = [] \<or> \<not> py_space (hd t)"
    unfolding u_def t_def using hd_dropWhile by blast+
  obtain ys where "rev t = ys @ u" unfolding u_def by (metis takeWhile_dropWhile_id)
  then have "t = rev u @ rev ys" by (metis rev_append rev_rev_ident)
  with t have "u = [] \<or> \<not> py_space (hd (rev u))" by auto
  moreover have "strip s = rev u" by (simp add: strip_def u_def t_def)
  ultimately show ?thesis using u by (auto simp: last_rev)
qed

lemma strip_idle: "s = [] \<or> \<not> py_space (hd s) \<and> \<not> py_space (last s) \<Longrightarrow> strip s = s"
  by (auto simp: strip_def dropWhile_idle hd_rev)

lemma strip_strip [simp]: "strip (strip s) = strip s"
  using strip_ends strip_idle by blast

lemma strip_newline: "strip (strip s @ [CHR 0x0A]) = strip s"
proof (cases "strip s = []")
  case True
  then show ?thesis by (simp add: strip_def [of "[CHR 0x0A]"] py_space_def)
next
  case False
  then have "\<not> py_space (hd (strip s))" "\<not> py_space (last (strip s))"
    using strip_ends [of s] by auto
  with False show ?thesis
    by (simp add: strip_def [of "strip s @ [CHR 0x0A]"] dropWhile_idle)
      (simp add: py_space_def dropWhile_idle hd_rev)
qed

lemma univ_newlines_idle: "CHR 0x0D \<notin> set s \<Longrightarrow> univ_newlines s = s"
  by (induction s rule: univ_newlines.induct) auto

end
