(* ===== verification/Discovery.thy ===== *)
theory Discovery
  imports Inet Host_Os
begin

text \<open>
  Board discovery, \<^verbatim>\<open>src/host/b8008net/discovery.py\<close>: the cache file, the name service, the
  broadcast probe and the subnet sweep, and the order \<^verbatim>\<open>discover\<close> tries them in.

  The Etherbone packet class is LiteX's: \<open>etherbone\<close> holds what the code uses of it, the bytes of an
  encoded probe and the decoding of a datagram to its magic number and probe-reply flag, either of
  which may raise.
\<close>

subsection \<open>Etherbone probes\<close>

record etherbone =
  eb_probe :: "exn + byte list"
  eb_decode :: "byte list \<Rightarrow> exn + (int \<times> int)"
  etherbone_magic :: int

definition ETHERBONE_PORT :: int where "ETHERBONE_PORT = 1234"
definition DNS_NAMES :: "string list" where "DNS_NAMES = [''b8008'', ''b8008.lan'']"
definition SWEEP_TIMEOUT_US :: int where "SWEEP_TIMEOUT_US = 500000"

definition probe_packet :: "etherbone \<Rightarrow> (os, byte list) sx" where
  "probe_packet E = sx_lift (eb_probe E)"

definition is_probe_reply :: "etherbone \<Rightarrow> byte list \<Rightarrow> exn + bool" where
  "is_probe_reply E data =
     (case eb_decode E data of
        Inl e \<Rightarrow> if is_Exception e then Inr False else Inl e
      | Inr (magic, pr) \<Rightarrow> Inr (magic = etherbone_magic E \<and> pr = 1))"

subsection \<open>The cache file\<close>

definition save_cache :: "string \<Rightarrow> string \<Rightarrow> (os, unit) sx" where
  "save_cache path host = write_text path (strip host @ [CHR 0x0A])"

definition load_cache :: "string \<Rightarrow> (os, string option) sx" where
  "load_cache path =
     sx_catch (\<lambda>e. e = FileNotFoundError)
       (sx_bind (read_text path) (\<lambda>t.
          let host = strip t in sx_return (if host = [] then None else Some host)))
       (\<lambda>_. sx_return None)"

definition clear_cache :: "string \<Rightarrow> (os, unit) sx" where
  "clear_cache path =
     sx_catch (\<lambda>e. e = FileNotFoundError) (os_remove path) (\<lambda>_. sx_return ())"

subsection \<open>Names\<close>

fun resolve_dns :: "string list \<Rightarrow> (os, string option) sx" where
  "resolve_dns [] = sx_return None"
| "resolve_dns (name # names) =
     sx_catch is_OSError (sx_bind (gethostbyname name) (\<lambda>ip. sx_return (Some ip)))
       (\<lambda>_. resolve_dns names)"

subsection \<open>Probing\<close>

definition local_ipv4_and_netmask :: "(os, string \<times> string) sx" where
  "local_ipv4_and_netmask =
     sx_bind new_socket (\<lambda>_.
       sx_bind (sx_finally (sx_bind guard (\<lambda>_. sx_get route_ip)) sock_close) (\<lambda>ip.
         sx_return (ip, ''255.255.255.0'')))"

fun send_probes :: "byte list \<Rightarrow> int \<Rightarrow> string list \<Rightarrow> nat \<Rightarrow> (os, nat) sx" where
  "send_probes packet port [] n = sx_return n"
| "send_probes packet port (target # targets) n =
     sx_bind (sx_catch is_OSError
                (sx_bind (sendto packet target port) (\<lambda>_. sx_return (Suc n)))
                (\<lambda>_. sx_return n))
       (send_probes packet port targets)"

lemma select_inbox: "sock_select t w = (r, w') \<Longrightarrow> length (inbox w') = length (inbox w)"
  by (auto simp: sock_select_def sx_bind_def guard_def
      split: prod.splits sum.splits list.splits option.splits if_splits)

lemma recvfrom_inbox: "recvfrom w = (Inr x, w') \<Longrightarrow> length (inbox w') < length (inbox w)"
  by (auto simp: recvfrom_def sx_bind_def guard_def
      split: prod.splits sum.splits list.splits option.splits if_splits)

text \<open>The wait for a valid reply until the deadline, the same loop in both probes.\<close>

function probe_listen :: "etherbone \<Rightarrow> int \<Rightarrow> (os, string option) sx" where
  "probe_listen E deadline w =
     (let remaining = deadline - clock w in
      if remaining \<le> 0 then (Inr None, w)
      else case sock_select remaining w of
        (Inl e, w1) \<Rightarrow> (Inl e, w1)
      | (Inr readable, w1) \<Rightarrow>
          if \<not> readable then (Inr None, w1)
          else case recvfrom w1 of
            (Inl e, w2) \<Rightarrow> (Inl e, w2)
          | (Inr (data, addr), w2) \<Rightarrow>
              (case is_probe_reply E data of
                 Inl e \<Rightarrow> (Inl e, w2)
               | Inr valid \<Rightarrow>
                   if valid then (Inr (Some addr), w2) else probe_listen E deadline w2))"
  by pat_completeness auto
termination
  by (relation "measure (\<lambda>(E, deadline, w). length (inbox w))")
    (auto dest!: recvfrom_inbox [OF sym] select_inbox [OF sym])

declare probe_listen.simps [simp del]

definition probe_sweep ::
    "etherbone \<Rightarrow> string list \<Rightarrow> int \<Rightarrow> int \<Rightarrow> bool \<Rightarrow> (os, string option) sx" where
  "probe_sweep E candidates port timeout owns_sock =
     sx_bind (probe_packet E) (\<lambda>packet.
       sx_bind (if owns_sock then new_socket else sx_return ()) (\<lambda>_.
         sx_finally
           (sx_bind (send_probes packet port candidates 0) (\<lambda>_ w.
              probe_listen E (clock w + timeout) w))
           (if owns_sock then sock_close else sx_return ())))"

text \<open>
  The targets of the broadcast probe: the directed broadcast address of the local subnet when it
  can be found, then the limited one.
\<close>

definition bcast_targets :: "(os, string list) sx" where
  "bcast_targets =
     sx_catch is_OSError
       (sx_bind local_ipv4_and_netmask (\<lambda>(ip, netmask).
          sx_bind (sx_lift (subnet_bcast ip netmask)) (\<lambda>b.
            sx_return [b, ''255.255.255.255''])))
       (\<lambda>_. sx_return [''255.255.255.255''])"

definition probe_broadcast :: "etherbone \<Rightarrow> int \<Rightarrow> int \<Rightarrow> bool \<Rightarrow> (os, string option) sx" where
  "probe_broadcast E port timeout owns_sock =
     sx_bind (probe_packet E) (\<lambda>packet.
       sx_bind (if owns_sock then sx_bind new_socket (\<lambda>_. guard) else sx_return ()) (\<lambda>_.
         sx_finally
           (sx_bind bcast_targets (\<lambda>targets.
              sx_bind (send_probes packet port targets 0) (\<lambda>n.
                if n = 0 then sx_return None
                else (\<lambda>w. probe_listen E (clock w + timeout) w))))
           (if owns_sock then sock_close else sx_return ())))"

subsection \<open>Discovery\<close>

definition truthy :: "string option \<Rightarrow> bool" where
  "truthy h \<longleftrightarrow> h \<noteq> None \<and> h \<noteq> Some []"

definition discover_sweep :: "etherbone \<Rightarrow> string \<Rightarrow> (os, string option) sx" where
  "discover_sweep E cache_path =
     sx_bind (sx_catch is_OSError
                (sx_bind local_ipv4_and_netmask (\<lambda>(ip, netmask).
                   sx_bind (sx_lift (subnet_candidates ip netmask)) (\<lambda>cs. sx_return (Some cs))))
                (\<lambda>_. sx_return None)) (\<lambda>candidates.
       case candidates of
         None \<Rightarrow> sx_return None
       | Some cs \<Rightarrow>
           sx_bind (probe_sweep E cs ETHERBONE_PORT SWEEP_TIMEOUT_US True) (\<lambda>found.
             sx_bind (if truthy found then save_cache cache_path (the found) else sx_return ())
               (\<lambda>_. sx_return found)))"

definition discover :: "etherbone \<Rightarrow> string \<Rightarrow> bool \<Rightarrow> (os, string option) sx" where
  "discover E cache_path use_cache =
     sx_bind (if use_cache then load_cache cache_path else sx_return None) (\<lambda>cached.
       if cached \<noteq> None then sx_return cached
       else sx_bind (probe_broadcast E ETHERBONE_PORT SWEEP_TIMEOUT_US True) (\<lambda>bcast_host.
         if truthy bcast_host
         then sx_bind (save_cache cache_path (the bcast_host)) (\<lambda>_. sx_return bcast_host)
         else sx_bind (resolve_dns DNS_NAMES) (\<lambda>dns_host.
           if truthy dns_host
           then sx_bind (save_cache cache_path (the dns_host)) (\<lambda>_. sx_return dns_host)
           else discover_sweep E cache_path)))"

subsection \<open>Reference semantics of a calm network\<close>

text \<open>
  What listening for \<open>t\<close> microseconds yields when no call raises: the first valid reply whose
  arrival, counted from the start, falls inside the window; how long it took; and the datagrams
  left unread.
\<close>

type_synonym datagrams = "(int \<times> byte list \<times> string) list"

fun listen_ref :: "etherbone \<Rightarrow> int \<Rightarrow> datagrams \<Rightarrow> string option \<times> int \<times> datagrams" where
  "listen_ref E t [] = (None, max 0 t, [])"
| "listen_ref E t ((d, data, addr) # ms) =
     (if t \<le> 0 then (None, 0, (d, data, addr) # ms)
      else if t < d then (None, t, (d - t, data, addr) # ms)
      else if is_probe_reply E data = Inr True then (Some addr, max 0 d, ms)
      else case listen_ref E (t - max 0 d) ms of (r, e, rest) \<Rightarrow> (r, max 0 d + e, rest))"

definition decoder_ok :: "etherbone \<Rightarrow> bool" where
  "decoder_ok E \<longleftrightarrow> (\<forall>data e. eb_decode E data = Inl e \<longrightarrow> is_Exception e)"

definition cached_host :: "string \<Rightarrow> os \<Rightarrow> string option" where
  "cached_host path w =
     (case files w path of
        None \<Rightarrow> None
      | Some t \<Rightarrow> if strip (univ_newlines t) = [] then None else Some (strip (univ_newlines t)))"

fun first_name :: "(string \<Rightarrow> string option) \<Rightarrow> string list \<Rightarrow> string option" where
  "first_name table [] = None"
| "first_name table (n # ns) = (case table n of None \<Rightarrow> first_name table ns | Some ip \<Rightarrow> Some ip)"

definition discover_ref :: "etherbone \<Rightarrow> string \<Rightarrow> bool \<Rightarrow> os \<Rightarrow> string option" where
  "discover_ref E path use_cache w =
     (if use_cache \<and> cached_host path w \<noteq> None then cached_host path w
      else case listen_ref E SWEEP_TIMEOUT_US (inbox w) of (bcast, _, rest) \<Rightarrow>
        if truthy bcast then bcast
        else if truthy (first_name (dns w) DNS_NAMES) then first_name (dns w) DNS_NAMES
        else case subnet_candidates (route_ip w) ''255.255.255.0'' of
          Inl _ \<Rightarrow> None
        | Inr _ \<Rightarrow> fst (listen_ref E SWEEP_TIMEOUT_US rest))"

lemma is_probe_reply_Inr: "decoder_ok E \<Longrightarrow> \<exists>v. is_probe_reply E data = Inr v"
  by (auto simp: decoder_ok_def is_probe_reply_def split: sum.splits)

lemma probe_listen_calm:
  assumes "raises w = []" "decoder_ok E"
  shows "probe_listen E (clock w + t) w =
    (case listen_ref E t (inbox w) of (r, e, rest) \<Rightarrow>
       (Inr r, w\<lparr>clock := clock w + e, inbox := rest\<rparr>))"
  using assms(1)
proof (induction "inbox w" arbitrary: w t)
  case Nil
  then have i: "inbox w = []" by simp
  show ?case
    using Nil.prems i
    by (subst probe_listen.simps) (auto simp: sock_select_def sx_bind_def)
next
  case (Cons m ms)
  obtain d data addr where m: "m = (d, data, addr)" by (cases m)
  have i: "inbox w = (d, data, addr) # ms" using Cons.hyps(2) m by simp
  obtain v where v: "is_probe_reply E data = Inr v" using is_probe_reply_Inr [OF assms(2)] by blast
  let ?w = "w\<lparr>clock := clock w + max 0 d, inbox := ms\<rparr>"
  have IH: "probe_listen E (clock ?w + (t - max 0 d)) ?w =
      (case listen_ref E (t - max 0 d) ms of (r, e, rest) \<Rightarrow>
         (Inr r, ?w\<lparr>clock := clock ?w + e, inbox := rest\<rparr>))"
    using Cons.hyps(1) [of ?w "t - max 0 d"] Cons.prems by simp
  have again: "clock ?w + (t - max 0 d) = clock w + t" by simp
  consider (closed) "t \<le> 0" | (late) "0 < t" "t < d" | (hit) "0 < t" "d \<le> t" v
    | (miss) "0 < t" "d \<le> t" "\<not> v" by linarith
  then show ?case
  proof cases
    case closed
    then show ?thesis using i by (subst probe_listen.simps) simp
  next
    case late
    then show ?thesis
      using i Cons.prems by (subst probe_listen.simps) (simp add: sock_select_def sx_bind_def)
  next
    case hit
    then show ?thesis
      using i v Cons.prems
      by (subst probe_listen.simps) (simp add: sock_select_def recvfrom_def sx_bind_def)
  next
    case miss
    then have "probe_listen E (clock w + t) w = probe_listen E (clock w + t) ?w"
      using i v Cons.prems
      by (subst probe_listen.simps) (simp add: sock_select_def recvfrom_def sx_bind_def)
    also have "\<dots> = (case listen_ref E (t - max 0 d) ms of (r, e, rest) \<Rightarrow>
         (Inr r, ?w\<lparr>clock := clock ?w + e, inbox := rest\<rparr>))"
      using IH by (simp only: again)
    finally show ?thesis
      using miss i v by (simp add: add.assoc split: prod.splits)
  qed
qed

lemma probe_listen_from:
  "raises v = [] \<Longrightarrow> decoder_ok E \<Longrightarrow> clock v = c \<Longrightarrow> probe_listen E (c + t) v =
    (case listen_ref E t (inbox v) of (r, e, rest) \<Rightarrow>
       (Inr r, v\<lparr>clock := c + e, inbox := rest\<rparr>))"
  using probe_listen_calm [of v E t] by simp

lemma send_probes_calm:
  "raises w = [] \<Longrightarrow> send_probes packet port targets n w =
     (Inr (n + length targets), w\<lparr>sent := sent w @ map (\<lambda>t. (packet, t, port)) targets\<rparr>)"
  by (induction targets arbitrary: w n)
    (simp_all add: sx_bind_def sx_catch_def sendto_def sx_modify_def sx_return_def)

lemma local_ip_calm:
  "raises w = [] \<Longrightarrow> local_ipv4_and_netmask w = (Inr (route_ip w, ''255.255.255.0''), w)"
  by (simp add: local_ipv4_and_netmask_def new_socket_def sock_close_def sx_defs)

lemma bcast_targets_calm:
  "raises w = [] \<Longrightarrow> \<exists>ts. ts \<noteq> [] \<and> bcast_targets w = (Inr ts, w)"
proof -
  assume "raises w = []"
  moreover have "is_OSError e" if "subnet_bcast ip nm = Inl e" for ip nm e
    using that
    by (auto simp: subnet_bcast_def ip_to_int_def inet_aton_def
        split: sum.splits option.splits list.splits if_splits)
  ultimately show ?thesis
    by (cases "subnet_bcast (route_ip w) ''255.255.255.0''")
      (auto simp: bcast_targets_def sx_catch_def sx_bind_def local_ip_calm sx_return_def sx_lift_def)
qed

lemma probe_sweep_calm:
  assumes "raises w = []" "decoder_ok E" "eb_probe E = Inr packet"
  shows "probe_sweep E cs port t True w =
    (case listen_ref E t (inbox w) of (r, e, rest) \<Rightarrow>
       (Inr r, w\<lparr>clock := clock w + e, inbox := rest,
                 sent := sent w @ map (\<lambda>c. (packet, c, port)) cs\<rparr>))"
  using assms
  by (simp add: probe_sweep_def probe_packet_def sx_bind_def sx_finally_def new_socket_def
      sock_close_def sx_modify_def sx_lift_def send_probes_calm probe_listen_from split: prod.splits)

lemma probe_broadcast_calm:
  assumes "raises w = []" "decoder_ok E" "eb_probe E = Inr packet"
  shows "\<exists>log. probe_broadcast E port t True w =
    (case listen_ref E t (inbox w) of (r, e, rest) \<Rightarrow>
       (Inr r, w\<lparr>clock := clock w + e, inbox := rest, sent := log\<rparr>))"
proof -
  let ?w = "w\<lparr>open_socks := open_socks w + 1\<rparr>"
  obtain ts where "ts \<noteq> []" "bcast_targets ?w = (Inr ts, ?w)"
    using bcast_targets_calm [of ?w] assms(1) by auto
  then show ?thesis
    using assms
    by (intro exI [of _ "sent w @ map (\<lambda>t. (packet, t, port)) ts"])
      (simp add: probe_broadcast_def probe_packet_def sx_bind_def sx_finally_def new_socket_def
        sock_close_def sx_modify_def sx_lift_def send_probes_calm probe_listen_from split: prod.splits)
qed

lemma load_cache_calm: "raises w = [] \<Longrightarrow> load_cache path w = (Inr (cached_host path w), w)"
  by (auto simp: load_cache_def cached_host_def read_text_def sx_defs Let_def split: option.splits)

lemma save_cache_calm:
  "raises w = [] \<Longrightarrow>
   save_cache path h w = (Inr (), w\<lparr>files := (files w)(path \<mapsto> strip h @ [CHR 0x0A])\<rparr>)"
  by (simp add: save_cache_def write_text_def sx_bind_def sx_modify_def)

lemma resolve_dns_calm: "raises w = [] \<Longrightarrow> resolve_dns names w = (Inr (first_name (dns w) names), w)"
  by (induction names)
    (auto simp: sx_catch_def sx_bind_def gethostbyname_def sx_return_def split: option.splits)

lemma subnet_candidates_OSError: "subnet_candidates ip nm = Inl e \<Longrightarrow> is_OSError e"
  by (auto simp: subnet_candidates_def ip_to_int_def inet_aton_def Let_def
      split: sum.splits option.splits list.splits if_splits)

lemma discover_sweep_calm:
  assumes "raises w = []" "decoder_ok E" "eb_probe E = Inr packet"
    and "found = (case subnet_candidates (route_ip w) ''255.255.255.0'' of
        Inl _ \<Rightarrow> None | Inr _ \<Rightarrow> fst (listen_ref E SWEEP_TIMEOUT_US (inbox w)))"
  shows "\<exists>w'. discover_sweep E path w = (Inr found, w') \<and> raises w' = [] \<and> open_socks w' = open_socks w \<and>
    (truthy found \<longrightarrow> files w' path = Some (strip (the found) @ [CHR 0x0A]))"
proof (cases "subnet_candidates (route_ip w) ''255.255.255.0''")
  case (Inl e)
  then have "discover_sweep E path w = (Inr None, w)"
    using assms(1) subnet_candidates_OSError [OF Inl]
    by (simp add: discover_sweep_def sx_bind_def sx_catch_def sx_lift_def sx_return_def local_ip_calm)
  then show ?thesis using assms(1,4) Inl by (simp add: truthy_def)
next
  case (Inr cs)
  obtain e rest where l: "listen_ref E SWEEP_TIMEOUT_US (inbox w) = (found, e, rest)"
    using assms(4) Inr by (metis (no_types, lifting) prod.collapse sum.case(2))
  then show ?thesis
    using assms(1-3) Inr
    by (simp add: discover_sweep_def sx_bind_def sx_catch_def sx_lift_def sx_return_def local_ip_calm
        probe_sweep_calm save_cache_calm)
qed

lemma discover_calm:
  assumes "raises w = []" "decoder_ok E" "eb_probe E = Inr packet"
  shows "\<exists>w'. discover E path use_cache w = (Inr (discover_ref E path use_cache w), w') \<and>
    raises w' = [] \<and> open_socks w' = open_socks w \<and>
    (truthy (discover_ref E path use_cache w) \<and> \<not> (use_cache \<and> cached_host path w \<noteq> None) \<longrightarrow>
       files w' path = Some (strip (the (discover_ref E path use_cache w)) @ [CHR 0x0A]))"
proof (cases "use_cache \<and> cached_host path w \<noteq> None")
  case True
  then have "discover E path use_cache w = (Inr (cached_host path w), w)"
    using assms(1) by (simp add: discover_def sx_bind_def load_cache_calm sx_return_def)
  then show ?thesis using True assms(1) by (auto simp: discover_ref_def)
next
  case False
  obtain b e rest where l: "listen_ref E SWEEP_TIMEOUT_US (inbox w) = (b, e, rest)"
    by (cases "listen_ref E SWEEP_TIMEOUT_US (inbox w)")
  obtain log where bc: "probe_broadcast E ETHERBONE_PORT SWEEP_TIMEOUT_US True w =
      (Inr b, w\<lparr>clock := clock w + e, inbox := rest, sent := log\<rparr>)"
    using probe_broadcast_calm [OF assms, of ETHERBONE_PORT SWEEP_TIMEOUT_US] l by auto
  let ?v = "w\<lparr>clock := clock w + e, inbox := rest, sent := log\<rparr>"
  have start: "discover E path use_cache w =
      (if truthy b then sx_bind (save_cache path (the b)) (\<lambda>_. sx_return b)
       else sx_bind (resolve_dns DNS_NAMES) (\<lambda>dns_host.
         if truthy dns_host
         then sx_bind (save_cache path (the dns_host)) (\<lambda>_. sx_return dns_host)
         else discover_sweep E path)) ?v"
    using False assms(1) bc by (auto simp: discover_def sx_bind_def load_cache_calm sx_return_def)
  consider (bcast) "truthy b" | (name) "\<not> truthy b" "truthy (first_name (dns w) DNS_NAMES)"
    | (sweep) "\<not> truthy b" "\<not> truthy (first_name (dns w) DNS_NAMES)" by blast
  then show ?thesis
  proof cases
    case bcast
    then have "discover_ref E path use_cache w = b"
      using False l by (auto simp: discover_ref_def)
    with bcast start assms(1) show ?thesis
      by (simp add: sx_bind_def save_cache_calm sx_return_def)
  next
    case name
    then have "discover_ref E path use_cache w = first_name (dns w) DNS_NAMES"
      using False l by (auto simp: discover_ref_def)
    with name start assms(1) show ?thesis
      by (simp add: sx_bind_def save_cache_calm sx_return_def resolve_dns_calm)
  next
    case sweep
    then have "discover_ref E path use_cache w =
        (case subnet_candidates (route_ip ?v) ''255.255.255.0'' of
           Inl _ \<Rightarrow> None | Inr _ \<Rightarrow> fst (listen_ref E SWEEP_TIMEOUT_US (inbox ?v)))"
      using False l by (auto simp: discover_ref_def split: sum.splits)
    from discover_sweep_calm [OF _ assms(2,3) this, of path] sweep start assms(1) show ?thesis
      by (auto simp: sx_bind_def resolve_dns_calm)
  qed
qed

subsection \<open>Safety whatever raises\<close>

lemma select_data: "sock_select t w = (r, w') \<Longrightarrow> map snd (inbox w') = map snd (inbox w)"
  by (auto simp: sock_select_def sx_bind_def guard_def
      split: prod.splits sum.splits list.splits option.splits if_splits)

lemma recvfrom_data:
  "recvfrom w = (Inr m, w') \<Longrightarrow> map snd (inbox w) = m # map snd (inbox w')"
  by (auto simp: recvfrom_def sx_bind_def guard_def
      split: prod.splits sum.splits list.splits option.splits if_splits)

text \<open>A part of the machine that waiting for datagrams does not touch.\<close>

definition net_free :: "(os \<Rightarrow> 'v) \<Rightarrow> bool" where
  "net_free f \<longleftrightarrow>
     (\<forall>w rs. f (w\<lparr>raises := rs\<rparr>) = f w) \<and> (\<forall>w c. f (w\<lparr>clock := c\<rparr>) = f w) \<and>
     (\<forall>w ms. f (w\<lparr>inbox := ms\<rparr>) = f w) \<and> (\<forall>w l. f (w\<lparr>sent := l\<rparr>) = f w)"

lemma net_freeD:
  assumes "net_free f"
  shows "f (w\<lparr>raises := rs\<rparr>) = f w" "f (w\<lparr>clock := c\<rparr>) = f w" "f (w\<lparr>inbox := ms\<rparr>) = f w"
    "f (w\<lparr>sent := l\<rparr>) = f w" "f (w\<lparr>clock := c, inbox := ms\<rparr>) = f w"
    "f (w\<lparr>raises := rs, clock := c\<rparr>) = f w" "f (w\<lparr>raises := rs, clock := c, inbox := ms\<rparr>) = f w"
  using assms by (simp_all add: net_free_def)

lemma net_free_socks [simp]: "net_free open_socks"
  by (simp add: net_free_def)

lemma keeps_select:
  assumes "net_free f"
  shows "keeps f (sock_select t)"
  unfolding sock_select_def
  by (intro keeps_intros keepsI) (auto simp: net_freeD [OF assms] split: list.splits if_splits)

lemma keeps_recvfrom:
  assumes "net_free f"
  shows "keeps f recvfrom"
  unfolding recvfrom_def
  by (intro keeps_intros keepsI) (auto simp: net_freeD [OF assms] split: list.splits if_splits)

text \<open>One round of the wait: it ends here, or an invalid datagram was read and it goes on.\<close>

lemma probe_listen_round:
  assumes "probe_listen E deadline w = (r, w')" "net_free f"
  obtains (stop) "f w' = f w" "\<forall>a. r \<noteq> Inr (Some a)"
    | (hit) data a where "f w' = f w" "r = Inr (Some a)"
        "(data, a) \<in> set (map snd (inbox w))" "is_probe_reply E data = Inr True"
    | (miss) w2 where "f w2 = f w" "length (inbox w2) < length (inbox w)"
        "set (map snd (inbox w2)) \<subseteq> set (map snd (inbox w))" "probe_listen E deadline w2 = (r, w')"
proof -
  obtain r1 w1 where sel: "sock_select (deadline - clock w) w = (r1, w1)" by fastforce
  obtain r2 w2 where rcv: "recvfrom w1 = (r2, w2)" by fastforce
  have same: "f w1 = f w" "f w2 = f w"
    using keepsD [OF keeps_select [OF assms(2)] sel] keepsD [OF keeps_recvfrom [OF assms(2)] rcv]
    by simp_all
  consider (1) "w' = w \<or> w' = w1 \<or> w' = w2" "\<forall>a. r \<noteq> Inr (Some a)"
    | (2) data a where "r2 = Inr (data, a)" "is_probe_reply E data = Inr True" "r = Inr (Some a)" "w' = w2"
    | (3) data a where "r2 = Inr (data, a)" "probe_listen E deadline w2 = (r, w')"
  proof (cases "deadline - clock w \<le> 0 \<or> r1 \<noteq> Inr True \<or> isl r2")
    case True
    have "(w' = w \<or> w' = w1 \<or> w' = w2) \<and> (\<forall>a. r \<noteq> Inr (Some a))"
      using assms(1) sel rcv True
      by (subst (asm) probe_listen.simps) (auto simp: Let_def isl_def split: if_splits sum.splits)
    then show ?thesis using 1 by blast
  next
    case False
    then obtain data a where "r2 = Inr (data, a)" by (cases r2) auto
    with False have step: "(case is_probe_reply E data of Inl e \<Rightarrow> (Inl e, w2)
        | Inr valid \<Rightarrow> if valid then (Inr (Some a), w2) else probe_listen E deadline w2) = (r, w')"
      using assms(1) sel rcv by (subst (asm) probe_listen.simps) (simp add: Let_def)
    show ?thesis
    proof (cases "is_probe_reply E data")
      case (Inl e)
      with step show ?thesis by (intro 1) auto
    next
      case (Inr v)
      with step \<open>r2 = Inr (data, a)\<close> show ?thesis by (cases v) (auto intro: 2 3)
    qed
  qed
  then show ?thesis
  proof cases
    case 1
    then show ?thesis using same by (intro stop) auto
  next
    case 2
    then have "map snd (inbox w) = (data, a) # map snd (inbox w2)"
      using select_data [OF sel] recvfrom_data [of w1 "(data, a)" w2] rcv by simp
    then show ?thesis using 2 same by (intro hit [of a data]) simp_all
  next
    case 3
    then have "map snd (inbox w) = (data, a) # map snd (inbox w2)"
      using select_data [OF sel] recvfrom_data [of w1 "(data, a)" w2] rcv by simp
    moreover from arg_cong [OF this, of length] have "length (inbox w2) < length (inbox w)" by simp
    ultimately show ?thesis using 3 same by (intro miss [of w2]) auto
  qed
qed

lemma keeps_probe_listen:
  assumes "net_free f"
  shows "keeps f (probe_listen E deadline)"
proof (rule keepsI)
  fix w r w'
  assume "probe_listen E deadline w = (r, w')"
  then show "f w' = f w"
  proof (induction "length (inbox w)" arbitrary: w rule: less_induct)
    case less
    from less.prems assms show ?case
      by (cases rule: probe_listen_round) (auto dest: less.hyps)
  qed
qed

lemma keeps_listen_window:
  "net_free f \<Longrightarrow> keeps f (\<lambda>w. probe_listen E (clock w + t) w)"
  using keeps_probe_listen by (auto simp: keeps_def)

lemma probe_listen_sound:
  assumes "probe_listen E deadline w = (Inr (Some a), w')"
  shows "\<exists>data. (data, a) \<in> set (map snd (inbox w)) \<and> is_probe_reply E data = Inr True"
  using assms
proof (induction "length (inbox w)" arbitrary: w rule: less_induct)
  case less
  from less.prems net_free_socks show ?case
  proof (cases rule: probe_listen_round)
    case (miss w2)
    from less.hyps [OF miss(2,4)] miss(3) show ?thesis by blast
  qed auto
qed

lemma keeps_send_probes:
  assumes "net_free f"
  shows "keeps f (send_probes packet port targets n)"
  by (induction targets arbitrary: n)
    (auto intro!: keeps_intros simp: sendto_def net_freeD [OF assms])

text \<open>A socket opened before a \<^verbatim>\<open>try\<close> and closed in its \<^verbatim>\<open>finally\<close> does not leak, whatever raises.\<close>

lemma keeps_owned:
  assumes "keeps open_socks m"
  shows "keeps open_socks (sx_bind new_socket (\<lambda>_. sx_finally m sock_close))"
proof (rule keepsI)
  fix w r w'
  assume run: "sx_bind new_socket (\<lambda>_. sx_finally m sock_close) w = (r, w')"
  obtain r0 w0 where g: "guard w = (r0, w0)" by fastforce
  have w0: "open_socks w0 = open_socks w" using keepsD [OF keeps_guard g, of open_socks] by simp
  obtain r1 w1 where m: "m (w0\<lparr>open_socks := open_socks w0 + 1\<rparr>) = (r1, w1)" by fastforce
  have "open_socks w1 = open_socks w + 1" using keepsD [OF assms m] w0 by simp
  then show "open_socks w' = open_socks w"
    using run g m w0
    by (cases r0) (auto simp: new_socket_def sock_close_def sx_bind_def sx_finally_def sx_modify_def)
qed

lemma probe_sweep_keeps_socks: "keeps open_socks (probe_sweep E cs port t True)"
proof -
  have "keeps open_socks (sx_bind (send_probes packet port cs 0)
      (\<lambda>_ w. probe_listen E (clock w + t) w))" for packet
    by (intro keeps_bind keeps_send_probes keeps_listen_window) simp_all
  note body = keeps_owned [OF this]
  show ?thesis
    unfolding probe_sweep_def probe_packet_def if_True by (rule keeps_bind [OF keeps_lift body])
qed

text \<open>Discovery touches nothing but the network, the clock and the cache file.\<close>

definition disc_free :: "(os \<Rightarrow> 'v) \<Rightarrow> bool" where
  "disc_free f \<longleftrightarrow> net_free f \<and> (\<forall>w n. f (w\<lparr>open_socks := n\<rparr>) = f w) \<and> (\<forall>w m. f (w\<lparr>files := m\<rparr>) = f w)"

lemma disc_freeD:
  assumes "disc_free f"
  shows "net_free f" "f (w\<lparr>open_socks := n\<rparr>) = f w" "f (w\<lparr>files := m\<rparr>) = f w"
    "f (w\<lparr>raises := rs\<rparr>) = f w"
  using assms by (simp_all add: disc_free_def net_free_def)

lemma keeps_local_ip:
  assumes "disc_free f"
  shows "keeps f local_ipv4_and_netmask"
  unfolding local_ipv4_and_netmask_def new_socket_def sock_close_def
  by (intro keeps_intros) (simp_all add: disc_freeD [OF assms])

lemma keeps_sweep:
  assumes "disc_free f"
  shows "keeps f (probe_sweep E cs port t owns)"
  unfolding probe_sweep_def probe_packet_def new_socket_def sock_close_def
  by (intro keeps_intros keeps_send_probes keeps_listen_window) (simp_all add: disc_freeD [OF assms])

lemma keeps_broadcast:
  assumes "disc_free f"
  shows "keeps f (probe_broadcast E port t owns)"
  unfolding probe_broadcast_def probe_packet_def new_socket_def sock_close_def bcast_targets_def
  by (intro keeps_intros keeps_send_probes keeps_listen_window keeps_local_ip)
    (simp_all add: disc_freeD [OF assms] assms)

lemma keeps_load_cache:
  assumes "disc_free f"
  shows "keeps f (load_cache path)"
  unfolding load_cache_def read_text_def
  by (intro keeps_intros keepsI) (auto simp: disc_freeD [OF assms] split: option.splits)

lemma keeps_save_cache:
  assumes "disc_free f"
  shows "keeps f (save_cache path h)"
  unfolding save_cache_def write_text_def
  by (intro keeps_intros) (simp_all add: disc_freeD [OF assms])

lemma keeps_clear_cache:
  assumes "disc_free f"
  shows "keeps f (clear_cache path)"
  unfolding clear_cache_def os_remove_def
  by (intro keeps_intros keepsI) (auto simp: disc_freeD [OF assms] split: option.splits)

lemma keeps_resolve_dns:
  assumes "disc_free f"
  shows "keeps f (resolve_dns names)"
proof (induction names)
  case (Cons n ns)
  have "keeps f (gethostbyname n)"
    unfolding gethostbyname_def
    by (intro keeps_intros keepsI) (auto simp: disc_freeD [OF assms] split: option.splits)
  with Cons show ?case by (auto intro!: keeps_intros)
qed (auto intro: keeps_intros)

lemma keeps_discover: "disc_free f \<Longrightarrow> keeps f (discover E path use_cache)"
  unfolding discover_def discover_sweep_def
  by (intro keeps_intros keeps_load_cache keeps_broadcast keeps_save_cache keeps_resolve_dns
      keeps_local_ip keeps_sweep)

lemma inbox_kept: "keeps inbox new_socket" "keeps inbox (send_probes packet port cs n)"
proof -
  show "keeps inbox new_socket" unfolding new_socket_def by (intro keeps_intros) simp_all
  show "keeps inbox (send_probes packet port cs n)"
    by (induction cs arbitrary: n) (auto intro!: keeps_intros simp: sendto_def)
qed

lemma probe_sweep_result:
  assumes "probe_sweep E cs port t True w = (Inr (Some a), w')"
  shows "\<exists>data. (data, a) \<in> set (map snd (inbox w)) \<and> is_probe_reply E data = Inr True"
proof -
  obtain packet u w1 where p: "new_socket w = (Inr u, w1)"
    and fin: "sx_finally (sx_bind (send_probes packet port cs 0)
      (\<lambda>_ w. probe_listen E (clock w + t) w)) sock_close w1 = (Inr (Some a), w')"
    using assms by (auto simp: probe_sweep_def probe_packet_def sx_bind_Inr)
  then obtain n w2 w3 where s: "send_probes packet port cs 0 w1 = (Inr n, w2)"
    and l: "probe_listen E (clock w2 + t) w2 = (Inr (Some a), w3)"
    by (auto simp: sx_finally_def sx_bind_def sock_close_def sx_modify_def split: prod.splits sum.splits)
  have "inbox w1 = inbox w" "inbox w2 = inbox w1"
    using keepsD [OF inbox_kept(1) p] keepsD [OF inbox_kept(2) s] by simp_all
  with probe_listen_sound [OF l] show ?thesis by simp
qed

subsection \<open>Properties of discovery\<close>

text \<open>An Etherbone decoder and a network with one stray datagram and one reply, for the examples.\<close>

definition demo_eb :: etherbone where
  "demo_eb =
     \<lparr>eb_probe = Inr [0x4e, 0x6f, 0x11, 0x44, 0, 0, 0, 0],
      eb_decode = (\<lambda>data. if length data < 8 then Inl AssertionError
        else Inr (uint (data ! 0) * 256 + uint (data ! 1), of_bool (bit (data ! 2) 1))),
      etherbone_magic = 0x4e6f\<rparr>"

definition demo_os :: os where
  "demo_os = blank_os\<lparr>dns := [''b8008'' \<mapsto> ''192.168.1.99''],
      inbox := [(1000, [1, 2, 3], ''192.168.1.77''),
                (2000, [0x4e, 0x6f, 0x12, 0x44, 0, 0, 0, 0], ''192.168.1.50'')]\<rparr>"

lemma demo_decoder: "decoder_ok demo_eb"
  by (simp add: decoder_ok_def demo_eb_def)

lemma demo_listen:
  "listen_ref demo_eb SWEEP_TIMEOUT_US (inbox demo_os) = (Some ''192.168.1.50'', 3000, [])"
  by (simp add: demo_os_def blank_os_def demo_eb_def SWEEP_TIMEOUT_US_def is_probe_reply_def)

text \<open>
  C25. The sweep finds the first valid reply and nothing else. When no call raises, \<^verbatim>\<open>probe_sweep\<close>
  probes every candidate once, and its result is the sender of the first datagram that parses as an
  Etherbone probe reply within \<open>timeout\<close> of the last probe, stray datagrams notwithstanding, or
  \<^verbatim>\<open>None\<close>; later datagrams stay unread and the socket is closed.
\<close>

theorem sweep_first_reply:
  assumes "raises w = []" and "decoder_ok E" and "eb_probe E = Inr packet"
  shows "probe_sweep E cs port timeout True w =
    (case listen_ref E timeout (inbox w) of (r, e, rest) \<Rightarrow>
       (Inr r, w\<lparr>clock := clock w + e, inbox := rest,
                 sent := sent w @ map (\<lambda>c. (packet, c, port)) cs\<rparr>))"
  by (rule probe_sweep_calm [OF assms])

theorem sweep_first_reply_witness:
  "probe_sweep demo_eb [''192.168.1.50'', ''192.168.1.51''] 1234 SWEEP_TIMEOUT_US True demo_os =
     (Inr (Some ''192.168.1.50''), demo_os\<lparr>clock := 3000, inbox := [],
        sent := [([0x4e, 0x6f, 0x11, 0x44, 0, 0, 0, 0], ''192.168.1.50'', 1234),
                 ([0x4e, 0x6f, 0x11, 0x44, 0, 0, 0, 0], ''192.168.1.51'', 1234)]\<rparr>)"
proof -
  have "raises demo_os = []" "eb_probe demo_eb = Inr [0x4e, 0x6f, 0x11, 0x44, 0, 0, 0, 0]"
    by (simp_all add: demo_os_def blank_os_def demo_eb_def)
  note run = sweep_first_reply [OF this(1) demo_decoder this(2)]
  show ?thesis unfolding run demo_listen by (simp add: demo_os_def blank_os_def)
qed

text \<open>
  The sweep is safe whatever raises: on every exit, exceptions included, the socket it opened is
  closed again, and an address it returns is the sender of a datagram that parsed as an Etherbone
  probe reply.
\<close>

theorem sweep_safe:
  assumes "probe_sweep E cs port timeout True w = (r, w')"
  shows "open_socks w' = open_socks w \<and> (\<forall>a. r = Inr (Some a) \<longrightarrow>
    (\<exists>data. (data, a) \<in> set (map snd (inbox w)) \<and> is_probe_reply E data = Inr True))"
  using keepsD [OF probe_sweep_keeps_socks assms] probe_sweep_result assms by blast

text \<open>The first \<^verbatim>\<open>sendto\<close> is interrupted.\<close>

theorem sweep_safe_witness:
  "open_socks (snd (probe_sweep demo_eb [''192.168.1.50''] 1234 SWEEP_TIMEOUT_US True
     (demo_os\<lparr>raises := [None, Some KeyboardInterrupt]\<rparr>))) = 0"
  using sweep_safe [of demo_eb "[''192.168.1.50'']" 1234 SWEEP_TIMEOUT_US
      "demo_os\<lparr>raises := [None, Some KeyboardInterrupt]\<rparr>", OF prod.collapse [symmetric]]
  by (simp add: demo_os_def blank_os_def)

text \<open>
  C24. The order of discovery, when no call raises: \<^verbatim>\<open>discover\<close> returns what the cache holds, else the
  first valid reply to the broadcast probe, else the first name that resolves, else the first valid
  reply to the sweep of the local /24; no socket stays open, and a host that did not come from the
  cache has been written to it.
\<close>

theorem discover_precedence:
  assumes "raises w = []" and "decoder_ok E" and "eb_probe E = Inr packet"
  shows "\<exists>w'. discover E path use_cache w = (Inr (discover_ref E path use_cache w), w') \<and>
    open_socks w' = open_socks w \<and>
    (truthy (discover_ref E path use_cache w) \<and> \<not> (use_cache \<and> cached_host path w \<noteq> None) \<longrightarrow>
       files w' path = Some (strip (the (discover_ref E path use_cache w)) @ [CHR 0x0A]))"
  using discover_calm [OF assms, of path use_cache] by blast

text \<open>The name resolves and the broadcast is answered: the answer wins.\<close>

theorem discover_precedence_witness:
  "first_name (dns demo_os) DNS_NAMES = Some ''192.168.1.99'' \<and>
   (\<exists>w'. discover demo_eb ''cache'' True demo_os = (Inr (Some ''192.168.1.50''), w') \<and>
      open_socks w' = 0 \<and> files w' ''cache'' = Some (''192.168.1.50'' @ [CHR 0x0A]))"
proof
  have calm: "raises demo_os = []" "eb_probe demo_eb = Inr [0x4e, 0x6f, 0x11, 0x44, 0, 0, 0, 0]"
    by (simp_all add: demo_os_def blank_os_def demo_eb_def)
  have "cached_host ''cache'' demo_os = None" by (simp add: cached_host_def demo_os_def blank_os_def)
  then have "discover_ref demo_eb ''cache'' True demo_os = Some ''192.168.1.50''"
    unfolding discover_ref_def demo_listen by (simp add: truthy_def)
  moreover have "strip ''192.168.1.50'' = ''192.168.1.50''"
    by (rule strip_idle) (simp add: py_space_def)
  moreover have "open_socks demo_os = 0" by (simp add: demo_os_def blank_os_def)
  ultimately show "\<exists>w'. discover demo_eb ''cache'' True demo_os = (Inr (Some ''192.168.1.50''), w') \<and>
      open_socks w' = 0 \<and> files w' ''cache'' = Some (''192.168.1.50'' @ [CHR 0x0A])"
    using discover_precedence [OF calm(1) demo_decoder calm(2), of "''cache''" True]
      \<open>cached_host ''cache'' demo_os = None\<close>
    by (auto simp: truthy_def)
qed (simp add: demo_os_def blank_os_def DNS_NAMES_def)

text \<open>
  The cache remembers: a host saved with \<^verbatim>\<open>save_cache\<close> is what \<^verbatim>\<open>load_cache\<close> returns, stripped,
  blank ones as \<^verbatim>\<open>None\<close>; after \<^verbatim>\<open>clear_cache\<close> there is none, and clearing twice is no error.
\<close>

theorem cache_roundtrip:
  assumes "raises w = []" and "CHR 0x0D \<notin> set (strip host)"
  shows "fst (sx_bind (save_cache path host) (\<lambda>_. load_cache path) w) =
      Inr (if strip host = [] then None else Some (strip host)) \<and>
    fst (sx_bind (clear_cache path) (\<lambda>_. sx_bind (clear_cache path) (\<lambda>_. load_cache path)) w) = Inr None"
proof -
  have "univ_newlines (strip host @ [CHR 0x0A]) = strip host @ [CHR 0x0A]"
    using assms(2) by (intro univ_newlines_idle) simp
  then show ?thesis
    using assms(1)
    by (auto simp: sx_bind_def save_cache_calm load_cache_calm cached_host_def strip_newline
        clear_cache_def os_remove_def sx_catch_def sx_return_def split: option.splits)
qed

theorem cache_roundtrip_witness:
  "fst (sx_bind (save_cache ''c'' ''b8008 '') (\<lambda>_. load_cache ''c'') demo_os) = Inr (Some ''b8008'')"
proof -
  have "strip ''b8008 '' = ''b8008''" by (simp add: strip_def py_space_def)
  then show ?thesis
    using cache_roundtrip [of demo_os "''b8008 ''" "''c''"] by (simp add: demo_os_def blank_os_def)
qed

end
