(* ===== verification/Csv.thy ===== *)
theory Csv
  imports Inet Host_Os
begin

text \<open>
  Reading the register map \<^verbatim>\<open>csr.csv\<close>: \<^verbatim>\<open>csv.reader\<close> of the Python library with its default dialect
  (comma, double quote, doubled quotes, not strict) as a state machine over the characters of each
  line, and \<^verbatim>\<open>_read_config_identifier\<close> of \<^verbatim>\<open>src/host/b8008net/board.py\<close>.
\<close>

subsection \<open>The reader\<close>

datatype csv_state = Start_Record | Start_Field | In_Field | In_Quoted | Quote_In_Quoted | Eat_Crnl

record csv_reader =
  csv_st :: csv_state
  csv_field :: string
  csv_row :: "string list"

definition csv_init :: csv_reader where
  "csv_init = \<lparr>csv_st = Start_Record, csv_field = [], csv_row = []\<rparr>"

definition csv_save :: "csv_state \<Rightarrow> csv_reader \<Rightarrow> csv_reader" where
  "csv_save st r = \<lparr>csv_st = st, csv_field = [], csv_row = csv_row r @ [csv_field r]\<rparr>"

definition csv_add :: "char \<Rightarrow> csv_state \<Rightarrow> csv_reader \<Rightarrow> csv_reader" where
  "csv_add c st r = r\<lparr>csv_st := st, csv_field := csv_field r @ [c]\<rparr>"

definition csv_nl :: "char \<Rightarrow> bool" where
  "csv_nl c \<longleftrightarrow> c = CHR 0x0A \<or> c = CHR 0x0D"

text \<open>One character; \<open>None\<close> is the error of a newline inside an unquoted field.\<close>

definition csv_char :: "char \<Rightarrow> csv_reader \<Rightarrow> csv_reader option" where
  "csv_char c r =
     (case csv_st r of
        Start_Record \<Rightarrow>
          if csv_nl c then Some (r\<lparr>csv_st := Eat_Crnl\<rparr>)
          else if c = CHR 0x22 then Some (r\<lparr>csv_st := In_Quoted\<rparr>)
          else if c = CHR '','' then Some (csv_save Start_Field r)
          else Some (csv_add c In_Field r)
      | Start_Field \<Rightarrow>
          if csv_nl c then Some (csv_save Eat_Crnl r)
          else if c = CHR 0x22 then Some (r\<lparr>csv_st := In_Quoted\<rparr>)
          else if c = CHR '','' then Some (csv_save Start_Field r)
          else Some (csv_add c In_Field r)
      | In_Field \<Rightarrow>
          if csv_nl c then Some (csv_save Eat_Crnl r)
          else if c = CHR '','' then Some (csv_save Start_Field r)
          else Some (csv_add c In_Field r)
      | In_Quoted \<Rightarrow>
          if c = CHR 0x22 then Some (r\<lparr>csv_st := Quote_In_Quoted\<rparr>)
          else Some (csv_add c In_Quoted r)
      | Quote_In_Quoted \<Rightarrow>
          if c = CHR 0x22 then Some (csv_add c In_Quoted r)
          else if c = CHR '','' then Some (csv_save Start_Field r)
          else if csv_nl c then Some (csv_save Eat_Crnl r)
          else Some (csv_add c In_Field r)
      | Eat_Crnl \<Rightarrow> if csv_nl c then Some r else None)"

text \<open>The end of a line, after which a record is complete in state \<open>Start_Record\<close>.\<close>

definition csv_eol :: "csv_reader \<Rightarrow> csv_reader" where
  "csv_eol r =
     (case csv_st r of
        Start_Record \<Rightarrow> r
      | In_Quoted \<Rightarrow> r
      | Eat_Crnl \<Rightarrow> r\<lparr>csv_st := Start_Record\<rparr>
      | _ \<Rightarrow> csv_save Start_Record r)"

fun csv_line :: "string \<Rightarrow> csv_reader \<Rightarrow> csv_reader option" where
  "csv_line [] r = Some (csv_eol r)"
| "csv_line (c # cs) r = (case csv_char c r of None \<Rightarrow> None | Some r' \<Rightarrow> csv_line cs r')"

text \<open>Iterating over a text file: its lines, each with its newline.\<close>

fun text_lines :: "string \<Rightarrow> string list" where
  "text_lines [] = []"
| "text_lines (c # cs) =
     (if c = CHR 0x0A then [c] # text_lines cs
      else case text_lines cs of [] \<Rightarrow> [[c]] | l # ls \<Rightarrow> (c # l) # ls)"

definition row_identifier :: "string list \<Rightarrow> string option" where
  "row_identifier row =
     (if 3 \<le> length row \<and> row ! 0 = ''constant'' \<and> row ! 1 = ''config_identifier''
      then Some (row ! 2) else None)"

text \<open>
  The rows of a list of lines, searched as they are produced (the source stops reading at the
  first match): a record goes on over the end of a line inside quotes, and what is left at the end
  of the input is a last row.
\<close>

fun scan_rows :: "csv_reader \<Rightarrow> string list \<Rightarrow> exn + string option" where
  "scan_rows r [] =
     Inr (if csv_field r \<noteq> [] \<or> csv_st r = In_Quoted
          then row_identifier (csv_row (csv_save Start_Record r)) else None)"
| "scan_rows r (l # ls) =
     (case csv_line l r of
        None \<Rightarrow> Inl (OtherException 0)
      | Some r' \<Rightarrow>
          if csv_st r' = Start_Record
          then (case row_identifier (csv_row r') of
                  Some s \<Rightarrow> Inr (Some s)
                | None \<Rightarrow> scan_rows csv_init ls)
          else scan_rows r' ls)"

definition read_config_identifier :: "string \<Rightarrow> (os, string option) sx" where
  "read_config_identifier csr_csv =
     sx_bind (read_text csr_csv) (\<lambda>t.
       sx_lift (scan_rows csv_init
         (filter (\<lambda>r. r \<noteq> [] \<and> r ! 0 \<noteq> CHR ''#'') (text_lines t))))"

subsection \<open>Plain lines\<close>

text \<open>A cell with no comma, quote or newline is read back as it is.\<close>

definition plain :: "string \<Rightarrow> bool" where
  "plain s \<longleftrightarrow> (\<forall>c\<in>set s. c \<noteq> CHR '','' \<and> c \<noteq> CHR 0x22 \<and> \<not> csv_nl c)"

lemma csv_char_plain:
  assumes "c \<noteq> CHR '',''" "c \<noteq> CHR 0x22" "\<not> csv_nl c" "csv_st r \<in> {Start_Record, Start_Field, In_Field}"
  shows "csv_char c r = Some (csv_add c In_Field r)"
  using assms by (auto simp: csv_char_def)

lemma csv_line_field:
  assumes "plain s" "s \<noteq> []" "csv_st r \<in> {Start_Record, Start_Field, In_Field}"
  shows "csv_line (s @ cs) r = csv_line cs (r\<lparr>csv_st := In_Field, csv_field := csv_field r @ s\<rparr>)"
  using assms
proof (induction s arbitrary: r)
  case (Cons c s)
  then have c: "csv_char c r = Some (csv_add c In_Field r)"
    by (intro csv_char_plain) (auto simp: plain_def)
  show ?case
  proof (cases "s = []")
    case True
    with c show ?thesis by (simp add: csv_add_def)
  next
    case False
    have "plain s" using Cons.prems(1) by (simp add: plain_def)
    from Cons.IH [OF this False, of "csv_add c In_Field r"] c show ?thesis
      by (simp add: csv_add_def)
  qed
qed simp

lemma csv_cell:
  assumes "plain s" "csv_st r \<in> {Start_Record, Start_Field}" "csv_field r = []"
    and "c = CHR '','' \<or> csv_nl c" "csv_st r = Start_Record \<longrightarrow> s \<noteq> [] \<or> c = CHR '',''"
  shows "csv_line (s @ c # cs) r = csv_line cs
    \<lparr>csv_st = (if c = CHR '','' then Start_Field else Eat_Crnl), csv_field = [], csv_row = csv_row r @ [s]\<rparr>"
proof (cases "s = []")
  case True
  with assms show ?thesis by (auto simp: csv_char_def csv_save_def csv_nl_def)
next
  case False
  have "csv_st r \<in> {Start_Record, Start_Field, In_Field}" using assms(2) by auto
  from csv_line_field [OF assms(1) False this] assms(3,4) show ?thesis
    by (auto simp: csv_char_def csv_save_def csv_nl_def)
qed

lemma csv_line_cells:
  assumes "\<forall>s\<in>set (s0 # ss). plain s" "csv_st r \<in> {Start_Record, Start_Field}" "csv_field r = []"
    "csv_st r = Start_Record \<longrightarrow> s0 \<noteq> [] \<or> ss \<noteq> []"
  shows "csv_line (join '','' (s0 # ss) @ [CHR 0x0A]) r =
    Some \<lparr>csv_st = Start_Record, csv_field = [], csv_row = csv_row r @ s0 # ss\<rparr>"
  using assms
proof (induction ss arbitrary: s0 r)
  case Nil
  then show ?case
    using csv_cell [of s0 r "CHR 0x0A" "[]"] by (simp add: csv_nl_def csv_eol_def)
next
  case (Cons s1 ss)
  then show ?case
    using csv_cell [of s0 r "CHR '',''" "join '','' (s1 # ss) @ [CHR 0x0A]"]
      Cons.IH [of s1 "\<lparr>csv_st = Start_Field, csv_field = [], csv_row = csv_row r @ [s0]\<rparr>"]
    by simp
qed

lemma text_lines_line:
  "CHR 0x0A \<notin> set s \<Longrightarrow> text_lines (s @ CHR 0x0A # t) = (s @ [CHR 0x0A]) # text_lines t"
  by (induction s) auto

text \<open>A register map as LiteX writes it: rows of plain cells, comment lines starting with a hash.\<close>

definition csv_text :: "string list list \<Rightarrow> string" where
  "csv_text rows = concat (map (\<lambda>row. join '','' row @ [CHR 0x0A]) rows)"

definition csv_plain_row :: "string list \<Rightarrow> bool" where
  "csv_plain_row row \<longleftrightarrow> row \<noteq> [] \<and> row \<noteq> [[]] \<and> (\<forall>s\<in>set row. plain s)"

definition first_identifier :: "string list list \<Rightarrow> string option" where
  "first_identifier rows =
     (case filter (\<lambda>row. row_identifier row \<noteq> None \<and> (hd row = [] \<or> hd (hd row) \<noteq> CHR ''#'')) rows of
        [] \<Rightarrow> None
      | row # _ \<Rightarrow> row_identifier row)"

lemma plain_no_newline: "plain s \<Longrightarrow> CHR 0x0A \<notin> set s \<and> CHR 0x0D \<notin> set s"
  by (auto simp: plain_def csv_nl_def)

lemma join_plain: "\<forall>s\<in>set row. plain s \<Longrightarrow> CHR 0x0A \<notin> set (join '','' row) \<and> CHR 0x0D \<notin> set (join '','' row)"
  by (induction "'',''" row rule: join.induct) (auto dest: plain_no_newline)

lemma text_lines_csv:
  "\<forall>row\<in>set rows. csv_plain_row row \<Longrightarrow>
   text_lines (csv_text rows) = map (\<lambda>row. join '','' row @ [CHR 0x0A]) rows"
proof (induction rows)
  case (Cons row rows)
  then show ?case
    using text_lines_line [of "join '','' row" "csv_text rows"] join_plain [of row]
    by (simp add: csv_text_def csv_plain_row_def)
qed (simp add: csv_text_def)

lemma csv_text_no_cr: "\<forall>row\<in>set rows. csv_plain_row row \<Longrightarrow> CHR 0x0D \<notin> set (csv_text rows)"
  using join_plain by (auto simp: csv_text_def csv_plain_row_def)

lemma scan_rows_plain:
  assumes "\<forall>row\<in>set rows. csv_plain_row row"
  shows "scan_rows csv_init (filter (\<lambda>r. r \<noteq> [] \<and> r ! 0 \<noteq> CHR ''#'')
      (map (\<lambda>row. join '','' row @ [CHR 0x0A]) rows)) = Inr (first_identifier rows)"
  using assms
proof (induction rows)
  case Nil
  then show ?case by (simp add: csv_init_def first_identifier_def)
next
  case (Cons row rows)
  obtain s0 ss where row: "row = s0 # ss" "s0 \<noteq> [] \<or> ss \<noteq> []" "\<forall>s\<in>set (s0 # ss). plain s"
    using Cons.prems by (cases row) (auto simp: csv_plain_row_def)
  let ?line = "join '','' row @ [CHR 0x0A]"
  have line: "csv_line ?line csv_init = Some \<lparr>csv_st = Start_Record, csv_field = [], csv_row = row\<rparr>"
    using csv_line_cells [of s0 ss csv_init] row by (simp add: csv_init_def)
  have head: "?line ! 0 = CHR ''#'' \<longleftrightarrow> s0 \<noteq> [] \<and> hd s0 = CHR ''#''"
    using row(1) by (cases s0; cases ss) auto
  show ?case
  proof (cases "s0 \<noteq> [] \<and> hd s0 = CHR ''#''")
    case True
    with head Cons row show ?thesis by (simp add: first_identifier_def)
  next
    case False
    with head line Cons row(1) show ?thesis
      by (auto simp: first_identifier_def split: option.splits)
  qed
qed

subsection \<open>Property of the register map\<close>

text \<open>
  \<^verbatim>\<open>_read_config_identifier\<close> reads back what the build wrote: for every register map made of rows
  of plain cells, the result is the third cell of the first row that is not a comment and names the
  constant \<^verbatim>\<open>config_identifier\<close>, or \<^verbatim>\<open>None\<close> when there is none.
\<close>

theorem config_identifier_read_back:
  assumes "raises w = []" and "files w path = Some (csv_text rows)"
    and "\<forall>row\<in>set rows. csv_plain_row row"
  shows "read_config_identifier path w = (Inr (first_identifier rows), w)"
  using assms scan_rows_plain [OF assms(3)]
  by (simp add: read_config_identifier_def sx_bind_def read_text_def univ_newlines_idle
      csv_text_no_cr text_lines_csv sx_lift_def)

definition demo_csv :: "string list list" where
  "demo_csv = [[''# SoC''], [''csr_base'', ''b8008_console'', ''0xf0000000'', [], []],
     [''constant'', ''config_identifier'', ''b8008 SoC'', [], []]]"

theorem config_identifier_read_back_witness:
  "read_config_identifier ''csr.csv'' (blank_os\<lparr>files := [''csr.csv'' \<mapsto> csv_text demo_csv]\<rparr>) =
     (Inr (Some ''b8008 SoC''), blank_os\<lparr>files := [''csr.csv'' \<mapsto> csv_text demo_csv]\<rparr>)"
proof -
  have "\<forall>row\<in>set demo_csv. csv_plain_row row"
    by (auto simp: demo_csv_def csv_plain_row_def plain_def csv_nl_def)
  moreover have "first_identifier demo_csv = Some ''b8008 SoC''"
    by (simp add: first_identifier_def demo_csv_def row_identifier_def)
  ultimately show ?thesis
    using config_identifier_read_back
      [of "blank_os\<lparr>files := [''csr.csv'' \<mapsto> csv_text demo_csv]\<rparr>" "''csr.csv''" demo_csv]
    by (simp add: blank_os_def)
qed

end
