(* ===== verification/Board.thy ===== *)
theory Board
  imports Discovery Csv
begin

text \<open>
  Connecting to the board, \<^verbatim>\<open>src/host/b8008net/board.py\<close>: the single-instance lock, the bridge process
  \<^verbatim>\<open>eb_server\<close> and its lifecycle, the identifier check, and \<^verbatim>\<open>Board.connect\<close> with its retry on a stale
  cache. The client class is LiteX's \<^verbatim>\<open>RemoteClient\<close>: \<open>remote_client\<close> holds the calls the code makes of
  it, and the locale \<open>client_frame\<close> what it relies on, that they leave the lock and the processes
  alone.
\<close>

subsection \<open>Constants and objects\<close>

definition LITEX_SERVER_HOST :: string where "LITEX_SERVER_HOST = ''localhost''"
definition LITEX_SERVER_PORT :: int where "LITEX_SERVER_PORT = 1234"
definition SERVER_STARTUP_TIMEOUT_US :: int where "SERVER_STARTUP_TIMEOUT_US = 15000000"
definition SERVER_SHUTDOWN_TIMEOUT_US :: int where "SERVER_SHUTDOWN_TIMEOUT_US = 3000000"

record lock =
  lk_path :: string
  lk_fh :: "nat option"

record remote_client =
  client_new :: "string \<Rightarrow> int \<Rightarrow> string \<Rightarrow> (os, unit) sx"
  client_open :: "(os, unit) sx"
  client_close :: "(os, unit) sx"
  client_read :: "int \<Rightarrow> (os, int) sx"
  identifier_mem :: "int option"

record board =
  board_host :: string
  board_csr_csv :: string
  board_lock :: "lock option"
  board_server_proc :: "nat option"

subsection \<open>The lock\<close>

definition lock_init :: "string \<Rightarrow> lock" where
  "lock_init path = \<lparr>lk_path = path, lk_fh = None\<rparr>"

definition lock_acquire :: "lock \<Rightarrow> (os, lock) sx" where
  "lock_acquire l =
     sx_bind (open_fd (lk_path l)) (\<lambda>fh.
       sx_bind (sx_catch is_OSError (flock_ex_nb (lk_path l) fh)
                  (\<lambda>_. sx_bind (close_fd (lk_path l) fh) (\<lambda>_. sx_raise BoardBusy))) (\<lambda>_.
         sx_return (l\<lparr>lk_fh := Some fh\<rparr>)))"

definition lock_release :: "lock \<Rightarrow> (os, lock) sx" where
  "lock_release l =
     (case lk_fh l of
        None \<Rightarrow> sx_return l
      | Some fh \<Rightarrow>
          sx_bind (flock_un (lk_path l) fh) (\<lambda>_.
            sx_bind (close_fd (lk_path l) fh) (\<lambda>_. sx_return (l\<lparr>lk_fh := None\<rparr>))))"

definition acquire_lock :: "string \<Rightarrow> (os, lock) sx" where
  "acquire_lock path = lock_acquire (lock_init path)"

subsection \<open>The bridge process\<close>

definition port_listening :: "(os, bool) sx" where
  "port_listening =
     sx_catch is_OSError (sx_bind create_connection (\<lambda>_. sx_return True)) (\<lambda>_. sx_return False)"

definition spawn_litex_server :: "string \<Rightarrow> (os, nat) sx" where
  "spawn_litex_server host = popen"

definition terminate_server :: "nat \<Rightarrow> (os, unit) sx" where
  "terminate_server pid =
     sx_catch (\<lambda>e. e = TimeoutExpired) (proc_wait_timeout pid SERVER_SHUTDOWN_TIMEOUT_US)
       (\<lambda>_. proc_kill_wait pid)"

lemma listening_clock: "port_listening w = (r, w') \<Longrightarrow> clock w \<le> clock w'"
  by (auto simp: port_listening_def create_connection_def sx_defs guard_def
      split: list.splits option.splits if_splits)

lemma sleep_clock: "sleep t w = (Inr u, w') \<Longrightarrow> clock w' = clock w + max 0 t"
  by (auto simp: sleep_def sx_defs guard_def split: list.splits option.splits)

lemma wait_round:
  "port_listening w = (r, w1) \<Longrightarrow> sleep 100000 w1 = (Inr u, w2) \<Longrightarrow> clock w + 100000 \<le> clock w2"
  using listening_clock [of w r w1] sleep_clock [of 100000 w1 u w2] by simp

text \<open>The wait for the bridge to listen: \<open>False\<close> is the \<^verbatim>\<open>else\<close> of the \<^verbatim>\<open>while\<close>.\<close>

function wait_listening :: "int \<Rightarrow> (os, bool) sx" where
  "wait_listening deadline w =
     (if clock w < deadline
      then case port_listening w of
          (Inl e, w1) \<Rightarrow> (Inl e, w1)
        | (Inr up, w1) \<Rightarrow>
            if up then (Inr True, w1)
            else (case sleep 100000 w1 of
                    (Inl e, w2) \<Rightarrow> (Inl e, w2)
                  | (Inr _, w2) \<Rightarrow> wait_listening deadline w2)
      else (Inr False, w))"
  by pat_completeness auto
termination
  by (relation "measure (\<lambda>(deadline, w). nat (deadline - clock w))")
    (auto dest!: wait_round [OF sym sym])

declare wait_listening.simps [simp del]

subsection \<open>The identifier\<close>

fun read_chars :: "remote_client \<Rightarrow> int \<Rightarrow> nat \<Rightarrow> nat \<Rightarrow> (os, string) sx" where
  "read_chars C base i 0 = sx_return []"
| "read_chars C base i (Suc n) =
     sx_bind (client_read C (base + 4 * int i)) (\<lambda>v.
       let c = v AND 0xFF in
       if c = 0 then sx_return []
       else sx_bind (read_chars C base (Suc i) n) (\<lambda>cs. sx_return (char_of (nat c) # cs)))"

definition read_identifier :: "remote_client \<Rightarrow> (os, string option) sx" where
  "read_identifier C =
     (case identifier_mem C of
        None \<Rightarrow> sx_return None
      | Some base \<Rightarrow> sx_bind (read_chars C base 0 256) (\<lambda>s. sx_return (Some s)))"

definition board_identifier :: "remote_client \<Rightarrow> (os, string) sx" where
  "board_identifier C =
     sx_bind (read_identifier C) (\<lambda>s. sx_return (case s of None \<Rightarrow> [] | Some t \<Rightarrow> t))"

subsection \<open>Closing\<close>

definition board_close :: "remote_client \<Rightarrow> board \<Rightarrow> (os, board) sx" where
  "board_close C b =
     sx_bind (client_close C) (\<lambda>_.
       sx_bind (case board_server_proc b of
                  None \<Rightarrow> sx_return b
                | Some pid \<Rightarrow> sx_bind (terminate_server pid) (\<lambda>_. sx_return (b\<lparr>board_server_proc := None\<rparr>))) (\<lambda>b1.
         case board_lock b1 of
           None \<Rightarrow> sx_return b1
         | Some l \<Rightarrow> sx_bind (lock_release l) (\<lambda>_. sx_return (b1\<lparr>board_lock := None\<rparr>))))"

subsection \<open>Connecting\<close>

text \<open>
  The \<^verbatim>\<open>try\<close> of \<^verbatim>\<open>_connect_to\<close> runs on the machine together with the local variables the handler
  reads: whether a client was made, and the process spawned.
\<close>

record locals =
  loc_client :: bool
  loc_server_proc :: "nat option"

type_synonym frame = "os \<times> locals"

definition set_client :: "(frame, unit) sx" where
  "set_client s = (Inr (), fst s, (snd s)\<lparr>loc_client := True\<rparr>)"

definition set_server_proc :: "nat \<Rightarrow> (frame, unit) sx" where
  "set_server_proc pid s = (Inr (), fst s, (snd s)\<lparr>loc_server_proc := Some pid\<rparr>)"

definition start_server :: "string \<Rightarrow> (frame, unit) sx" where
  "start_server host =
     sx_bind (on_os port_listening) (\<lambda>up.
       if up then sx_return ()
       else sx_bind (on_os (spawn_litex_server host)) (\<lambda>pid.
         sx_bind (set_server_proc pid) (\<lambda>_.
           sx_bind (on_os (\<lambda>w. wait_listening (clock w + SERVER_STARTUP_TIMEOUT_US) w)) (\<lambda>ok.
             if ok then sx_return () else sx_raise RuntimeError))))"

definition mismatch_warning :: "string \<Rightarrow> string \<Rightarrow> string" where
  "mismatch_warning actual expected =
     ''WARNING: board identifier '' @ py_repr actual @ '' does not match csr.csv identifier '' @ py_repr expected @
     '' -- board may be running different firmware than this csr.csv describes.''"

definition check_identifier :: "remote_client \<Rightarrow> string \<Rightarrow> (os, unit) sx" where
  "check_identifier C csr_csv =
     sx_bind (read_config_identifier csr_csv) (\<lambda>expected.
       sx_bind (board_identifier C) (\<lambda>actual.
         case expected of
           None \<Rightarrow> sx_return ()
         | Some x \<Rightarrow>
             if actual \<noteq> [] \<and> actual \<noteq> x then eprint (mismatch_warning actual x) else sx_return ()))"

definition connect_body ::
    "remote_client \<Rightarrow> string \<Rightarrow> string \<Rightarrow> string \<Rightarrow> int \<Rightarrow> (frame, unit) sx" where
  "connect_body C csr_csv host server_host server_port =
     sx_bind (start_server host) (\<lambda>_.
       sx_bind (on_os (client_new C server_host server_port csr_csv)) (\<lambda>_.
         sx_bind set_client (\<lambda>_.
           sx_bind (on_os (client_open C)) (\<lambda>_. on_os (check_identifier C csr_csv)))))"

definition connect_cleanup :: "remote_client \<Rightarrow> locals \<Rightarrow> lock \<Rightarrow> (os, unit) sx" where
  "connect_cleanup C loc l =
     sx_bind (if loc_client loc
              then sx_catch is_Exception (client_close C) (\<lambda>_. sx_return ())
              else sx_return ()) (\<lambda>_.
       sx_bind (case loc_server_proc loc of
                  None \<Rightarrow> sx_return ()
                | Some pid \<Rightarrow> terminate_server pid) (\<lambda>_.
         sx_bind (lock_release l) (\<lambda>_. sx_return ())))"

definition connect_to ::
    "remote_client \<Rightarrow> string \<Rightarrow> string \<Rightarrow> string \<Rightarrow> string \<Rightarrow> int \<Rightarrow> (os, board) sx" where
  "connect_to C csr_csv host lock_path server_host server_port =
     sx_bind (acquire_lock lock_path) (\<lambda>l w.
       case connect_body C csr_csv host server_host server_port
              (w, \<lparr>loc_client = False, loc_server_proc = None\<rparr>) of
         (Inr _, w', loc) \<Rightarrow>
           (Inr \<lparr>board_host = host, board_csr_csv = csr_csv, board_lock = Some l,
                 board_server_proc = loc_server_proc loc\<rparr>, w')
       | (Inl e, w', loc) \<Rightarrow>
           if is_Exception e
           then sx_bind (connect_cleanup C loc l) (\<lambda>_. sx_raise e) w'
           else (Inl e, w'))"

text \<open>The host to try first, and whether it came from the cache.\<close>

definition pick_host ::
    "etherbone \<Rightarrow> string option \<Rightarrow> string \<Rightarrow> bool \<Rightarrow> (os, string \<times> bool) sx" where
  "pick_host E host cache_path use_cache =
     (case host of
        Some h \<Rightarrow> sx_return (h, False)
      | None \<Rightarrow>
          sx_bind (if use_cache then load_cache cache_path else sx_return None) (\<lambda>cached.
            case cached of
              Some h \<Rightarrow> sx_return (h, True)
            | None \<Rightarrow>
                sx_bind (discover E cache_path False) (\<lambda>found.
                  case found of
                    None \<Rightarrow> sx_raise RuntimeError
                  | Some h \<Rightarrow> sx_return (h, False))))"

definition board_connect ::
    "etherbone \<Rightarrow> remote_client \<Rightarrow> string \<Rightarrow> string option \<Rightarrow> string \<Rightarrow> string \<Rightarrow> int \<Rightarrow> string \<Rightarrow> bool \<Rightarrow>
     (os, board) sx" where
  "board_connect E C csr_csv host lock_path server_host server_port cache_path use_cache =
     sx_bind (pick_host E host cache_path use_cache) (\<lambda>(h, from_cache).
       sx_catch (\<lambda>e. is_Exception e \<and> e \<noteq> BoardBusy)
         (connect_to C csr_csv h lock_path server_host server_port)
         (\<lambda>e. if \<not> from_cache then sx_raise e
              else sx_bind (clear_cache cache_path) (\<lambda>_.
                sx_bind (discover E cache_path False) (\<lambda>retried.
                  case retried of
                    None \<Rightarrow> sx_raise e
                  | Some h' \<Rightarrow> connect_to C csr_csv h' lock_path server_host server_port))))"

subsection \<open>Resources\<close>

text \<open>
  \<open>host_part\<close> is what the lock and the processes live in; \<open>held\<close> is what a run must give back: who
  holds which lock, the open files and the running children. In a \<open>sane\<close> state the identifiers in
  use are older than the next one.
\<close>

definition host_part :: "os \<Rightarrow> (string \<Rightarrow> nat option) \<times> nat list \<times> (nat \<Rightarrow> pstate option) \<times> nat" where
  "host_part w = (flocks w, open_fds w, procs w, next_id w)"

definition held :: "os \<Rightarrow> (string \<Rightarrow> nat option) \<times> nat list \<times> nat set" where
  "held w = (flocks w, open_fds w, {pid. procs w pid = Some Running})"

definition sane :: "os \<Rightarrow> bool" where
  "sane w \<longleftrightarrow>
     (\<forall>p h. flocks w p = Some h \<longrightarrow> h < next_id w) \<and> (\<forall>pid. procs w pid \<noteq> None \<longrightarrow> pid < next_id w)"

lemma host_part_raises [simp]: "host_part (w\<lparr>raises := rs\<rparr>) = host_part w"
  by (simp add: host_part_def)

lemma keeps_read_text: "keeps host_part (read_text p)"
  unfolding read_text_def by (intro keeps_intros) (auto simp: keeps_def split: option.splits)

lemma keeps_port_listening: "keeps host_part port_listening"
  unfolding port_listening_def create_connection_def
  by (intro keeps_intros) (auto simp: keeps_def host_part_def split: list.splits if_splits)

lemma keeps_sleep: "keeps host_part (sleep t)"
  unfolding sleep_def by (intro keeps_intros) (simp_all add: host_part_def)

lemma keeps_eprint: "keeps host_part (eprint t)"
  unfolding eprint_def by (intro keeps_intros) (simp_all add: host_part_def)

lemma keeps_read_config: "keeps host_part (read_config_identifier p)"
  unfolding read_config_identifier_def by (intro keeps_intros keeps_read_text)

lemma keeps_wait_listening: "keeps host_part (wait_listening deadline)"
proof (rule keepsI)
  fix w r w'
  assume "wait_listening deadline w = (r, w')"
  then show "host_part w' = host_part w"
  proof (induction "nat (deadline - clock w)" arbitrary: w rule: less_induct)
    case less
    obtain r1 w1 where l: "port_listening w = (r1, w1)" by fastforce
    obtain r2 w2 where s: "sleep 100000 w1 = (r2, w2)" by fastforce
    note k = keepsD [OF keeps_port_listening l] keepsD [OF keeps_sleep s] listening_clock [OF l]
    consider (stop) "w' = w \<or> w' = w1 \<or> w' = w2"
      | (again) "clock w < deadline" "r2 = Inr ()" "wait_listening deadline w2 = (r, w')"
      using less.prems l s
      by (subst (asm) wait_listening.simps) (auto split: if_splits sum.splits)
    then show ?case
    proof cases
      case again
      then have "nat (deadline - clock w2) < nat (deadline - clock w)"
        using wait_round [OF l, of "()" w2] s by simp
      from less.hyps [OF this again(3)] k show ?thesis by simp
    qed (use k in auto)
  qed
qed

lemma acquire_Inr:
  assumes "sane w" "acquire_lock p w = (Inr l, w')"
  shows "l = \<lparr>lk_path = p, lk_fh = Some (next_id w)\<rparr> \<and> flocks w p = None \<and>
    host_part w' = ((flocks w)(p \<mapsto> next_id w), next_id w # open_fds w, procs w, Suc (next_id w))"
  using assms
  by (auto simp: acquire_lock_def lock_acquire_def lock_init_def open_fd_def flock_ex_nb_def close_fd_def
      flock_un_def sx_defs guard_def may_raise_def host_part_def sane_def
      split: list.splits option.splits if_splits)

lemma sane_mono:
  "sane w \<Longrightarrow> flocks w' = flocks w \<Longrightarrow> next_id w \<le> next_id w' \<Longrightarrow>
   \<forall>pid. procs w' pid \<noteq> None \<longrightarrow> procs w pid \<noteq> None \<or> pid < next_id w' \<Longrightarrow> sane w'"
  by (fastforce simp: sane_def)

lemma acquire_Inl:
  assumes "sane w" "acquire_lock p w = (Inl e, w')" "is_Exception e"
  shows "held w' = held w \<and> sane w'"
proof -
  have "flocks w' = flocks w" "open_fds w' = open_fds w" "procs w' = procs w" "next_id w \<le> next_id w'"
    using assms
    by (auto simp: acquire_lock_def lock_acquire_def lock_init_def open_fd_def flock_ex_nb_def close_fd_def
        flock_un_def sx_defs guard_def may_raise_def sane_def dest: is_OSError_is_Exception
        split: list.splits option.splits if_splits)
  then show ?thesis using sane_mono [OF assms(1)] by (simp add: held_def)
qed

lemma release_eq:
  "lock_release \<lparr>lk_path = p, lk_fh = Some fd\<rparr> w =
     (Inr \<lparr>lk_path = p, lk_fh = None\<rparr>,
      w\<lparr>flocks := (if flocks w p = Some fd then (flocks w)(p := None) else flocks w),
        open_fds := remove1 fd (open_fds w)\<rparr>)"
  by (simp add: lock_release_def flock_un_def close_fd_def sx_defs)

lemma terminate_Inr:
  "terminate_server pid w = (Inr u, w') \<Longrightarrow>
   host_part w' = (flocks w, open_fds w, (procs w)(pid \<mapsto> Reaped), next_id w)"
  by (auto simp: terminate_server_def proc_wait_timeout_def proc_kill_wait_def sx_defs may_raise_def
      host_part_def split: list.splits option.splits bool.splits if_splits)

lemma terminate_Inl: "terminate_server pid w = (Inl e, w') \<Longrightarrow> \<not> is_Exception e"
  by (auto simp: terminate_server_def proc_wait_timeout_def proc_kill_wait_def sx_defs may_raise_def
      split: list.splits option.splits bool.splits if_splits)

subsection \<open>The connection attempt\<close>

text \<open>What the handler of \<^verbatim>\<open>_connect_to\<close> may rely on: the process it knows of is the one running.\<close>

definition frame_part :: "frame \<Rightarrow> _" where
  "frame_part s = (host_part (fst s), loc_server_proc (snd s))"

lemma keeps_on_os: "keeps host_part m \<Longrightarrow> keeps frame_part (on_os m)"
  by (auto simp: keeps_def on_os_def frame_part_def split: prod.splits) (metis snd_conv)

lemma keeps_set_client: "keeps frame_part set_client"
  by (simp add: keeps_def set_client_def frame_part_def)

definition spawned :: "os \<Rightarrow> frame \<Rightarrow> bool" where
  "spawned w s \<longleftrightarrow>
     frame_part s = (host_part w, None) \<or>
     frame_part s = ((flocks w, open_fds w, (procs w)(next_id w \<mapsto> Running), Suc (next_id w)), Some (next_id w))"

lemma start_server_spawned:
  assumes "start_server host (w, \<lparr>loc_client = False, loc_server_proc = None\<rparr>) = (r, s)"
  shows "spawned w s"
proof -
  let ?l = "\<lparr>loc_client = False, loc_server_proc = None\<rparr>"
  obtain r1 w1 where l: "port_listening w = (r1, w1)" by fastforce
  have w1: "host_part w1 = host_part w" by (rule keepsD [OF keeps_port_listening l])
  show ?thesis
  proof (cases "r1 = Inr False")
    case False
    then have "s = (w1, ?l)"
      using assms l by (auto simp: start_server_def sx_bind_def on_os_def sx_return_def split: sum.splits)
    then show ?thesis using w1 by (simp add: spawned_def frame_part_def)
  next
    case True
    obtain r2 w2 where sp: "popen w1 = (r2, w2)" by fastforce
    show ?thesis
    proof (cases r2)
      case (Inl e)
      then have "s = (w2, ?l)" "host_part w2 = host_part w1"
        using assms l True sp keepsD [OF keeps_guard, of host_part]
        by (auto simp: start_server_def sx_bind_def on_os_def spawn_litex_server_def popen_def
            split: sum.splits prod.splits)
      then show ?thesis using w1 by (simp add: spawned_def frame_part_def)
    next
      case (Inr pid)
      then have w2: "pid = next_id w" "host_part w2 =
          (flocks w, open_fds w, (procs w)(next_id w \<mapsto> Running), Suc (next_id w))"
        using sp w1 by (auto simp: popen_def sx_bind_def guard_def host_part_def
            split: list.splits option.splits)
      obtain r3 w3 where wt: "wait_listening (clock w2 + SERVER_STARTUP_TIMEOUT_US) w2 = (r3, w3)"
        by fastforce
      have "s = (w3, \<lparr>loc_client = False, loc_server_proc = Some pid\<rparr>)"
        using assms l True sp Inr wt
        by (auto simp: start_server_def sx_bind_def on_os_def spawn_litex_server_def set_server_proc_def
            sx_return_def sx_raise_def split: sum.splits if_splits)
      then show ?thesis
        using w2 keepsD [OF keeps_wait_listening wt] by (simp add: spawned_def frame_part_def)
    qed
  qed
qed

locale client_frame =
  fixes C :: remote_client
  assumes keeps_new: "keeps host_part (client_new C h p c)"
    and keeps_open: "keeps host_part (client_open C)"
    and keeps_close: "keeps host_part (client_close C)"
    and keeps_read: "keeps host_part (client_read C a)"
begin

lemma keeps_read_chars: "keeps host_part (read_chars C base i n)"
  by (induction n arbitrary: i) (auto intro!: keeps_intros keeps_read simp: Let_def)

lemma keeps_check: "keeps host_part (check_identifier C p)"
  unfolding check_identifier_def board_identifier_def read_identifier_def
  by (intro keeps_intros keeps_read_config keeps_read_chars keeps_eprint)

lemma body_spawned:
  assumes "connect_body C csv host sh sp (w, \<lparr>loc_client = False, loc_server_proc = None\<rparr>) = (r, s)"
  shows "spawned w s"
proof -
  let ?rest = "sx_bind (on_os (client_new C sh sp csv)) (\<lambda>_.
      sx_bind set_client (\<lambda>_. sx_bind (on_os (client_open C)) (\<lambda>_. on_os (check_identifier C csv))))"
  obtain r1 s1 where st: "start_server host (w, \<lparr>loc_client = False, loc_server_proc = None\<rparr>) = (r1, s1)"
    by (rule prod.exhaust)
  have rest: "keeps frame_part ?rest"
    by (intro keeps_bind keeps_on_os keeps_set_client keeps_new keeps_open keeps_check)
  have "frame_part s = frame_part s1"
    using assms st keepsD [OF rest]
    by (cases r1) (auto simp: connect_body_def sx_bind_def [of "start_server host"])
  then show ?thesis using start_server_spawned [OF st] by (simp add: spawned_def)
qed

lemma cleanup_Inl:
  "connect_cleanup C loc \<lparr>lk_path = p, lk_fh = Some fd\<rparr> w = (Inl e, w') \<Longrightarrow> \<not> is_Exception e"
  by (auto simp: connect_cleanup_def sx_bind_Inl sx_catch_def release_eq dest: terminate_Inl
      split: if_splits option.splits sum.splits prod.splits)

lemma cleanup_Inr:
  assumes "connect_cleanup C loc \<lparr>lk_path = p, lk_fh = Some fd\<rparr> w = (Inr u, w')"
  shows "host_part w' =
    (if flocks w p = Some fd then (flocks w)(p := None) else flocks w, remove1 fd (open_fds w),
     case loc_server_proc loc of None \<Rightarrow> procs w | Some pid \<Rightarrow> (procs w)(pid \<mapsto> Reaped), next_id w)"
proof -
  let ?close = "if loc_client loc then sx_catch is_Exception (client_close C) (\<lambda>_. sx_return ()) else sx_return ()"
  obtain u1 w1 u2 w2 where c: "?close w = (Inr u1, w1)"
    and t: "(case loc_server_proc loc of None \<Rightarrow> sx_return () | Some pid \<Rightarrow> terminate_server pid) w1 = (Inr u2, w2)"
    and l: "lock_release \<lparr>lk_path = p, lk_fh = Some fd\<rparr> w2 = (Inr \<lparr>lk_path = p, lk_fh = None\<rparr>, w')"
    using assms by (auto simp: connect_cleanup_def sx_bind_Inr release_eq)
  have "keeps host_part ?close" by (intro keeps_intros keeps_close)
  from keepsD [OF this c] have "host_part w1 = host_part w" .
  then show ?thesis
    using t l terminate_Inr by (fastforce simp: release_eq host_part_def split: option.splits)
qed

lemma connect_to_Inr:
  assumes "sane w" "connect_to C csv host p sh sp w = (Inr b, w')"
  shows "flocks w p = None \<and> board_lock b = Some \<lparr>lk_path = p, lk_fh = Some (next_id w)\<rparr> \<and>
    flocks w' = (flocks w)(p \<mapsto> next_id w) \<and> open_fds w' = next_id w # open_fds w \<and>
    (board_server_proc b = None \<and> procs w' = procs w \<or>
     board_server_proc b = Some (Suc (next_id w)) \<and> procs w' = (procs w)(Suc (next_id w) \<mapsto> Running))"
proof -
  obtain l w1 where a: "acquire_lock p w = (Inr l, w1)"
    using assms(2) by (auto simp: connect_to_def sx_bind_Inr)
  obtain r s where body: "connect_body C csv host sh sp
      (w1, \<lparr>loc_client = False, loc_server_proc = None\<rparr>) = (r, s)" by (rule prod.exhaust)
  have b: "b = \<lparr>board_host = host, board_csr_csv = csv, board_lock = Some l,
      board_server_proc = loc_server_proc (snd s)\<rparr>" "w' = fst s"
    using assms(2) a body
    by (cases r; cases s; auto simp: connect_to_def sx_bind_def [of "acquire_lock p"] sx_bind_Inr split: if_splits)+
  show ?thesis
    using acquire_Inr [OF assms(1) a] body_spawned [OF body] b
    by (auto simp: spawned_def frame_part_def host_part_def)
qed

lemma connect_to_Inl:
  assumes "sane w" "connect_to C csv host p sh sp w = (Inl e, w')" "is_Exception e"
  shows "held w' = held w \<and> sane w'"
proof (cases "\<exists>e1 w1. acquire_lock p w = (Inl e1, w1)")
  case True
  then show ?thesis
    using acquire_Inl [OF assms(1) _ assms(3)] assms(2) by (auto simp: connect_to_def sx_bind_def)
next
  case False
  then obtain l w1 where a: "acquire_lock p w = (Inr l, w1)" by (metis old.sum.exhaust surj_pair)
  obtain r w2 loc where body: "connect_body C csv host sh sp
      (w1, \<lparr>loc_client = False, loc_server_proc = None\<rparr>) = (r, w2, loc)" by (metis surj_pair)
  obtain e1 where r: "r = Inl e1" "(if is_Exception e1 then
      sx_bind (connect_cleanup C loc l) (\<lambda>_. sx_raise e1) w2 else (Inl e1, w2)) = (Inl e :: exn + board, w')"
    using assms(2) a body by (cases r) (auto simp: connect_to_def sx_bind_def [of "acquire_lock p"])
  note l = acquire_Inr [OF assms(1) a]
  have "is_Exception e1" using r(2) assms(3) by (auto split: if_splits)
  with r(2) have "sx_bind (connect_cleanup C loc l) (\<lambda>_. sx_raise e1) w2 = (Inl e :: exn + board, w')"
    by simp
  moreover have "connect_cleanup C loc l w2 \<noteq> (Inl e, w')"
    using cleanup_Inl [of loc p "next_id w" w2 e w'] assms(3) l by auto
  ultimately obtain u where c: "connect_cleanup C loc l w2 = (Inr u, w')"
    by (auto simp: sx_bind_Inl)
  let ?n = "next_id w"
  have idle: "(flocks w)(p := None) = flocks w" using l by (simp add: fun_upd_idem)
  have old: "procs w (Suc ?n) \<noteq> Some Running" using assms(1) by (force simp: sane_def)
  have w1: "flocks w1 = (flocks w)(p \<mapsto> ?n)" "open_fds w1 = ?n # open_fds w" "procs w1 = procs w"
    "next_id w1 = Suc ?n" "l = \<lparr>lk_path = p, lk_fh = Some ?n\<rparr>"
    using l by (simp_all add: host_part_def)
  consider (none) "loc_server_proc loc = None" "flocks w2 = flocks w1" "open_fds w2 = open_fds w1"
      "procs w2 = procs w1" "next_id w2 = next_id w1"
    | (some) "loc_server_proc loc = Some (Suc ?n)" "flocks w2 = flocks w1" "open_fds w2 = open_fds w1"
      "procs w2 = (procs w1)(Suc ?n \<mapsto> Running)" "next_id w2 = Suc (Suc ?n)"
    using body_spawned [OF body] w1(4) by (auto simp: spawned_def frame_part_def host_part_def)
  then have "held w' = held w" "flocks w' = flocks w" "next_id w \<le> next_id w'"
    "\<forall>pid. procs w' pid \<noteq> None \<longrightarrow> procs w pid \<noteq> None \<or> pid < next_id w'"
    using cleanup_Inr [OF c [unfolded w1(5)]]
    by (cases; use old in \<open>auto simp: w1 idle held_def host_part_def split: if_splits\<close>)+
  then show ?thesis using sane_mono [OF assms(1)] by simp
qed

lemma close_Inr:
  assumes "board_close C b w = (Inr b', w')" "board_lock b = Some \<lparr>lk_path = p, lk_fh = Some fd\<rparr>"
  shows "board_lock b' = None \<and> board_server_proc b' = None \<and>
    flocks w' = (if flocks w p = Some fd then (flocks w)(p := None) else flocks w) \<and>
    open_fds w' = remove1 fd (open_fds w) \<and>
    procs w' = (case board_server_proc b of None \<Rightarrow> procs w | Some pid \<Rightarrow> (procs w)(pid \<mapsto> Reaped))"
proof -
  obtain u1 w1 where c: "client_close C w = (Inr u1, w1)"
    using assms(1) by (auto simp: board_close_def sx_bind_Inr)
  have "host_part w1 = host_part w" by (rule keepsD [OF keeps_close c])
  then show ?thesis
    using assms c terminate_Inr
    by (fastforce simp: board_close_def sx_bind_Inr release_eq host_part_def split: option.splits)
qed

end

text \<open>A client that talks to a board with a given identifier; every call may raise.\<close>

definition ident_client :: "string \<Rightarrow> remote_client" where
  "ident_client ident =
     \<lparr>client_new = (\<lambda>h p c. guard), client_open = guard, client_close = guard,
      client_read = (\<lambda>a. sx_bind guard (\<lambda>_.
        sx_return (let i = nat (a div 4) in if i < length ident then of_char (ident ! i) else 0))),
      identifier_mem = Some 0\<rparr>"

lemma ident_client_sel [simp]:
  "client_new (ident_client ident) h p c = guard" "client_open (ident_client ident) = guard"
  "client_close (ident_client ident) = guard" "identifier_mem (ident_client ident) = Some 0"
  by (simp_all add: ident_client_def)

interpretation ident: client_frame "ident_client s"
  by unfold_locales (auto simp: ident_client_def intro!: keeps_intros)

lemma sane_blank: "sane blank_os"
  by (simp add: sane_def blank_os_def)

subsection \<open>The identifier memory\<close>

lemma of_char_0_iff: "(of_char c :: int) = 0 \<longleftrightarrow> c = CHR 0x00"
  by (cases c) simp

lemma read_chars_string:
  assumes "\<And>i. client_read C (base + 4 * int i) w = (Inr (v i), w)"
    and "\<forall>i<length s. v (k + i) AND 0xFF = of_char (s ! i)" and "CHR 0x00 \<notin> set s"
    and "length s \<le> n" and "length s < n \<longrightarrow> v (k + length s) AND 0xFF = 0"
  shows "read_chars C base k n w = (Inr s, w)"
  using assms(2-5)
proof (induction s arbitrary: k n)
  case Nil
  then show ?case using assms(1) by (cases n) (auto simp: sx_bind_def)
next
  case (Cons c s)
  obtain m where n: "n = Suc m" using Cons.prems(3) by (cases n) auto
  have "\<forall>i<length s. v (Suc k + i) AND 0xFF = of_char (s ! i)"
    using Cons.prems(1) by (metis Suc_less_eq add_Suc_shift length_Cons nth_Cons_Suc)
  then have "read_chars C base (Suc k) m w = (Inr s, w)"
    using Cons.prems n by (intro Cons.IH) auto
  moreover have "v k AND 0xFF = of_char c" using Cons.prems(1) by force
  moreover have "(of_char c :: int) \<noteq> 0" using Cons.prems(2) of_char_0_iff by auto
  ultimately show ?case using assms(1) [of k] by (simp add: n sx_bind_def Let_def)
qed

text \<open>Each identifier character of \<open>ident_client\<close>, followed by zeros.\<close>

lemma ident_client_reads:
  assumes "raises w = []" "length ident \<le> 256" "CHR 0x00 \<notin> set ident"
  shows "read_chars (ident_client ident) 0 0 256 w = (Inr ident, w)"
proof (rule read_chars_string)
  let ?v = "\<lambda>i. if i < length ident then of_char (ident ! i) else (0 :: int)"
  show "client_read (ident_client ident) (0 + 4 * int i) w = (Inr (?v i), w)" for i
    using assms(1) by (simp add: ident_client_def sx_bind_def sx_return_def Let_def)
  have "(of_char c :: int) AND 0xFF = of_char c" for c
    by (simp add: int_and_255 take_bit_eq_mod)
  then show "\<forall>i<length ident. ?v (0 + i) AND 0xFF = of_char (ident ! i)" by simp
qed (use assms in simp_all)

subsection \<open>Retrying\<close>
lemma disc_free_host_part: "disc_free host_part"
  by (simp add: disc_free_def net_free_def host_part_def)

lemma keeps_held: "keeps host_part m \<Longrightarrow> m w = (r, w') \<Longrightarrow> held w' = held w \<and> sane w' = sane w"
  using keepsD [of host_part m w r w'] by (simp add: held_def sane_def host_part_def)

context client_frame
begin

text \<open>A connect ends before any attempt or with one, from a state in which nothing is held.\<close>

lemma connect_last_attempt:
  assumes "sane w" "board_connect E C csv host p sh sp cp uc w = (r, w')"
  shows "\<exists>v. held v = held w \<and> sane v \<and>
    (v = w' \<and> (\<exists>e. r = Inl e) \<or> (\<exists>h. connect_to C csv h p sh sp v = (r, w')))"
proof -
  have pick: "keeps host_part (pick_host E host cp uc)"
    unfolding pick_host_def
    by (intro keeps_intros keeps_load_cache keeps_discover disc_free_host_part)
  have again: "keeps host_part (clear_cache cp)" "keeps host_part (discover E cp False)"
    by (intro keeps_clear_cache keeps_discover disc_free_host_part)+
  obtain rp w1 where ph: "pick_host E host cp uc w = (rp, w1)" by (rule prod.exhaust)
  have w1: "held w1 = held w" "sane w1" using keeps_held [OF pick ph] assms(1) by simp_all
  show ?thesis
  proof (cases rp)
    case (Inl x)
    with assms(2) ph w1 show ?thesis by (auto simp: board_connect_def sx_bind_def)
  next
    case (Inr hf)
    obtain h fc where hf: "hf = (h, fc)" by (rule prod.exhaust)
    obtain r2 w2 where c1: "connect_to C csv h p sh sp w1 = (r2, w2)" by (rule prod.exhaust)
    show ?thesis
    proof (cases "\<exists>e. r2 = Inl e \<and> is_Exception e \<and> e \<noteq> BoardBusy \<and> fc")
      case False
      then have "r2 = r" "w' = w2"
        using assms(2) ph c1 Inr hf
        by (auto simp: board_connect_def sx_bind_def sx_catch_def split: if_splits sum.splits)
      with c1 w1 show ?thesis by blast
    next
      case True
      then obtain e where e: "r2 = Inl e" "is_Exception e" "e \<noteq> BoardBusy" "fc" by blast
      then have w2: "held w2 = held w" "sane w2" using connect_to_Inl [OF w1(2)] c1 w1(1) by auto
      obtain r3 w3 where cl: "clear_cache cp w2 = (r3, w3)" by (rule prod.exhaust)
      obtain r4 w4 where di: "discover E cp False w3 = (r4, w4)" by (rule prod.exhaust)
      have w34: "held w3 = held w" "sane w3" "held w4 = held w" "sane w4"
        using keeps_held [OF again(1) cl] keeps_held [OF again(2) di] w2 by simp_all
      have "w' = w3 \<and> (\<exists>e. r = Inl e) \<or> w' = w4 \<and> (\<exists>e. r = Inl e) \<or> (\<exists>h'. connect_to C csv h' p sh sp w4 = (r, w'))"
        using assms(2) ph c1 Inr hf e cl di
        by (auto simp: board_connect_def sx_bind_def sx_catch_def sx_raise_def
            split: sum.splits option.splits)
      then show ?thesis using w34 by blast
    qed
  qed
qed

lemma connect_Inl:
  assumes "sane w" "board_connect E C csv host p sh sp cp uc w = (Inl e, w')" "is_Exception e"
  shows "held w' = held w"
  using connect_last_attempt [OF assms(1,2)] connect_to_Inl assms(3) by metis

text \<open>What happens between connect and close must leave the resources alone.\<close>

lemma session_balanced:
  assumes "sane w" "connect_to C csv host p sh sp w = (Inr b, w1)" "host_part w2 = host_part w1"
    and "board_close C b w2 = (Inr b', w3)"
  shows "flocks w p = None \<and> flocks w1 p \<noteq> None \<and> held w3 = held w \<and>
    board_lock b' = None \<and> board_server_proc b' = None"
proof -
  note c = connect_to_Inr [OF assms(1,2)]
  have "procs w (Suc (next_id w)) \<noteq> Some Running" using assms(1) by (force simp: sane_def)
  then show ?thesis
    using c close_Inr [OF assms(4), of p "next_id w"] assms(3)
    by (auto simp: held_def host_part_def fun_upd_idem split: if_splits)
qed

lemma keeps_identifier: "keeps host_part (board_identifier C)"
  unfolding board_identifier_def read_identifier_def by (intro keeps_intros keeps_read_chars)

lemma close_Inl:
  assumes "board_close C b w = (Inl e, w')" "is_Exception e"
  shows "\<exists>w1. client_close C w = (Inl e, w1)"
proof -
  have "lock_release l v \<noteq> (Inl x, v')" for l v x v'
    by (auto simp: lock_release_def flock_un_def close_fd_def sx_defs split: option.splits)
  then show ?thesis
    using assms terminate_Inl
    by (auto simp: board_close_def sx_bind_Inl split: option.splits)
qed

end

subsection \<open>Properties of the connection\<close>

text \<open>
  C10. A failed connect gives everything back. Whatever the arguments and whichever call fails, when
  \<^verbatim>\<open>Board.connect\<close> raises an \<^verbatim>\<open>Exception\<close>, the retry after a stale cache included, every lock is
  held by whom it was held before, no file stays open, and no process it spawned is running.
\<close>

theorem connect_failure_releases:
  assumes "client_frame C" and "sane w"
    and "board_connect E C csr_csv host lock server_host server_port cache use_cache w = (Inl e, w')"
    and "is_Exception e"
  shows "held w' = held w"
  by (rule client_frame.connect_Inl [OF assms])

text \<open>
  Waiting for the bridge fails with an \<^verbatim>\<open>OSError\<close> after it was spawned: it ignores \<^verbatim>\<open>SIGTERM\<close>, is
  killed and reaped, and the lock is free again.
\<close>

lemmas board_eval =
  board_connect_def pick_host_def connect_to_def connect_body_def start_server_def connect_cleanup_def
  board_close_def acquire_lock_def lock_acquire_def lock_init_def open_fd_def flock_ex_nb_def
  flock_un_def close_fd_def
  port_listening_def create_connection_def spawn_litex_server_def popen_def set_server_proc_def
  set_client_def on_os_def terminate_server_def proc_wait_timeout_def proc_kill_wait_def release_eq
  sleep_def guard_def may_raise_def sx_defs blank_os_def
  SERVER_STARTUP_TIMEOUT_US_def SERVER_SHUTDOWN_TIMEOUT_US_def

definition failing_os :: os where
  "failing_os = blank_os\<lparr>raises := [None, None, None, None, None, Some OSError]\<rparr>"

theorem connect_failure_releases_witness:
  "\<exists>w'. board_connect demo_eb (ident_client ''b8008'') ''csr.csv'' (Some ''b'') ''lock''
       LITEX_SERVER_HOST LITEX_SERVER_PORT ''cache'' True failing_os = (Inl OSError, w') \<and>
     procs w' 2 = Some Reaped \<and> held w' = held failing_os"
proof -
  obtain w' where run: "board_connect demo_eb (ident_client ''b8008'') ''csr.csv'' (Some ''b'') ''lock''
       LITEX_SERVER_HOST LITEX_SERVER_PORT ''cache'' True failing_os = (Inl OSError, w')"
    and reaped: "procs w' 2 = Some Reaped"
    by (simp add: failing_os_def board_eval wait_listening.simps)
  have "sane failing_os" using sane_blank by (simp add: failing_os_def sane_def)
  from connect_failure_releases [OF ident.client_frame_axioms this run] reaped run show ?thesis by auto
qed

text \<open>
  C26. Connect and close balance: after a successful attempt the board holds the lock, and
  \<^verbatim>\<open>Board.close\<close>, when it returns, leaves the locks, the open files and the running processes as they
  were before the connection, the bridge included, which is reaped even if it ignores \<^verbatim>\<open>SIGTERM\<close>.
\<close>

theorem connect_close_balanced:
  assumes "client_frame C" and "sane w"
    and "connect_to C csr_csv host lock server_host server_port w = (Inr b, w1)"
    and "board_close C b w1 = (Inr b', w2)"
  shows "flocks w lock = None \<and> flocks w1 lock \<noteq> None \<and> held w2 = held w \<and>
    board_lock b' = None \<and> board_server_proc b' = None"
  by (rule client_frame.session_balanced [OF assms(1-3) refl assms(4)])

definition working_os :: os where
  "working_os = blank_os\<lparr>listening := [(200000, False), (0, False), (0, True)], exits := [True],
     files := [''csr.csv'' \<mapsto> []]\<rparr>"

lemma ident_b8008: "raises w = [] \<Longrightarrow> board_identifier (ident_client ''b8008'') w = (Inr ''b8008'', w)"
  using ident_client_reads [of w "''b8008''"]
  by (simp add: board_identifier_def read_identifier_def sx_bind_def sx_return_def)

theorem connect_close_balanced_witness:
  "\<exists>b w1 b' w2. connect_to (ident_client ''b8008'') ''csr.csv'' ''b'' ''lock'' LITEX_SERVER_HOST
       LITEX_SERVER_PORT working_os = (Inr b, w1) \<and> procs w1 2 = Some Running \<and>
     board_close (ident_client ''b8008'') b w1 = (Inr b', w2) \<and> held w2 = held working_os"
proof -
  let ?C = "ident_client ''b8008''"
  obtain b w1 where run: "connect_to ?C ''csr.csv'' ''b'' ''lock'' LITEX_SERVER_HOST
       LITEX_SERVER_PORT working_os = (Inr b, w1)" "procs w1 2 = Some Running"
      "\<exists>b' w2. board_close ?C b w1 = (Inr b', w2)"
    using ident_b8008
    by (simp add: working_os_def board_eval wait_listening.simps check_identifier_def
        read_config_identifier_def read_text_def csv_init_def sx_lift_def)
  then obtain b' w2 where close: "board_close ?C b w1 = (Inr b', w2)" by blast
  have "sane working_os" using sane_blank by (simp add: working_os_def sane_def)
  from connect_close_balanced [OF ident.client_frame_axioms this run(1) close] run(1,2) close
  show ?thesis by auto
qed

text \<open>
  C32. One instance at a time: once \<^verbatim>\<open>acquire_lock\<close> has succeeded, a second attempt on the same path
  raises \<^verbatim>\<open>BoardBusy\<close> and leaves the holder and the open files alone, in the same process too; after
  \<^verbatim>\<open>release\<close> the lock can be taken again.
\<close>

theorem lock_exclusive:
  assumes "sane w" and "acquire_lock path w = (Inr l, w1)" and "raises w1 = []"
  shows "fst (acquire_lock path w1) = Inl BoardBusy \<and> held (snd (acquire_lock path w1)) = held w1 \<and>
    (\<exists>l'. fst (acquire_lock path (snd (lock_release l w1))) = Inr l')"
proof -
  note a = acquire_Inr [OF assms(1,2)]
  then have f: "flocks w1 path = Some (next_id w)" "next_id w1 \<noteq> next_id w"
    by (auto simp: host_part_def)
  then show ?thesis
    using a assms(3)
    by (auto simp: acquire_lock_def lock_acquire_def lock_init_def open_fd_def flock_ex_nb_def
        close_fd_def flock_un_def sx_defs held_def release_eq)
qed

theorem lock_exclusive_witness:
  "let w1 = snd (acquire_lock ''lock'' blank_os) in
   fst (acquire_lock ''lock'' w1) = Inl BoardBusy \<and> held (snd (acquire_lock ''lock'' w1)) = held w1"
proof -
  obtain l w1 where run: "acquire_lock ''lock'' blank_os = (Inr l, w1)" "raises w1 = []"
    by (simp add: board_eval)
  from lock_exclusive [OF sane_blank run] run(1) show ?thesis by simp
qed

text \<open>
  A host given by the caller is never second-guessed: one attempt at it, with no cache, no discovery
  and no retry, on every branch.
\<close>

lemma explicit_host:
  "board_connect E C csr_csv (Some h) lock server_host server_port cache use_cache =
     connect_to C csr_csv h lock server_host server_port"
proof
  fix w
  show "board_connect E C csr_csv (Some h) lock server_host server_port cache use_cache w =
      connect_to C csr_csv h lock server_host server_port w"
    by (auto simp: board_connect_def pick_host_def sx_catch_def sx_raise_def split: prod.splits sum.splits)
qed

text \<open>
  \<^verbatim>\<open>BoardBusy\<close> is never retried: when the first attempt finds the lock taken, \<^verbatim>\<open>Board.connect\<close>
  raises \<^verbatim>\<open>BoardBusy\<close> from that very state; the cache is not cleared and nothing is sent, even when
  the host came from the cache.
\<close>

theorem busy_not_retried:
  assumes "raises w = []" and "cached_host cache w = Some h"
    and "connect_to C csr_csv h lock server_host server_port w = (Inl BoardBusy, w')"
  shows "board_connect E C csr_csv None lock server_host server_port cache True w = (Inl BoardBusy, w')"
  using assms
  by (simp add: board_connect_def pick_host_def sx_bind_def sx_catch_def load_cache_calm sx_return_def)

definition busy_os :: os where
  "busy_os = blank_os\<lparr>files := [''cache'' \<mapsto> ''b8008''], flocks := [''lock'' \<mapsto> 0]\<rparr>"

theorem busy_not_retried_witness:
  "let w' = snd (connect_to (ident_client ''b'') ''csr.csv'' ''b8008'' ''lock'' [] 1 busy_os) in
   board_connect demo_eb (ident_client ''b'') ''csr.csv'' None ''lock'' [] 1 ''cache'' True busy_os =
     (Inl BoardBusy, w') \<and> files w' ''cache'' = Some ''b8008'' \<and> sent w' = []"
proof -
  have "strip ''b8008'' = ''b8008''" by (rule strip_idle) (simp add: py_space_def)
  then have h: "raises busy_os = []" "cached_host ''cache'' busy_os = Some ''b8008''"
    by (simp_all add: busy_os_def blank_os_def cached_host_def)
  obtain w' where run: "connect_to (ident_client ''b'') ''csr.csv'' ''b8008'' ''lock'' [] 1 busy_os =
      (Inl BoardBusy, w')" "files w' ''cache'' = Some ''b8008''" "sent w' = []"
    by (simp add: busy_os_def board_eval)
  from busy_not_retried [OF h run(1), of demo_eb] run show ?thesis by simp
qed


definition stale_os :: os where
  "stale_os = demo_os\<lparr>files := [''cache'' \<mapsto> ''b8008''], listening := [(0, True), (0, True)]\<rparr>"


lemma listening_span:
  assumes "port_listening w = (r, w')" and "\<forall>x \<in> set (listening w). fst x \<le> T" and "0 \<le> T"
  shows "clock w' \<le> clock w + T \<and> (\<forall>x \<in> set (listening w'). fst x \<le> T)"
  using assms
  by (auto simp: port_listening_def create_connection_def sx_defs guard_def
      split: list.splits option.splits if_splits)
    (metis fst_conv)+

lemma sleep_listening: "sleep t w = (r, w') \<Longrightarrow> listening w' = listening w"
  by (auto simp: sleep_def sx_defs guard_def split: list.splits option.splits)

lemma wait_span:
  assumes "wait_listening deadline w = (Inr False, w')" and "\<forall>x \<in> set (listening w). fst x \<le> T" and "0 \<le> T"
    and "clock w < deadline + T + 100000"
  shows "deadline \<le> clock w' \<and> clock w' < deadline + T + 100000"
  using assms
proof (induction "nat (deadline - clock w)" arbitrary: w rule: less_induct)
  case less
  show ?case
  proof (cases "clock w < deadline")
    case True
    obtain r1 w1 where l: "port_listening w = (r1, w1)" by (rule prod.exhaust)
    obtain r2 w2 where s: "sleep 100000 w1 = (r2, w2)" by (rule prod.exhaust)
    have again: "r2 = Inr ()" "wait_listening deadline w2 = (Inr False, w')"
      using less.prems(1) True l s
      by (subst (asm) wait_listening.simps, auto split: if_splits sum.splits)+
    have span: "clock w1 \<le> clock w + T" "\<forall>x \<in> set (listening w1). fst x \<le> T"
      using listening_span [OF l less.prems(2,3)] by simp_all
    show ?thesis
    proof (rule less.hyps [OF _ again(2) _ less.prems(3)])
      show "nat (deadline - clock w2) < nat (deadline - clock w)"
        using wait_round [OF l, of "()" w2] s again(1) True by simp
      show "\<forall>x \<in> set (listening w2). fst x \<le> T" using span(2) sleep_listening [OF s] by simp
      show "clock w2 < deadline + T + 100000"
        using sleep_clock [of 100000 w1 "()" w2] s again(1) span(1) True by simp
    qed
  next
    case False
    then show ?thesis using less.prems by (simp add: wait_listening.simps)
  qed
qed

text \<open>
  C33. The bridge is given its time and no more: the wait for the port ends, and it gives up only once
  the deadline is reached, at most one connection attempt and one pause of 0.1 s after it. With
  attempts of at most \<open>T\<close> microseconds, \<^verbatim>\<open>_connect_to\<close> therefore reports a dead bridge between 15 s
  and 15.1 s + \<open>T\<close> after it spawned it.
\<close>

theorem server_startup_bounded:
  assumes "\<forall>x \<in> set (listening w). fst x \<le> T" and "0 \<le> T"
    and "wait_listening (clock w + SERVER_STARTUP_TIMEOUT_US) w = (Inr False, w')"
  shows "clock w + 15000000 \<le> clock w' \<and> clock w' < clock w + 15100000 + T"
  using wait_span [OF assms(3,1,2)] assms(2) by (simp add: SERVER_STARTUP_TIMEOUT_US_def)

lemma wait_refused: "raises w = [] \<Longrightarrow> listening w = [] \<Longrightarrow> \<exists>w'. wait_listening deadline w = (Inr False, w')"
  by (induction "nat (deadline - clock w)" arbitrary: w rule: less_induct)
    (subst wait_listening.simps, simp add: port_listening_def create_connection_def sleep_def sx_defs)

theorem server_startup_bounded_witness:
  "\<exists>w'. wait_listening SERVER_STARTUP_TIMEOUT_US blank_os = (Inr False, w') \<and>
     15000000 \<le> clock w' \<and> clock w' < 15100000"
proof -
  obtain w' where "wait_listening SERVER_STARTUP_TIMEOUT_US blank_os = (Inr False, w')"
    using wait_refused [of blank_os] by (auto simp: blank_os_def)
  then show ?thesis using server_startup_bounded [of blank_os 0 w'] by (simp add: blank_os_def)
qed

text \<open>
  The identifier survives the wire: when the words at \<^verbatim>\<open>identifier_mem\<close> carry the characters of a
  string of at most 256 characters, none of them NUL, one per word in its low byte, followed by a NUL
  where there is room, \<^verbatim>\<open>Board.identifier\<close> returns exactly that string, whatever the upper bits hold.
\<close>

theorem identifier_read_back:
  assumes "identifier_mem C = Some base" and "\<And>i. client_read C (base + 4 * int i) w = (Inr (v i), w)"
    and "\<forall>i<length s. v i AND 0xFF = of_char (s ! i)" and "CHR 0x00 \<notin> set s"
    and "length s \<le> 256" and "length s < 256 \<longrightarrow> v (length s) AND 0xFF = 0"
  shows "board_identifier C w = (Inr s, w)"
proof -
  have "read_chars C base 0 256 w = (Inr s, w)"
    using assms(3-6) by (intro read_chars_string [OF assms(2)]) simp_all
  then show ?thesis
    using assms(1) by (simp add: board_identifier_def read_identifier_def sx_bind_def sx_return_def)
qed

definition noisy_client :: remote_client where
  "noisy_client = (ident_client [])\<lparr>client_read :=
     (\<lambda>a. sx_return (if a = 0 then 0x562 else if a = 4 then 0x138 else 0x700))\<rparr>"

theorem identifier_read_back_witness: "board_identifier noisy_client blank_os = (Inr ''b8'', blank_os)"
proof (rule identifier_read_back)
  let ?v = "\<lambda>i :: nat. if i = 0 then 0x562 else if i = 1 then 0x138 else 0x700 :: int"
  show "client_read noisy_client (0 + 4 * int i) blank_os = (Inr (?v i), blank_os)" for i
    by (simp add: noisy_client_def sx_return_def)
  show "\<forall>i<length ''b8''. ?v i AND 0xFF = of_char (''b8'' ! i)"
    by (simp add: less_Suc_eq int_and_255)
qed (simp_all add: noisy_client_def int_and_255)


text \<open>
  \<^verbatim>\<open>Board.close\<close> gives up half-way: when closing the client raises, the bridge it spawned keeps
  running and the lock stays held.
\<close>

theorem close_failure_leaks:
  "\<exists>b w1 w2. connect_to (ident_client ''b8008'') ''csr.csv'' ''b'' ''lock'' LITEX_SERVER_HOST
       LITEX_SERVER_PORT working_os = (Inr b, w1) \<and>
     board_close (ident_client ''b8008'') b (w1\<lparr>raises := [Some OSError]\<rparr>) = (Inl OSError, w2) \<and>
     flocks w2 ''lock'' \<noteq> None \<and> procs w2 2 = Some Running"
  using ident_b8008
  by (simp add: working_os_def board_eval wait_listening.simps check_identifier_def
      read_config_identifier_def read_text_def csv_init_def sx_lift_def)

end
