(* ===== verification/Cli.thy ===== *)
theory Cli
  imports Board Console
begin

text \<open>
  The command line, \<^verbatim>\<open>src/host/b8008net/cli.py\<close>: the commands \<^verbatim>\<open>status\<close> and \<^verbatim>\<open>login\<close> over discovery,
  \<open>Board\<close> and the console, with what they print and how they release what they took.

  The arguments are those the parser produces. The console registers and the terminal are the
  operations of \<open>Console\<close>, on the operating system of \<open>Host_Os\<close>.
\<close>

subsection \<open>Arguments\<close>

definition DEFAULT_CSR_CSV :: string where "DEFAULT_CSR_CSV = ''build/versa/csr.csv''"
definition RTT_DEFAULT_READS :: nat where "RTT_DEFAULT_READS = 50"

record args =
  arg_csr :: string
  arg_host :: "string option"
  arg_no_cache :: bool

record status_args = args +
  arg_rtt :: bool

text \<open>The default paths of the lock and the cache, in the home directory.\<close>

record paths =
  lock_path :: string
  cache_path :: string

subsection \<open>Status\<close>

definition connect_args :: "etherbone \<Rightarrow> remote_client \<Rightarrow> paths \<Rightarrow> 'a args_scheme \<Rightarrow> (os, board) sx" where
  "connect_args E C P args =
     board_connect E C (arg_csr args) (arg_host args) (lock_path P) LITEX_SERVER_HOST LITEX_SERVER_PORT
       (cache_path P) (\<not> arg_no_cache args)"

fun read_many :: "(os, 'z) console_board_scheme \<Rightarrow> nat \<Rightarrow> (os, unit) sx" where
  "read_many B 0 = sx_return ()"
| "read_many B (Suc n) = sx_bind (console_tx_read B) (\<lambda>_. read_many B n)"

text \<open>The average as elapsed time and number of reads.\<close>

definition measure_rtt :: "(os, 'z) console_board_scheme \<Rightarrow> nat \<Rightarrow> (os, int \<times> nat) sx" where
  "measure_rtt B reads =
     sx_bind (sx_get clock) (\<lambda>start.
       sx_bind (read_many B reads) (\<lambda>_.
         sx_bind (sx_get clock) (\<lambda>end. sx_return (end - start, reads))))"

text \<open>
  \<^verbatim>\<open>{rtt * 1000:.2f}\<close>, in hundredths of a millisecond: the exact quotient, rounded to nearest, ties to
  even.
\<close>

definition round_div :: "int \<Rightarrow> int \<Rightarrow> int" where
  "round_div a d =
     (let q = a div d; r = a mod d in
      if 2 * r < d \<or> 2 * r = d \<and> even q then q else q + 1)"

definition format_ms :: "int \<times> nat \<Rightarrow> string" where
  "format_ms rtt =
     (let n = nat (round_div (fst rtt) (10 * int (snd rtt)))
      in dec_nat (n div 100) @ ''.'' @ [digit_char (n div 10 mod 10), digit_char (n mod 10)])"

definition close_board :: "remote_client \<Rightarrow> board \<Rightarrow> (os, unit) sx" where
  "close_board C b = sx_bind (board_close C b) (\<lambda>_. sx_return ())"

definition status_report ::
    "remote_client \<Rightarrow> (os, 'z) console_board_scheme \<Rightarrow> 'a status_args_scheme \<Rightarrow> board \<Rightarrow> (os, unit) sx" where
  "status_report C B args board =
     sx_bind (board_identifier C) (\<lambda>ident.
       sx_bind (print_out (''identifier:  '' @ ident)) (\<lambda>_.
         sx_bind (print_out (''board host:  '' @ board_host board)) (\<lambda>_.
           if arg_rtt args
           then sx_bind (measure_rtt B RTT_DEFAULT_READS) (\<lambda>rtt.
             print_out (''avg CSR read RTT: '' @ format_ms rtt @ '' ms ('' @ dec_nat RTT_DEFAULT_READS @ '' reads)''))
           else sx_return ())))"

definition cmd_status ::
    "etherbone \<Rightarrow> remote_client \<Rightarrow> (os, 'z) console_board_scheme \<Rightarrow> paths \<Rightarrow> 'a status_args_scheme \<Rightarrow> (os, int) sx" where
  "cmd_status E C B P args =
     sx_bind (connect_args E C P args) (\<lambda>board.
       sx_bind (sx_finally (status_report C B args board) (close_board C board)) (\<lambda>_. sx_return 0))"

subsection \<open>Login\<close>

definition subnet_line :: "(os, string) sx" where
  "subnet_line =
     sx_catch is_OSError
       (sx_bind local_ipv4_and_netmask (\<lambda>(ip, netmask).
          sx_bind (sx_lift (subnet_candidates ip netmask)) (\<lambda>candidates.
            sx_return (if candidates \<noteq> []
              then ''  subnet swept: '' @ hd candidates @ ''-'' @ last candidates @ '' ('' @
                   dec_nat (length candidates) @ '' host(s), netmask '' @ netmask @
                   '', from this machine'' @ [CHR 0x27] @ ''s address '' @ ip @ '')''
              else ''  subnet swept: no other hosts on '' @ ip @ ''/'' @ netmask))))
       (\<lambda>_. sx_return (''  subnet swept: none -- could not determine this machine'' @ [CHR 0x27] @
              ''s own IPv4 address/route (no network connectivity?)''))"

definition failure_error :: string where
  "failure_error =
     ''error: could not find the board on the network (no cached host, DNS lookup failed, and the probe sweep got no reply).''"

definition failure_hint :: string where
  "failure_hint =
     ''  is the board powered on, plugged into this LAN, and has it had time to acquire a DHCP lease? Once you know its address, `--host <ip>` (or `make login HOST=<ip>`) skips discovery entirely.''"

definition discovery_failure_message :: "(os, string) sx" where
  "discovery_failure_message =
     sx_bind subnet_line (\<lambda>subnet.
       sx_return (join [CHR 0x0A]
         [failure_error, ''  DNS names tried: '' @ join '', '' DNS_NAMES, subnet, failure_hint]))"

definition connected_line :: "string \<Rightarrow> string \<Rightarrow> string" where
  "connected_line host ident =
     ''-- connected: '' @ host @ ''  (identifier: '' @ py_repr ident @ '') --''"

text \<open>
  The session on a connected board, with the \<^verbatim>\<open>finally\<close> that closes it; \<open>None\<close> when the console never
  ends.
\<close>

definition login_session ::
    "remote_client \<Rightarrow> (os, 't, 'z) console_tty_scheme \<Rightarrow> board \<Rightarrow> os \<Rightarrow> ((exn + int) \<times> os) option" where
  "login_session C T board w =
     (case (case sx_bind (board_identifier C) (\<lambda>ident. eprint (connected_line (board_host board) ident)) w of
              (Inl e, w1) \<Rightarrow> Some (Inl e, w1)
            | (Inr _, w1) \<Rightarrow> console_loop T w1) of
        None \<Rightarrow> None
      | Some (r, w2) \<Rightarrow>
          Some (case close_board C board w2 of
            (Inl e, w3) \<Rightarrow> (Inl e, w3)
          | (Inr _, w3) \<Rightarrow> (case r of Inl e \<Rightarrow> Inl e | Inr _ \<Rightarrow> Inr 0, w3)))"

definition login_connect ::
    "etherbone \<Rightarrow> remote_client \<Rightarrow> (os, 't, 'z) console_tty_scheme \<Rightarrow> paths \<Rightarrow> 'a args_scheme \<Rightarrow> string \<Rightarrow>
     os \<Rightarrow> ((exn + int) \<times> os) option" where
  "login_connect E C T P args host w =
     (case board_connect E C (arg_csr args) (Some host) (lock_path P) LITEX_SERVER_HOST LITEX_SERVER_PORT
             (cache_path P) (\<not> arg_no_cache args) w of
        (Inl e, w1) \<Rightarrow> Some (Inl e, w1)
      | (Inr board, w1) \<Rightarrow> login_session C T board w1)"

definition cmd_login ::
    "etherbone \<Rightarrow> remote_client \<Rightarrow> (os, 't, 'z) console_tty_scheme \<Rightarrow> paths \<Rightarrow> 'a args_scheme \<Rightarrow>
     os \<Rightarrow> ((exn + int) \<times> os) option" where
  "cmd_login E C T P args w =
     (case arg_host args of
        Some host \<Rightarrow> login_connect E C T P args host w
      | None \<Rightarrow>
          (case discover E (cache_path P) (\<not> arg_no_cache args) w of
             (Inl e, w1) \<Rightarrow> Some (Inl e, w1)
           | (Inr None, w1) \<Rightarrow>
               Some (sx_bind discovery_failure_message (\<lambda>msg. sx_bind (eprint msg) (\<lambda>_. sx_return 1)) w1)
           | (Inr (Some host), w1) \<Rightarrow> login_connect E C T P args host w1))"

subsection \<open>What a session leaves alone\<close>

text \<open>The register, stream and terminal operations touch no lock, no file and no process.\<close>

definition tty_frame :: "(os, 't, 'z) console_tty_scheme \<Rightarrow> bool" where
  "tty_frame T \<longleftrightarrow>
     keeps host_part (console_rx_read T) \<and> (\<forall>v. keeps host_part (console_rx_pop_write T v)) \<and>
     keeps host_part (console_tx_read T) \<and> (\<forall>v. keeps host_part (console_tx_data_write T v)) \<and>
     keeps host_part (console_err_read T) \<and> (\<forall>v. keeps host_part (console_err_clear_write T v)) \<and>
     (\<forall>t. keeps host_part (sleep_us T t)) \<and> (\<forall>m. keeps host_part (stderr_print T m)) \<and>
     (\<forall>bs. keeps host_part (stdout_write T bs)) \<and>
     (case stdout_flush T of None \<Rightarrow> True | Some flush \<Rightarrow> keeps host_part flush) \<and>
     (\<forall>n. keeps host_part (stdin_read T n)) \<and> keeps host_part (select_stdin T) \<and>
     keeps host_part (tty_tcgetattr T) \<and> keeps host_part (tty_setraw T) \<and>
     (\<forall>t. keeps host_part (tty_tcsetattr T t))"

lemma tty_frameD:
  assumes "tty_frame T"
  shows "keeps host_part (console_rx_read T)" "keeps host_part (console_rx_pop_write T v)"
    "keeps host_part (console_tx_read T)" "keeps host_part (console_tx_data_write T v)"
    "keeps host_part (console_err_read T)" "keeps host_part (console_err_clear_write T v)"
    "keeps host_part (sleep_us T t)" "keeps host_part (stderr_print T m)" "keeps host_part (stdout_write T bs)"
    "stdout_flush T = Some flush \<Longrightarrow> keeps host_part flush"
    "keeps host_part (stdin_read T n)" "keeps host_part (select_stdin T)"
    "keeps host_part (tty_tcgetattr T)" "keeps host_part (tty_setraw T)" "keeps host_part (tty_tcsetattr T st)"
  using assms by (auto simp: tty_frame_def)

lemma keeps_pump: "tty_frame T \<Longrightarrow> keeps host_part (console_pump T ready)"
proof -
  assume T: "tty_frame T"
  have "keeps host_part (case stdout_flush T of None \<Rightarrow> sx_return () | Some flush \<Rightarrow> flush)"
    using tty_frameD(10) [OF T] by (auto intro: keeps_intros split: option.splits)
  then have out: "keeps host_part (pump_output T)"
    unfolding pump_output_def
    by (intro keeps_bind keeps_if keeps_return keeps_drain tty_frameD(1,2,9) [OF T])
  show ?thesis
    unfolding console_pump_def pump_errors_def pump_keys_def check_errors_def report_errors_def
      send_and_report_def report_dropped_def
    by (intro keeps_intros tty_frameD [OF T] out keeps_send)
qed

lemma pump_loop_step:
  assumes T: "tty_frame T" and IH: "\<And>w y. f T w = Some y \<Longrightarrow> host_part (snd y) = host_part w"
    and run: "(case select_stdin T w of (Inl e, w1) \<Rightarrow> Some (Inl e, w1)
      | (Inr ready, w1) \<Rightarrow> (case console_pump T ready w1 of (Inl e, w2) \<Rightarrow> Some (Inl e, w2)
         | (Inr go, w2) \<Rightarrow> if go then f T w2 else Some (Inr (), w2))) = Some y"
  shows "host_part (snd y) = host_part w"
proof -
  obtain r1 w1 where sel: "select_stdin T w = (r1, w1)" by (rule prod.exhaust)
  note k1 = keepsD [OF tty_frameD(12) [OF T] sel]
  show ?thesis
  proof (cases r1)
    case (Inl e)
    with run sel k1 show ?thesis by auto
  next
    case (Inr ready)
    obtain r2 w2 where pump: "console_pump T ready w1 = (r2, w2)" by (rule prod.exhaust)
    note k2 = keepsD [OF keeps_pump [OF T] pump]
    from run sel Inr pump have "snd y = w2 \<or> f T w2 = Some y" by (auto split: sum.splits if_splits)
    with IH [of w2 y] k1 k2 show ?thesis by auto
  qed
qed

lemma pump_loop_frame:
  assumes "tty_frame T" "pump_loop T w = Some (r, w')"
  shows "host_part w' = host_part w"
proof -
  have "tty_frame T \<longrightarrow> host_part (snd (r, w')) = host_part w"
    by (rule pump_loop.raw_induct [OF _ assms(2)]) (use pump_loop_step in blast)
  then show ?thesis using assms(1) by simp
qed

lemma console_loop_frame:
  assumes "tty_frame T" "console_loop T w = Some (r, w')"
  shows "host_part w' = host_part w"
proof -
  note T = tty_frameD [OF assms(1)]
  obtain r1 w1 where g: "tty_tcgetattr T w = (r1, w1)" by (rule prod.exhaust)
  obtain r2 w2 where b: "sx_bind (tty_setraw T) (\<lambda>_. stderr_print T console_banner) w1 = (r2, w2)" by (rule prod.exhaust)
  have k: "host_part w1 = host_part w" "host_part w2 = host_part w1"
    using keepsD [OF T(13) g] keepsD [OF keeps_bind [OF T(14) T(8)] b] by simp_all
  show ?thesis
  proof (cases r1)
    case (Inl e)
    then show ?thesis using assms(2) g k by (auto simp: console_loop_def)
  next
    case (Inr st)
    have "\<exists>r3 w3. host_part w3 = host_part w2 \<and> (\<exists>r4. tty_tcsetattr T st w3 = (r4, w'))"
      using assms(2) g b Inr pump_loop_frame [OF assms(1), of w2]
      by (auto simp: console_loop_def split: sum.splits option.splits prod.splits)
    then show ?thesis using k keepsD [OF T(15)] by metis
  qed
qed

subsection \<open>What a command leaves behind\<close>

text \<open>A client whose \<^verbatim>\<open>close\<close> raises nothing but an interrupt.\<close>

definition closes :: "remote_client \<Rightarrow> bool" where
  "closes C \<longleftrightarrow> (\<forall>w e w'. client_close C w = (Inl e, w') \<longrightarrow> \<not> is_Exception e)"

definition uninterrupted :: "exn + 'a \<Rightarrow> bool" where
  "uninterrupted r \<longleftrightarrow> (case r of Inl e \<Rightarrow> is_Exception e | Inr _ \<Rightarrow> True)"

lemma session_closes:
  assumes C: "client_frame C" "closes C" and w: "sane w"
    and run: "connect_to C csv h p sh sp w = (Inr b, w1)" "host_part w2 = host_part w1"
    and close: "close_board C b w2 = (r, w3)" "uninterrupted r"
  shows "held w3 = held w \<and> (\<exists>u. r = Inr u)"
proof (cases r)
  case (Inl e)
  then have "board_close C b w2 = (Inl e, w3)" using close(1) by (auto simp: close_board_def sx_bind_Inl)
  then show ?thesis
    using client_frame.close_Inl [OF C(1)] C(2) close(2) Inl by (fastforce simp: closes_def uninterrupted_def)
next
  case (Inr u)
  then obtain b' where "board_close C b w2 = (Inr b', w3)"
    using close(1) by (auto simp: close_board_def sx_bind_Inr)
  from client_frame.session_balanced [OF C(1) w run this] Inr show ?thesis by simp
qed

lemma keeps_print: "keeps host_part (print_out t)"
  unfolding print_out_def by (intro keeps_intros) (simp_all add: host_part_def)

lemma login_session_balanced:
  assumes C: "client_frame C" "closes C" and T: "tty_frame T" and w: "sane w"
    and run: "connect_to C csv h p sh sp w = (Inr b, w1)"
    and login: "login_session C T b w1 = Some (r, w')" "uninterrupted r"
  shows "held w' = held w"
proof -
  have keeps: "keeps host_part (sx_bind (board_identifier C) (\<lambda>ident. eprint (connected_line (board_host b) ident)))"
    by (intro keeps_intros client_frame.keeps_identifier [OF C(1)] keeps_eprint)
  obtain r2 :: "exn + unit" and w2 where two: "host_part w2 = host_part w1"
    and rest: "(case close_board C b w2 of (Inl e, w3) \<Rightarrow> (Inl e, w3)
      | (Inr _, w3) \<Rightarrow> (case r2 of Inl e \<Rightarrow> Inl e | Inr _ \<Rightarrow> Inr 0, w3)) = (r, w')"
  proof -
    obtain r1 v where pre: "sx_bind (board_identifier C) (\<lambda>ident. eprint (connected_line (board_host b) ident)) w1 = (r1, v)"
      by (rule prod.exhaust)
    note k = keepsD [OF keeps pre]
    show ?thesis
    proof (cases r1)
      case (Inl e)
      with login(1) pre k show ?thesis by (intro that [of v "Inl e"]) (simp_all add: login_session_def)
    next
      case (Inr u)
      with login(1) pre obtain r2 w2 where "console_loop T v = Some (r2, w2)"
        by (auto simp: login_session_def split: option.splits prod.splits)
      with login(1) pre k Inr console_loop_frame [OF T this] show ?thesis
        by (intro that [of w2 r2]) (simp_all add: login_session_def)
    qed
  qed
  obtain rc w3 where cl: "close_board C b w2 = (rc, w3)" by (rule prod.exhaust)
  then have "w3 = w'" "uninterrupted rc" using rest login(2) by (auto simp: uninterrupted_def split: sum.splits)
  then show ?thesis using session_closes [OF C w run two cl] by simp
qed

lemma login_connect_balanced:
  assumes "client_frame C" "closes C" "tty_frame T" "sane w"
    and "login_connect E C T P args h w = Some (r, w')" "uninterrupted r"
  shows "held w' = held w"
proof -
  obtain r1 w1 where c: "connect_to C (arg_csr args) h (lock_path P) LITEX_SERVER_HOST LITEX_SERVER_PORT w = (r1, w1)"
    by (rule prod.exhaust)
  show ?thesis
  proof (cases r1)
    case (Inl e)
    then show ?thesis
      using assms(5,6) c client_frame.connect_to_Inl [OF assms(1,4)]
      by (auto simp: login_connect_def explicit_host uninterrupted_def)
  next
    case (Inr b)
    then have "login_session C T b w1 = Some (r, w')" using assms(5) c by (simp add: login_connect_def explicit_host)
    from login_session_balanced [OF assms(1-4) c [unfolded Inr] this assms(6)] show ?thesis .
  qed
qed

lemma keeps_failure: "keeps host_part (sx_bind discovery_failure_message (\<lambda>msg. sx_bind (eprint msg) (\<lambda>_. sx_return (1::int))))"
  unfolding discovery_failure_message_def subnet_line_def
  by (intro keeps_intros keeps_eprint keeps_local_ip disc_free_host_part)

lemma keeps_report: "client_frame C \<Longrightarrow> tty_frame T \<Longrightarrow> keeps host_part (status_report C T args b)"
proof -
  assume C: "client_frame C" and T: "tty_frame T"
  have "keeps host_part (read_many T n)" for n
    by (induction n) (auto intro!: keeps_intros tty_frameD(3) [OF T])
  then show ?thesis
    unfolding status_report_def measure_rtt_def
    by (intro keeps_intros client_frame.keeps_identifier [OF C] keeps_print)
qed

lemma status_balanced:
  assumes C: "client_frame C" "closes C" and T: "tty_frame T" and w: "sane w"
    and run: "cmd_status E C T P args w = (r, w')" "uninterrupted r"
  shows "held w' = held w"
proof -
  obtain r1 w1 where c: "connect_args E C P args w = (r1, w1)" by (rule prod.exhaust)
  obtain v where v: "held v = held w" "sane v"
    "v = w1 \<and> (\<exists>e. r1 = Inl e) \<or> (\<exists>h. connect_to C (arg_csr args) h (lock_path P) LITEX_SERVER_HOST LITEX_SERVER_PORT v = (r1, w1))"
    using client_frame.connect_last_attempt [OF C(1) w c [unfolded connect_args_def]] by blast
  show ?thesis
  proof (cases r1)
    case (Inl e)
    then have "r = Inl e" "w' = w1" using run(1) c by (simp_all add: cmd_status_def sx_bind_def)
    then show ?thesis
      using v client_frame.connect_to_Inl [OF C(1) v(2)] run(2) Inl by (auto simp: uninterrupted_def)
  next
    case (Inr b)
    then obtain h where con: "connect_to C (arg_csr args) h (lock_path P) LITEX_SERVER_HOST LITEX_SERVER_PORT v = (Inr b, w1)"
      using v(3) by blast
    obtain r2 w2 where rep: "status_report C T args b w1 = (r2, w2)" by (rule prod.exhaust)
    note two = keepsD [OF keeps_report [OF C(1) T] rep]
    obtain rc w3 where cl: "close_board C b w2 = (rc, w3)" by (rule prod.exhaust)
    then have "w3 = w'" "uninterrupted rc"
      using run c Inr rep
      by (auto simp: cmd_status_def sx_bind_def sx_finally_def sx_return_def uninterrupted_def split: sum.splits)
    then show ?thesis using session_closes [OF C v(2) con two cl] v(1) by simp
  qed
qed

text \<open>
  C28. The commands clean up after themselves: however \<^verbatim>\<open>login\<close> or \<^verbatim>\<open>status\<close> ends, by an exit code or an
  \<^verbatim>\<open>Exception\<close>, before, during or after the session, every lock is held by whom it was held before, no
  file stays open and no bridge is left running. What can escape is an interrupt and a client whose
  \<^verbatim>\<open>close\<close> raises.
\<close>

theorem commands_release:
  assumes "client_frame C" and "closes C" and "tty_frame T" and "sane w"
  shows "(\<forall>r w'. cmd_login E C T P args w = Some (r, w') \<and> uninterrupted r \<longrightarrow> held w' = held w) \<and>
    (\<forall>r w'. cmd_status E C T P sargs w = (r, w') \<and> uninterrupted r \<longrightarrow> held w' = held w)"
proof (intro conjI allI impI)
  fix r w'
  assume run: "cmd_login E C T P args w = Some (r, w') \<and> uninterrupted r"
  note balanced = login_connect_balanced [OF assms(1-3)]
  show "held w' = held w"
  proof (cases "arg_host args")
    case None
    obtain r1 w1 where d: "discover E (cache_path P) (\<not> arg_no_cache args) w = (r1, w1)" by (rule prod.exhaust)
    note k1 = keeps_held [OF keeps_discover [OF disc_free_host_part] d]
    show ?thesis
    proof (cases "\<exists>h. r1 = Inr (Some h)")
      case True
      with run None d balanced [of w1] k1 assms(4) show ?thesis by (auto simp: cmd_login_def)
    next
      case False
      with run None d have "w' = w1 \<or> sx_bind discovery_failure_message (\<lambda>msg. sx_bind (eprint msg) (\<lambda>_. sx_return 1)) w1 = (r, w')"
        by (auto simp: cmd_login_def split: sum.splits option.splits)
      with k1 keeps_held [OF keeps_failure] show ?thesis by auto
    qed
  next
    case (Some h)
    with run balanced [OF assms(4)] show ?thesis by (auto simp: cmd_login_def)
  qed
qed (use status_balanced [OF assms] in blast)

text \<open>A board without an identifier and with nothing to say, and a user who leaves at once.\<close>

definition quiet_client :: remote_client where
  "quiet_client =
     \<lparr>client_new = (\<lambda>h p c. guard), client_open = guard, client_close = sx_return (),
      client_read = (\<lambda>a. sx_return 0), identifier_mem = None\<rparr>"

definition quiet_tty :: "(os, unit) console_tty" where
  "quiet_tty =
     \<lparr>console_rx_read = sx_return 0, console_rx_pop_write = (\<lambda>_. guard), console_tx_read = sx_return 0,
      console_tx_data_write = (\<lambda>_. guard), console_err_read = sx_return 0,
      console_err_clear_write = (\<lambda>_. guard), sleep_us = sleep, stderr_print = eprint,
      stdout_write = (\<lambda>_. guard), stdout_flush = None, stdin_read = (\<lambda>_. sx_return [EXIT_BYTE]),
      select_stdin = sx_return True, tty_tcgetattr = sx_return (), tty_setraw = guard,
      tty_tcsetattr = (\<lambda>_. guard)\<rparr>"

lemma quiet_client_frame: "client_frame quiet_client" "closes quiet_client"
  by (unfold_locales, auto simp: quiet_client_def closes_def intro!: keeps_intros)

lemma quiet_tty_frame: "tty_frame quiet_tty"
  by (auto simp: tty_frame_def quiet_tty_def intro!: keeps_intros keeps_sleep keeps_eprint)

lemma quiet_drain: "drain quiet_tty = sx_return []"
proof -
  have "drain_loop quiet_tty n [] = sx_return []" for n
    by (cases n) (simp_all add: quiet_tty_def)
  then show ?thesis by (simp add: drain_def)
qed

lemma quiet_sel [simp]:
  "console_err_read quiet_tty = sx_return 0" "stderr_print quiet_tty = eprint"
  "stdin_read quiet_tty n = sx_return [EXIT_BYTE]" "select_stdin quiet_tty = sx_return True"
  "tty_tcgetattr quiet_tty = sx_return ()" "tty_setraw quiet_tty = guard" "tty_tcsetattr quiet_tty u = guard"
  by (simp_all add: quiet_tty_def)

lemma quiet_console:
  "raises w = [] \<Longrightarrow> \<exists>w'. console_loop quiet_tty w = Some (Inr (), w') \<and> raises w' = [] \<and> exits w' = exits w"
  by (simp add: console_loop_def pump_loop.simps console_pump_def pump_errors_def pump_output_def quiet_drain
      pump_keys_def check_errors_def eprint_def sx_defs)

definition demo_paths :: paths where
  "demo_paths = \<lparr>lock_path = ''lock'', cache_path = ''cache''\<rparr>"

definition demo_args :: args where
  "demo_args = \<lparr>arg_csr = ''csr.csv'', arg_host = Some ''b'', arg_no_cache = False\<rparr>"

theorem commands_release_witness:
  "\<exists>w'. cmd_login demo_eb quiet_client quiet_tty demo_paths demo_args working_os = Some (Inr 0, w') \<and>
     held w' = held working_os"
proof -
  have "sane working_os" using sane_blank by (simp add: working_os_def sane_def)
  note release = commands_release [OF quiet_client_frame quiet_tty_frame this,
      where E = demo_eb and P = demo_paths and args = demo_args]
  obtain w' where "cmd_login demo_eb quiet_client quiet_tty demo_paths demo_args working_os = Some (Inr 0, w')"
  proof -
    obtain b w1 where c: "connect_to quiet_client ''csr.csv'' ''b'' ''lock'' LITEX_SERVER_HOST LITEX_SERVER_PORT working_os =
        (Inr b, w1)" "raises w1 = []" "exits w1 = [True]" "board_lock b = Some \<lparr>lk_path = ''lock'', lk_fh = Some 1\<rparr>"
      by (simp add: working_os_def board_eval wait_listening.simps check_identifier_def board_identifier_def
          read_identifier_def quiet_client_def read_config_identifier_def read_text_def csv_init_def sx_lift_def)
    have close: "\<exists>w3. close_board quiet_client b v = (Inr (), w3)" if "raises v = []" "exits v = [True]" for v
      using that c(4)
      by (auto simp: close_board_def board_close_def quiet_client_def terminate_server_def proc_wait_timeout_def
          release_eq sx_defs split: option.splits)
    let ?line = "connected_line (board_host b) []"
    have pre: "sx_bind (board_identifier quiet_client) (\<lambda>ident. eprint (connected_line (board_host b) ident)) w1 =
        (Inr (), w1\<lparr>stderr_log := stderr_log w1 @ [?line]\<rparr>)"
      using c(2) by (simp add: board_identifier_def read_identifier_def quiet_client_def eprint_def sx_defs)
    obtain w2 where con: "console_loop quiet_tty (w1\<lparr>stderr_log := stderr_log w1 @ [?line]\<rparr>) = Some (Inr (), w2)"
        "raises w2 = []" "exits w2 = [True]"
      using quiet_console [of "w1\<lparr>stderr_log := stderr_log w1 @ [?line]\<rparr>"] c(2,3) by auto
    obtain w3 where "close_board quiet_client b w2 = (Inr (), w3)" using close con(2,3) by blast
    with c(1) pre con(1) show ?thesis
      by (intro that [of w3])
        (simp add: cmd_login_def demo_args_def demo_paths_def login_connect_def explicit_host login_session_def)
  qed
  with release show ?thesis by (auto simp: uninterrupted_def)
qed

text \<open>
  C35. \<^verbatim>\<open>login\<close> never recovers from a stale cache: it resolves the host itself and hands it to
  \<^verbatim>\<open>Board.connect\<close> as an explicit one, so when the cached host fails, \<^verbatim>\<open>login\<close> raises what the one
  attempt raised, from that state; the cache is not dropped and no rediscovery is made.
\<close>

theorem login_stale_cache:
  assumes "raises w = []" and "arg_host args = None" and "\<not> arg_no_cache args"
    and "cached_host (cache_path P) w = Some h"
    and "connect_to C (arg_csr args) h (lock_path P) LITEX_SERVER_HOST LITEX_SERVER_PORT w = (Inl e, w1)"
  shows "cmd_login E C T P args w = Some (Inl e, w1)"
  using assms
  by (simp add: cmd_login_def discover_def sx_bind_def load_cache_calm sx_return_def login_connect_def explicit_host)

theorem login_stale_cache_witness:
  "\<exists>w1. cmd_login demo_eb quiet_client quiet_tty demo_paths (demo_args\<lparr>arg_host := None\<rparr>) stale_os =
      Some (Inl FileNotFoundError, w1) \<and> files w1 ''cache'' = Some ''b8008''"
proof -
  have "strip ''b8008'' = ''b8008''" by (rule strip_idle) (simp add: py_space_def)
  then have c: "raises stale_os = []" "cached_host (cache_path demo_paths) stale_os = Some ''b8008''"
    by (simp_all add: stale_os_def demo_os_def blank_os_def cached_host_def demo_paths_def)
  obtain w1 where run: "connect_to quiet_client (arg_csr (demo_args\<lparr>arg_host := None\<rparr>)) ''b8008'' (lock_path demo_paths)
      LITEX_SERVER_HOST LITEX_SERVER_PORT stale_os = (Inl FileNotFoundError, w1)" "files w1 ''cache'' = Some ''b8008''"
    by (simp add: stale_os_def demo_os_def board_eval check_identifier_def read_config_identifier_def
        read_text_def quiet_client_def demo_args_def demo_paths_def)
  from login_stale_cache [OF c(1) _ _ c(2) run(1), of demo_eb quiet_tty] run(2) show ?thesis
    by (simp add: demo_args_def)
qed

lemma sublist_later: "sublist x s \<Longrightarrow> sublist x (a @ s)"
  unfolding sublist_def by (metis append_assoc)

lemma sublist_join: "x \<in> set xs \<Longrightarrow> sublist x (join sep xs)"
  by (induction sep xs rule: join.induct) (auto intro: sublist_later)

text \<open>
  When nothing is found, \<^verbatim>\<open>login\<close> says where it looked: it exits with code 1 after printing one
  message, which names every DNS name tried and the first and last address of the subnet swept, or
  that there was none to sweep; it takes no lock and starts no process.
\<close>

theorem login_nothing_found:
  assumes "raises w = []" and "decoder_ok E" and "eb_probe E = Inr packet" and "arg_host args = None"
    and "discover_ref E (cache_path P) (\<not> arg_no_cache args) w = None"
    and "subnet_candidates (route_ip w) ''255.255.255.0'' = Inr (c # cs)"
  shows "\<exists>w' msg. cmd_login E C T P args w = Some (Inr 1, w') \<and> stderr_log w' = stderr_log w @ [msg] \<and>
    host_part w' = host_part w \<and> sublist (join '', '' DNS_NAMES) msg \<and> sublist (c @ ''-'' @ last (c # cs)) msg"
proof -
  obtain w1 where d: "discover E (cache_path P) (\<not> arg_no_cache args) w = (Inr None, w1)" "raises w1 = []"
    using discover_calm [OF assms(1-3), of "cache_path P" "\<not> arg_no_cache args"] assms(5) by auto
  have "disc_free (\<lambda>w. (route_ip w, stderr_log w, host_part w))"
    by (simp add: disc_free_def net_free_def host_part_def)
  from keepsD [OF keeps_discover [OF this] d(1)]
  have w1: "route_ip w1 = route_ip w" "stderr_log w1 = stderr_log w" "host_part w1 = host_part w" by simp_all
  define line where "line = ''  subnet swept: '' @ (c @ ''-'' @ last (c # cs)) @ '' ('' @
      dec_nat (length (c # cs)) @ '' host(s), netmask 255.255.255.0, from this machine'' @ [CHR 0x27] @ ''s address '' @
      route_ip w @ '')''"
  have subnet: "subnet_line w1 = (Inr line, w1)"
    using d(2) w1(1) assms(6)
    by (simp add: subnet_line_def local_ip_calm sx_lift_def sx_bind_def sx_catch_def sx_return_def line_def)
  let ?msg = "join [CHR 0x0A] [failure_error, ''  DNS names tried: '' @ join '', '' DNS_NAMES, line, failure_hint]"
  have msg: "discovery_failure_message w1 = (Inr ?msg, w1)"
    unfolding discovery_failure_message_def sx_bind_def subnet sx_return_def by simp
  have "cmd_login E C T P args w = Some (Inr 1, w1\<lparr>stderr_log := stderr_log w1 @ [?msg]\<rparr>)"
    unfolding cmd_login_def assms(4) option.case d(1) prod.case sum.case
    by (simp add: sx_bind_def msg eprint_def d(2) sx_modify_def sx_return_def)
  moreover have "sublist (join '', '' DNS_NAMES) ?msg"
    by (rule sublist_order.order_trans [OF sublist_later [OF sublist_order.order_refl]
          sublist_join [of "''  DNS names tried: '' @ join '', '' DNS_NAMES"]]) simp
  moreover have "sublist (c @ ''-'' @ last (c # cs)) line"
    unfolding line_def by (rule sublist_appendI)
  then have "sublist (c @ ''-'' @ last (c # cs)) ?msg"
    by (rule sublist_order.order_trans [OF _ sublist_join]) simp
  ultimately show ?thesis using w1 by (auto simp: host_part_def)
qed

theorem login_nothing_found_witness:
  "\<exists>w' msg. cmd_login demo_eb quiet_client quiet_tty demo_paths (demo_args\<lparr>arg_host := None\<rparr>) blank_os =
      Some (Inr 1, w') \<and> stderr_log w' = [msg] \<and> sublist ''192.168.1.1-192.168.1.254'' msg"
proof -
  have ip: "ip_to_int ''192.168.1.10'' = Inr 3232235786" "ip_to_int ''255.255.255.0'' = Inr 4294967040"
    by (simp_all add: ip_to_int_def inet_aton_def c_number_def digit_val_def)
  have "[3232235777..3232236030 :: int] = 3232235777 # [3232235778..3232236029] @ [3232236030]"
    using upto_rec1 [of 3232235777 3232236030] upto_rec2 [of 3232235778 3232236030] by simp
  then have cs: "\<exists>cs. subnet_candidates (route_ip blank_os) ''255.255.255.0'' =
      Inr (int_to_ip 3232235777 # cs) \<and> last (int_to_ip 3232235777 # cs) = int_to_ip 3232236030"
    using ip by (simp add: subnet_candidates_def blank_os_def del: upto.simps upto_rec_numeral)
  moreover have "int_to_ip 3232235777 = ''192.168.1.1''" "int_to_ip 3232236030 = ''192.168.1.254''"
    by (simp_all add: int_to_ip_def inet_ntoa_def dec_nat_def base_nat.simps digit_char_eval)
  ultimately obtain cs where cs: "subnet_candidates (route_ip blank_os) ''255.255.255.0'' =
      Inr (''192.168.1.1'' # cs)" "last (''192.168.1.1'' # cs) = ''192.168.1.254''" by auto
  have c: "raises blank_os = []" "eb_probe demo_eb = Inr [0x4e, 0x6f, 0x11, 0x44, 0, 0, 0, 0]"
      "arg_host (demo_args\<lparr>arg_host := None\<rparr>) = None"
    by (simp_all add: blank_os_def demo_eb_def)
  have none: "discover_ref demo_eb (cache_path demo_paths) (\<not> arg_no_cache (demo_args\<lparr>arg_host := None\<rparr>)) blank_os = None"
    by (simp add: discover_ref_def blank_os_def cached_host_def truthy_def DNS_NAMES_def split: sum.splits)
  from login_nothing_found [OF c(1) demo_decoder c(2,3) none cs(1), of quiet_client quiet_tty] cs(2)
  show ?thesis by (auto simp: blank_os_def)
qed

end
