(* ===== verification/Selftest.thy ===== *)
theory Selftest
  imports Board Console
begin

text \<open>
  The hardware self-test, \<^verbatim>\<open>src/soc/host_selftest.py\<close>: its byte helpers, the polling of the console,
  the five checks and the exit code.

  The console registers are those of \<open>Console\<close>, on the operating system of \<open>Host_Os\<close>;
  \<open>selftest_client\<close> adds the scratch register and the burst read of the remote client. Computations
  that may not end return \<open>None\<close> when they do not.
\<close>

definition BANNER_PREFIX :: "byte list" where "BANNER_PREFIX = [0x38, 0x30, 0x30, 0x38, 0x20]"
definition HELP_COMMAND :: "byte list" where "HELP_COMMAND = [0x48, 0x0D]"
definition HELP_MARKER :: "byte list" where "HELP_MARKER = [0x48, 0x65, 0x6C, 0x70]"

subsection \<open>Byte helpers\<close>

text \<open>The loops over indices: the first index below \<open>n\<close>, from \<open>i\<close>, at which the two differ.\<close>

fun first_diff :: "byte list \<Rightarrow> byte list \<Rightarrow> nat \<Rightarrow> nat \<Rightarrow> nat option" where
  "first_diff expected actual i 0 = None"
| "first_diff expected actual i (Suc n) =
     (if expected ! i \<noteq> actual ! i then Some i else first_diff expected actual (Suc i) n)"

definition compare_bytes :: "byte list \<Rightarrow> byte list \<Rightarrow> bool \<times> int" where
  "compare_bytes expected actual =
     (if length expected \<noteq> length actual
      then let n = min (length expected) (length actual) in
           case first_diff expected actual 0 n of
             Some i \<Rightarrow> (False, int i)
           | None \<Rightarrow> (False, int n)
      else case first_diff expected actual 0 (length expected) of
             Some i \<Rightarrow> (False, int i)
           | None \<Rightarrow> (True, -1))"

text \<open>The slices the generator yields.\<close>

function slices :: "'a list \<Rightarrow> nat \<Rightarrow> nat \<Rightarrow> 'a list list" where
  "slices seq sz i =
     (if i < length seq \<and> 0 < sz then take sz (drop i seq) # slices seq sz (i + sz) else [])"
  by pat_completeness auto
termination
  by (relation "measure (\<lambda>(seq, sz, i). length seq - i)") auto

declare slices.simps [simp del]

definition batches :: "'a list \<Rightarrow> int \<Rightarrow> exn + 'a list list" where
  "batches seq sz = (if sz \<le> 0 then Inl ValueError else Inr (slices seq (nat sz) 0))"

definition find_prefix :: "byte list \<Rightarrow> byte list \<Rightarrow> bool" where
  "find_prefix buf pre \<longleftrightarrow> take (length pre) buf = pre"

text \<open>\<^verbatim>\<open>marker in buf\<close>.\<close>

fun contains :: "byte list \<Rightarrow> byte list \<Rightarrow> bool" where
  "contains marker [] \<longleftrightarrow> marker = []"
| "contains marker (b # bs) \<longleftrightarrow> take (length marker) (b # bs) = marker \<or> contains marker bs"

definition printable :: "byte \<Rightarrow> string" where
  "printable b =
     (let k = unat b in
      if k = 0x0D then [CHR 0x5C, CHR ''r'']
      else if k = 0x0A then [CHR 0x5C, CHR ''n'']
      else if 0x20 \<le> k \<and> k < 0x7F then [char_of k]
      else [CHR 0x5C, CHR ''x'', digit_char (k div 16), digit_char (k mod 16)])"

definition decode_printable :: "byte list \<Rightarrow> string" where
  "decode_printable buf = concat (map printable buf)"

subsection \<open>Computations that may not end\<close>

type_synonym 'a ox = "os \<Rightarrow> ((exn + 'a) \<times> os) option"

definition ox_lift :: "(os, 'a) sx \<Rightarrow> 'a ox" where
  "ox_lift m w = Some (m w)"

definition ox_bind :: "'a ox \<Rightarrow> ('a \<Rightarrow> 'b ox) \<Rightarrow> 'b ox" where
  "ox_bind m f w =
     (case m w of
        None \<Rightarrow> None
      | Some (Inl e, w') \<Rightarrow> Some (Inl e, w')
      | Some (Inr x, w') \<Rightarrow> f x w')"

subsection \<open>The board\<close>

record selftest_client = "os console_board" +
  ctrl_scratch_write :: "int \<Rightarrow> (os, unit) sx"
  ctrl_scratch_read :: "(os, int) sx"
  ctrl_scratch_addr :: int
  burst_read :: "int \<Rightarrow> nat \<Rightarrow> (os, int list) sx"

definition get_identifier :: "remote_client \<Rightarrow> (os, string) sx" where
  "get_identifier C =
     sx_bind (read_identifier C) (\<lambda>ident.
       sx_return (case ident of None \<Rightarrow> ''<no identifier_mem>'' | Some s \<Rightarrow> s))"

definition drain_rx :: "'z selftest_client_scheme \<Rightarrow> (os, byte list) sx" where
  "drain_rx B = drain B"

definition send_command :: "'z selftest_client_scheme \<Rightarrow> byte list \<Rightarrow> (os, unit) sx" where
  "send_command B data = sx_bind (send B data None) (\<lambda>_. sx_return ())"

text \<open>The loop of \<^verbatim>\<open>poll_banner\<close> and \<^verbatim>\<open>poll_marker\<close>, which differ in the test \<open>hit\<close> only.\<close>

partial_function (option) poll_loop ::
    "(byte list \<Rightarrow> bool) \<Rightarrow> 'z selftest_client_scheme \<Rightarrow> int \<Rightarrow> int \<Rightarrow> byte list \<Rightarrow> (byte list) ox" where
  "poll_loop hit B deadline poll buf w =
     (if clock w < deadline
      then case drain_rx B w of
          (Inl e, w1) \<Rightarrow> Some (Inl e, w1)
        | (Inr bs, w1) \<Rightarrow>
            (if hit (buf @ bs) then Some (Inr (buf @ bs), w1)
             else case sleep poll w1 of
                 (Inl e, w2) \<Rightarrow> Some (Inl e, w2)
               | (Inr _, w2) \<Rightarrow> poll_loop hit B deadline poll (buf @ bs) w2)
      else Some (Inr buf, w))"

definition poll_banner :: "'z selftest_client_scheme \<Rightarrow> int \<Rightarrow> int \<Rightarrow> (byte list) ox" where
  "poll_banner B timeout poll w =
     poll_loop (\<lambda>buf. find_prefix buf BANNER_PREFIX) B (clock w + timeout) poll [] w"

definition poll_marker :: "'z selftest_client_scheme \<Rightarrow> byte list \<Rightarrow> int \<Rightarrow> int \<Rightarrow> (byte list) ox" where
  "poll_marker B marker timeout poll w =
     poll_loop (contains marker) B (clock w + timeout) poll [] w"

subsection \<open>The checks\<close>

definition PASS :: string where "PASS = ''  PASS''"
definition FAIL :: string where "FAIL = ''  FAIL''"

text \<open>The format \<^verbatim>\<open>#x\<close>.\<close>

definition alt_hex :: "int \<Rightarrow> string" where
  "alt_hex i = (if i < 0 then ''-'' else []) @ ''0x'' @ hex_int \<bar>i\<bar>"

definition check_identity :: "remote_client \<Rightarrow> (os, int) sx" where
  "check_identity C =
     sx_bind (get_identifier C) (\<lambda>ident.
       sx_bind (print_out (''[1] connected; identifier: '' @ py_repr ident @ PASS)) (\<lambda>_. sx_return 0))"

definition check_banner :: "'z selftest_client_scheme \<Rightarrow> int ox" where
  "check_banner B =
     ox_bind (poll_banner B 3000000 20000) (\<lambda>banner. ox_lift (
       if find_prefix banner BANNER_PREFIX
       then sx_bind (print_out (''[2] console banner: '' @ py_repr (decode_printable banner) @ PASS)) (\<lambda>_. sx_return 0)
       else sx_bind (print_out (''[2] console banner: got '' @ py_repr (decode_printable banner) @ FAIL)) (\<lambda>_. sx_return 1)))"

definition check_command :: "'z selftest_client_scheme \<Rightarrow> int ox" where
  "check_command B =
     ox_bind (ox_lift (send_command B HELP_COMMAND)) (\<lambda>_.
       ox_bind (poll_marker B HELP_MARKER 3000000 20000) (\<lambda>resp. ox_lift (
         if contains HELP_MARKER resp
         then sx_bind (print_out (''[3] command '' @ [CHR 0x27, CHR ''H'', CHR 0x27] @ '' -> '' @ py_repr (decode_printable resp) @ PASS))
           (\<lambda>_. sx_return 0)
         else sx_bind (print_out (''[3] command '' @ [CHR 0x27, CHR ''H'', CHR 0x27] @ '' -> got '' @ py_repr (decode_printable resp) @ FAIL))
           (\<lambda>_. sx_return 1))))"

definition scratch_patterns :: "int list" where
  "scratch_patterns = [0xA5A5A5A5, 0x5A5A5A5A, 0x8008BEEF]"

fun check_scratch :: "'z selftest_client_scheme \<Rightarrow> int list \<Rightarrow> (os, int) sx" where
  "check_scratch B [] = sx_bind (print_out (''[4] scratch write/readback x3'' @ PASS)) (\<lambda>_. sx_return 0)"
| "check_scratch B (pattern # ps) =
     sx_bind (ctrl_scratch_write B pattern) (\<lambda>_.
       sx_bind (ctrl_scratch_read B) (\<lambda>got.
         if got \<noteq> pattern
         then sx_bind (print_out (''[4] scratch write '' @ alt_hex pattern @ '' read back '' @ alt_hex got @ FAIL))
           (\<lambda>_. sx_return 1)
         else check_scratch B ps))"

definition check_burst :: "'z selftest_client_scheme \<Rightarrow> (os, int) sx" where
  "check_burst B =
     sx_bind (burst_read B (ctrl_scratch_addr B) 255) (\<lambda>burst.
       if length burst = 255 \<and> hd burst = 0x8008BEEF
       then sx_bind (print_out (''[5] 255-word burst read'' @ PASS)) (\<lambda>_. sx_return 0)
       else (case burst of
           [] \<Rightarrow> sx_raise IndexError
         | first # _ \<Rightarrow>
             sx_bind (print_out (''[5] 255-word burst read: len='' @ dec_nat (length burst) @ '' first='' @ alt_hex first @ FAIL))
               (\<lambda>_. sx_return 1)))"

definition run_checks :: "remote_client \<Rightarrow> 'z selftest_client_scheme \<Rightarrow> int ox" where
  "run_checks C B =
     ox_bind (ox_lift (check_identity C)) (\<lambda>a.
       ox_bind (check_banner B) (\<lambda>b.
         ox_bind (check_command B) (\<lambda>c.
           ox_bind (ox_lift (check_scratch B scratch_patterns)) (\<lambda>d.
             ox_bind (ox_lift (check_burst B)) (\<lambda>e. ox_lift (sx_return (a + b + c + d + e)))))))"

subsection \<open>The main program\<close>

record selftest_args =
  st_csr :: string
  st_host :: "string option"
  st_port :: int
  st_server :: "string option"

definition ox_finally :: "'a ox \<Rightarrow> (os, unit) sx \<Rightarrow> 'a ox" where
  "ox_finally m fin w =
     (case m w of
        None \<Rightarrow> None
      | Some (r, w') \<Rightarrow> Some (case fin w' of (Inl e, w'') \<Rightarrow> (Inl e, w'') | (Inr _, w'') \<Rightarrow> (r, w'')))"

text \<open>The exit is the exception \<^verbatim>\<open>SystemExit\<close>.\<close>

definition verdict :: "int \<Rightarrow> (os, unit) sx" where
  "verdict failures =
     (if failures \<noteq> 0
      then sx_bind (print_out (''host_selftest: '' @ dec_nat (nat failures) @ '' check(s) FAILED'')) (\<lambda>_. sx_raise (SystemExit 1))
      else sx_bind (print_out ''host_selftest: all checks PASSED'') (\<lambda>_. sx_raise (SystemExit 0)))"

definition selftest_main ::
    "etherbone \<Rightarrow> remote_client \<Rightarrow> 'z selftest_client_scheme \<Rightarrow> string \<Rightarrow> string \<Rightarrow> selftest_args \<Rightarrow> unit ox" where
  "selftest_main E C B lock cache args =
     ox_bind
       (case st_server args of
          Some server \<Rightarrow>
            ox_bind (ox_lift (sx_bind (client_new C server (st_port args) (st_csr args)) (\<lambda>_. client_open C))) (\<lambda>_.
              ox_finally (run_checks C B) (client_close C))
        | None \<Rightarrow>
            ox_bind (ox_lift (board_connect E C (st_csr args) (st_host args) lock LITEX_SERVER_HOST
                       LITEX_SERVER_PORT cache True)) (\<lambda>board.
              ox_bind (ox_lift (print_out (''[0] discovered + connected: '' @ board_host board))) (\<lambda>_.
                ox_finally (run_checks C B) (sx_bind (board_close C board) (\<lambda>_. sx_return ())))))
       (\<lambda>failures. ox_lift (verdict failures))"

subsection \<open>The byte helpers\<close>

lemma first_diff_lcp:
  assumes "n = min (length xs - i) (length ys - i)"
  shows "first_diff xs ys i n =
    (let k = length (longest_common_prefix (drop i xs) (drop i ys)) in if k < n then Some (i + k) else None)"
  using assms
proof (induction n arbitrary: i)
  case (Suc n)
  then have "drop i xs = xs ! i # drop (Suc i) xs" "drop i ys = ys ! i # drop (Suc i) ys"
    by (simp_all add: Cons_nth_drop_Suc)
  moreover have "n = min (length xs - Suc i) (length ys - Suc i)" using Suc.prems by auto
  note Suc.IH [OF this]
  ultimately show ?case by (simp add: Let_def)
qed simp

lemma lcp_length: "length (longest_common_prefix xs ys) \<le> min (length xs) (length ys)"
  by (meson longest_common_prefix_prefix1 longest_common_prefix_prefix2 min.boundedI prefix_length_le)

lemma lcp_full:
  "length xs = length ys \<Longrightarrow> length (longest_common_prefix xs ys) = length xs \<longleftrightarrow> xs = ys"
  by (induction xs ys rule: list_induct2) auto

text \<open>
  \<^verbatim>\<open>compare_bytes\<close> finds the first mismatch: the result is \<^verbatim>\<open>(True, -1)\<close> exactly for equal strings, and
  otherwise \<^verbatim>\<open>False\<close> with the length of their longest common prefix, which is the first index at which
  they differ or one of them has ended.
\<close>

theorem compare_bytes_correct:
  "compare_bytes expected actual =
     (if expected = actual then (True, -1)
      else (False, int (length (longest_common_prefix expected actual))))"
proof -
  have "first_diff expected actual 0 (min (length expected) (length actual)) =
      (let k = length (longest_common_prefix expected actual) in
       if k < min (length expected) (length actual) then Some k else None)"
    using first_diff_lcp [of "min (length expected) (length actual)" expected 0 actual] by (simp add: Let_def)
  then show ?thesis
    using lcp_length [of expected actual] lcp_full [of expected actual]
    by (auto simp: compare_bytes_def Let_def)
qed

lemma slices_concat: "0 < k \<Longrightarrow> concat (slices xs k i) = drop i xs"
proof (induction xs k i rule: slices.induct)
  case (1 xs k i)
  have "take k (drop i xs) @ drop (i + k) xs = drop i xs" by (metis add.commute append_take_drop_id drop_drop)
  with 1 show ?case by (subst slices.simps) simp
qed

lemma slices_lengths: "0 < k \<Longrightarrow> \<forall>b \<in> set (slices xs k i). b \<noteq> [] \<and> length b \<le> k"
  by (induction xs k i rule: slices.induct) (subst slices.simps, auto)

lemma slices_full: "0 < k \<Longrightarrow> \<forall>b \<in> set (butlast (slices xs k i)). length b = k"
proof (induction xs k i rule: slices.induct)
  case (1 xs k i)
  then have IH: "i < length xs \<Longrightarrow> \<forall>b \<in> set (butlast (slices xs k (i + k))). length b = k" by simp
  have "slices xs k (i + k) \<noteq> [] \<Longrightarrow> i + k < length xs" by (subst (asm) slices.simps) (simp split: if_splits)
  then show ?case using IH 1(2) by (subst slices.simps) auto
qed

text \<open>
  Batching loses nothing: the batches of a positive size concatenate to the sequence, all but the
  last have that size and the last is neither empty nor larger; any other size is a \<^verbatim>\<open>ValueError\<close>.
\<close>

theorem batches_concat:
  "case batches xs n of
     Inl e \<Rightarrow> n \<le> 0 \<and> e = ValueError
   | Inr bs \<Rightarrow> 0 < n \<and> concat bs = xs \<and> list_all (\<lambda>b. length b = nat n) (butlast bs) \<and>
       list_all (\<lambda>b. b \<noteq> [] \<and> length b \<le> nat n) bs"
  using slices_concat [of "nat n" xs 0] slices_lengths [of "nat n" xs 0] slices_full [of "nat n" xs 0]
  by (auto simp: batches_def list_all_iff)

lemma contains_sublist: "contains marker buf \<longleftrightarrow> sublist marker buf"
proof (induction marker buf rule: contains.induct)
  case (2 marker b bs)
  have "take (length marker) (b # bs) = marker \<longleftrightarrow> prefix marker (b # bs)"
    by (metis prefix_def append_eq_conv_conj)
  with 2 show ?case by (simp add: sublist_Cons_right)
qed auto

subsection \<open>Polling\<close>

text \<open>A drain takes time, at most \<open>D\<close>, and never turns the clock back.\<close>

definition drain_within :: "int \<Rightarrow> 'z selftest_client_scheme \<Rightarrow> bool" where
  "drain_within D B \<longleftrightarrow>
     (\<forall>w r w'. drain_rx B w = (r, w') \<longrightarrow> clock w \<le> clock w' \<and> clock w' \<le> clock w + D)"

lemma sleep_span: "sleep t w = (r, w') \<Longrightarrow> clock w \<le> clock w' \<and> clock w' \<le> clock w + max 0 t \<and> (\<forall>u. r = Inr u \<longrightarrow> clock w' = clock w + max 0 t)"
  by (auto simp: sleep_def sx_defs guard_def split: list.splits option.splits)

lemma poll_loop_returns:
  assumes "drain_within D B" "0 < poll"
  shows "\<exists>r w'. poll_loop hit B deadline poll buf w = Some (r, w') \<and>
    clock w' \<le> max (clock w) (deadline + D + poll) \<and>
    (\<forall>out. r = Inr out \<longrightarrow> (\<exists>more. out = buf @ more) \<and> (hit out \<or> deadline \<le> clock w'))"
proof (induction "nat (deadline - clock w)" arbitrary: w buf rule: less_induct)
  case less
  show ?case
  proof (cases "clock w < deadline")
    case True
    obtain r1 w1 where d: "drain_rx B w = (r1, w1)" by (rule prod.exhaust)
    have w1: "clock w \<le> clock w1" "clock w1 \<le> clock w + D" using assms(1) d by (auto simp: drain_within_def)
    obtain r2 w2 where s: "sleep poll w1 = (r2, w2)" by (rule prod.exhaust)
    note w2 = sleep_span [OF s]
    show ?thesis
    proof (cases "\<exists>bs. r1 = Inr bs \<and> \<not> hit (buf @ bs) \<and> r2 = Inr ()")
      case again: True
      then obtain bs where bs: "r1 = Inr bs" "\<not> hit (buf @ bs)" "r2 = Inr ()" by blast
      have "nat (deadline - clock w2) < nat (deadline - clock w)" using w1 w2 bs(3) True assms(2) by auto
      from less.hyps [OF this, of "buf @ bs"] obtain r w' where
        run: "poll_loop hit B deadline poll (buf @ bs) w2 = Some (r, w')"
        and span: "clock w' \<le> max (clock w2) (deadline + D + poll)"
        and out: "\<forall>out. r = Inr out \<longrightarrow> (\<exists>more. out = (buf @ bs) @ more) \<and> (hit out \<or> deadline \<le> clock w')"
        by blast
      have "poll_loop hit B deadline poll buf w = Some (r, w')"
        using True d s bs run by (subst poll_loop.simps) simp
      moreover have "clock w2 \<le> deadline + D + poll" using w1 w2 True assms(2) by simp
      ultimately show ?thesis using span out by (auto simp: max_def)
    next
      case False
      then have "\<exists>r w'. poll_loop hit B deadline poll buf w = Some (r, w') \<and> (w' = w1 \<or> w' = w2) \<and>
          (\<forall>out. r = Inr out \<longrightarrow> (\<exists>more. out = buf @ more) \<and> hit out)"
        using True d s by (subst poll_loop.simps) (auto split: sum.splits)
      then show ?thesis using w1 w2 True assms(2) by force
    qed
  next
    case False
    then show ?thesis by (subst poll_loop.simps) auto
  qed
qed

text \<open>
  C36. Polling ends: when a drain takes at most \<open>D\<close>, \<^verbatim>\<open>poll_banner\<close> and \<^verbatim>\<open>poll_marker\<close> return or raise
  within the timeout plus one drain and one pause, and what they return holds the banner prefix, or
  the marker, unless the timeout has passed.
\<close>

theorem poll_returns:
  assumes "drain_within D B" and "0 \<le> D" and "0 < poll" and "0 \<le> timeout"
  shows "(\<exists>r w'. poll_banner B timeout poll w = Some (r, w') \<and> clock w' \<le> clock w + timeout + D + poll \<and>
      (\<forall>out. r = Inr out \<longrightarrow> prefix BANNER_PREFIX out \<or> clock w + timeout \<le> clock w')) \<and>
    (\<exists>r w'. poll_marker B marker timeout poll w = Some (r, w') \<and> clock w' \<le> clock w + timeout + D + poll \<and>
      (\<forall>out. r = Inr out \<longrightarrow> sublist marker out \<or> clock w + timeout \<le> clock w'))"
proof -
  have banner: "prefix BANNER_PREFIX out" if "find_prefix out BANNER_PREFIX" for out
    using that unfolding find_prefix_def by (metis take_is_prefix)
  note loop = poll_loop_returns [OF assms(1,3), of _ "clock w + timeout" "[]" w]
  have max: "max (clock w) (clock w + timeout + D + poll) = clock w + timeout + D + poll"
    using assms(2-4) by (simp add: max_def)
  show ?thesis
    using loop [of "\<lambda>buf. find_prefix buf BANNER_PREFIX"] loop [of "contains marker"] banner
    unfolding poll_banner_def poll_marker_def contains_sublist max by blast
qed

text \<open>A board that says nothing, keeps its scratch register and answers bursts of zeros.\<close>

definition idle_board :: selftest_client where
  "idle_board =
     \<lparr>console_rx_read = sx_return 0, console_rx_pop_write = (\<lambda>_. sx_return ()), console_tx_read = sx_return 0,
      console_tx_data_write = (\<lambda>_. sx_return ()), console_err_read = sx_return 0,
      console_err_clear_write = (\<lambda>_. sx_return ()), sleep_us = sleep,
      ctrl_scratch_write = (\<lambda>_. sx_return ()), ctrl_scratch_read = sx_return 0x12345678,
      ctrl_scratch_addr = 4, burst_read = (\<lambda>a n. sx_return (replicate n 0))\<rparr>"

lemma idle_drain: "drain_rx idle_board = sx_return []"
proof -
  have "drain_loop idle_board n [] = sx_return []" for n by (cases n) (simp_all add: idle_board_def)
  then show ?thesis by (simp add: drain_rx_def drain_def)
qed

theorem poll_returns_witness:
  "\<exists>r w'. poll_banner idle_board 3000000 20000 blank_os = Some (r, w') \<and> clock w' \<le> 3020000"
proof -
  have "drain_within 0 idle_board" by (simp add: drain_within_def idle_drain)
  from poll_returns [OF this, of 20000 3000000 blank_os "[]"] show ?thesis by (auto simp: blank_os_def)
qed

subsection \<open>The verdict\<close>

text \<open>The operations of the board print nothing on standard output.\<close>

definition silent :: "remote_client \<Rightarrow> 'z selftest_client_scheme \<Rightarrow> bool" where
  "silent C B \<longleftrightarrow>
     (\<forall>a. keeps stdout_log (client_read C a)) \<and> keeps stdout_log (console_rx_read B) \<and>
     (\<forall>v. keeps stdout_log (console_rx_pop_write B v)) \<and> keeps stdout_log (console_tx_read B) \<and>
     (\<forall>v. keeps stdout_log (console_tx_data_write B v)) \<and> (\<forall>t. keeps stdout_log (sleep_us B t)) \<and>
     (\<forall>v. keeps stdout_log (ctrl_scratch_write B v)) \<and> keeps stdout_log (ctrl_scratch_read B) \<and>
     (\<forall>a n. keeps stdout_log (burst_read B a n))"

lemma keeps_silent:
  assumes "silent C B"
  shows "keeps stdout_log (read_identifier C)" "keeps stdout_log (drain_rx B)" "keeps stdout_log (send_command B data)"
proof -
  have "keeps stdout_log (read_chars C base i n)" for base i n
    using assms by (induction n arbitrary: i) (auto intro!: keeps_intros simp: silent_def Let_def)
  then show "keeps stdout_log (read_identifier C)"
    unfolding read_identifier_def by (intro keeps_intros)
  show "keeps stdout_log (drain_rx B)"
    using assms unfolding drain_rx_def by (intro keeps_drain) (auto simp: silent_def)
  show "keeps stdout_log (send_command B data)"
    using assms unfolding send_command_def by (intro keeps_intros keeps_send) (auto simp: silent_def)
qed

lemma keeps_sleep_out: "keeps stdout_log (sleep t)"
  unfolding sleep_def by (intro keeps_intros) simp_all

lemma poll_loop_silent:
  assumes "silent C B" "poll_loop hit B deadline poll buf w = Some (r, w')"
  shows "stdout_log w' = stdout_log w"
proof -
  have "silent C B \<longrightarrow> stdout_log (snd (r, w')) = stdout_log w"
  proof (rule poll_loop.raw_induct [OF _ assms(2)], rule impI)
    fix f hit B deadline poll buf w and y :: "(exn + byte list) \<times> os"
    assume IH: "\<And>hit B deadline poll buf w y. f hit B deadline poll buf w = Some y \<Longrightarrow>
        silent C B \<longrightarrow> stdout_log (snd y) = stdout_log w"
      and run: "(if clock w < deadline then case drain_rx B w of (Inl e, w1) \<Rightarrow> Some (Inl e, w1)
        | (Inr bs, w1) \<Rightarrow> (if hit (buf @ bs) then Some (Inr (buf @ bs), w1)
           else case sleep poll w1 of (Inl e, w2) \<Rightarrow> Some (Inl e, w2)
             | (Inr _, w2) \<Rightarrow> f hit B deadline poll (buf @ bs) w2) else Some (Inr buf, w)) = Some y"
      and B: "silent C (B :: 'a selftest_client_scheme)"
    obtain r1 w1 where d: "drain_rx B w = (r1, w1)" by (rule prod.exhaust)
    obtain r2 w2 where s: "sleep poll w1 = (r2, w2)" by (rule prod.exhaust)
    have "stdout_log w1 = stdout_log w" "stdout_log w2 = stdout_log w"
      using keepsD [OF keeps_silent(2) [OF B] d] keepsD [OF keeps_sleep_out s] by simp_all
    moreover have "snd y \<in> {w, w1, w2} \<or> (\<exists>bs. f hit B deadline poll bs w2 = Some y)"
      using run unfolding d s prod.case sum.case
      by (cases r1; cases r2) (simp_all add: s split: if_splits, auto)
    ultimately show "stdout_log (snd y) = stdout_log w"
      using IH [of hit B deadline poll _ w2 y] B by (cases y) auto
  qed
  then show ?thesis using assms(1) by simp
qed

text \<open>A check that returns prints one line, its verdict.\<close>

definition one_verdict :: "bool \<Rightarrow> int ox \<Rightarrow> bool" where
  "one_verdict may_fail m \<longleftrightarrow>
     (\<forall>w k w'. m w = Some (Inr k, w') \<longrightarrow>
        (\<exists>text. stdout_log w' = stdout_log w @ [text @ (if k = 0 then PASS else FAIL)] \<and> (k = 0 \<or> may_fail \<and> k = 1)))"

lemma print_out_Inr: "print_out msg w = (Inr u, w') \<Longrightarrow> stdout_log w' = stdout_log w @ [msg]"
  by (auto simp: print_out_def sx_defs guard_def split: list.splits option.splits)

lemma one_verdict_lift:
  assumes "\<And>w k w'. m w = (Inr k, w') \<Longrightarrow>
    \<exists>text. stdout_log w' = stdout_log w @ [text @ (if k = 0 then PASS else FAIL)] \<and> (k = 0 \<or> may_fail \<and> k = 1)"
  shows "one_verdict may_fail (ox_lift m)"
  using assms by (auto simp: one_verdict_def ox_lift_def)

lemma one_verdictD:
  "one_verdict may_fail m \<Longrightarrow> m w = Some (Inr k, w') \<Longrightarrow>
   \<exists>text. stdout_log w' = stdout_log w @ [text @ (if k = 0 then PASS else FAIL)] \<and> (k = 0 \<or> may_fail \<and> k = 1)"
  unfolding one_verdict_def by blast

lemma ox_bind_Inr:
  "ox_bind m f w = Some (Inr y, w') \<longleftrightarrow> (\<exists>x w1. m w = Some (Inr x, w1) \<and> f x w1 = Some (Inr y, w'))"
  by (auto simp: ox_bind_def split: option.splits sum.splits)

lemma one_verdict_bind:
  assumes "\<And>x. one_verdict may_fail (f x)" "\<And>w r w'. m w = Some (r, w') \<Longrightarrow> stdout_log w' = stdout_log w"
  shows "one_verdict may_fail (ox_bind m f)"
  unfolding one_verdict_def
proof (intro allI impI)
  fix w k w'
  assume "ox_bind m f w = Some (Inr k, w')"
  then obtain x w1 where "m w = Some (Inr x, w1)" "f x w1 = Some (Inr k, w')" by (auto simp: ox_bind_Inr)
  with one_verdictD [OF assms(1)] assms(2)
  show "\<exists>text. stdout_log w' = stdout_log w @ [text @ (if k = 0 then PASS else FAIL)] \<and> (k = 0 \<or> may_fail \<and> k = 1)"
    by metis
qed

lemma verdict_print:
  assumes "sx_bind (print_out (text @ v)) (\<lambda>_. sx_return n) w = (Inr k, w')"
  shows "stdout_log w' = stdout_log w @ [text @ v] \<and> k = n"
  using assms print_out_Inr by (auto simp: sx_bind_Inr)

lemma verdict_pass: "one_verdict b (ox_lift (sx_bind (print_out (text @ PASS)) (\<lambda>_. sx_return 0)))"
  and verdict_fail: "one_verdict True (ox_lift (sx_bind (print_out (text @ FAIL)) (\<lambda>_. sx_return 1)))"
  by (rule one_verdict_lift, drule verdict_print, auto)+

lemma ox_lift_bind: "ox_lift (sx_bind m f) = ox_bind (ox_lift m) (\<lambda>x. ox_lift (f x))"
  by (rule ext) (auto simp: ox_lift_def ox_bind_def sx_bind_def split: prod.splits sum.splits)

lemma ox_lift_keeps: "keeps stdout_log m \<Longrightarrow> ox_lift m w = Some (r, w') \<Longrightarrow> stdout_log w' = stdout_log w"
  by (auto simp: ox_lift_def dest: keepsD)

text \<open>The shapes the lines have: a text, a value and perhaps more before the verdict.\<close>

lemma verdict_pass2: "one_verdict b (ox_lift (sx_bind (print_out (t1 @ t2 @ PASS)) (\<lambda>_. sx_return 0)))"
  and verdict_fail2: "one_verdict True (ox_lift (sx_bind (print_out (t1 @ t2 @ FAIL)) (\<lambda>_. sx_return 1)))"
  and verdict_pass4: "one_verdict b (ox_lift (sx_bind (print_out (t1 @ t2 @ t3 @ t4 @ PASS)) (\<lambda>_. sx_return 0)))"
  and verdict_fail4: "one_verdict True (ox_lift (sx_bind (print_out (t1 @ t2 @ t3 @ t4 @ FAIL)) (\<lambda>_. sx_return 1)))"
  using verdict_pass [of b "t1 @ t2"] verdict_fail [of "t1 @ t2"] verdict_pass [of b "t1 @ t2 @ t3 @ t4"]
    verdict_fail [of "t1 @ t2 @ t3 @ t4"]
  by simp_all

lemmas verdict_intros = verdict_pass verdict_fail verdict_pass2 verdict_fail2 verdict_pass4 verdict_fail4

lemma check_identity_verdict: "silent C B \<Longrightarrow> one_verdict False (ox_lift (check_identity C))"
  unfolding check_identity_def get_identifier_def sx_bind_assoc ox_lift_bind [of "read_identifier C"] sx_bind_return
  by (intro one_verdict_bind ox_lift_keeps [OF keeps_silent(1)] verdict_intros)

lemma check_banner_verdict: "silent C B \<Longrightarrow> one_verdict True (check_banner B)"
  unfolding check_banner_def poll_banner_def
  by (intro one_verdict_bind) (auto intro: verdict_intros dest: poll_loop_silent simp del: append.simps)

lemma check_command_verdict: "silent C B \<Longrightarrow> one_verdict True (check_command B)"
  unfolding check_command_def poll_marker_def
  by (intro one_verdict_bind)
    (auto intro: verdict_intros dest: poll_loop_silent ox_lift_keeps [OF keeps_silent(3)] simp del: append.simps)

lemma check_scratch_verdict: "silent C B \<Longrightarrow> one_verdict True (ox_lift (check_scratch B ps))"
proof (induction ps)
  case (Cons p ps)
  then show ?case
    unfolding check_scratch.simps ox_lift_bind [of "ctrl_scratch_write B p"] ox_lift_bind [of "ctrl_scratch_read B"]
    by (intro one_verdict_bind ox_lift_keeps)
      (auto intro: verdict_intros simp: silent_def simp del: append.simps split: if_splits)
qed (simp add: verdict_intros del: append.simps)

lemma check_burst_verdict: "silent C B \<Longrightarrow> one_verdict True (ox_lift (check_burst B))"
proof -
  assume B: "silent C B"
  have "one_verdict True (ox_lift (case burst of [] \<Rightarrow> sx_raise IndexError
      | first # _ \<Rightarrow> sx_bind (print_out (''[5] 255-word burst read: len='' @ dec_nat (length burst) @ '' first='' @ alt_hex first @ FAIL))
          (\<lambda>_. sx_return 1)))" for burst
    by (cases burst) (auto intro: verdict_intros simp: one_verdict_def [of _ "ox_lift (sx_raise IndexError)"] ox_lift_def [of "sx_raise IndexError"]
        simp del: append.simps)
  then show ?thesis
    using B unfolding check_burst_def ox_lift_bind [of "burst_read B (ctrl_scratch_addr B) 255"]
    by (intro one_verdict_bind ox_lift_keeps) (auto intro: verdict_intros simp: silent_def simp del: append.simps)
qed

definition mark :: "string \<times> int \<Rightarrow> string" where
  "mark l = fst l @ (if snd l = 0 then PASS else FAIL)"

lemma mark_fails: "k \<in> {0, 1} \<Longrightarrow> suffix FAIL (mark (t, k)) \<longleftrightarrow> k = 1"
  by (auto simp: mark_def FAIL_def PASS_def suffix_def dest: arg_cong [of _ _ last])

text \<open>
  The number of failures is what was printed: when \<^verbatim>\<open>run_checks\<close> returns, it has printed exactly five
  lines, one per check, and its result is the number of those that end in \<^verbatim>\<open>FAIL\<close>; the first check never
  fails. The exit code is 0 exactly when there is none.
\<close>

theorem verdict_counts:
  assumes "silent C B" and "run_checks C B w = Some (Inr n, w')"
  shows "\<exists>lines. stdout_log w' = stdout_log w @ lines \<and> length lines = 5 \<and> suffix PASS (hd lines) \<and>
    n = int (length (filter (suffix FAIL) lines)) \<and>
    (raises w' = [] \<longrightarrow> fst (verdict n w') = Inl (SystemExit (if filter (suffix FAIL) lines = [] then 0 else 1)))"
proof -
  obtain a b c d e w1 w2 w3 w4 where run: "ox_lift (check_identity C) w = Some (Inr a, w1)"
      "check_banner B w1 = Some (Inr b, w2)" "check_command B w2 = Some (Inr c, w3)"
      "ox_lift (check_scratch B scratch_patterns) w3 = Some (Inr d, w4)"
      "ox_lift (check_burst B) w4 = Some (Inr e, w')" "n = a + b + c + d + e"
    using assms(2) by (auto simp: run_checks_def ox_bind_Inr ox_lift_def [of "sx_return _"])
  obtain t1 t2 t3 t4 t5 where
    logs: "stdout_log w' = stdout_log w @ map mark [(t1, a), (t2, b), (t3, c), (t4, d), (t5, e)]"
    and ks: "a = 0" "{b, c, d, e} \<subseteq> {0, 1}"
    using one_verdictD [OF check_identity_verdict [OF assms(1)] run(1)]
      one_verdictD [OF check_banner_verdict [OF assms(1)] run(2)]
      one_verdictD [OF check_command_verdict [OF assms(1)] run(3)]
      one_verdictD [OF check_scratch_verdict [OF assms(1)] run(4)]
      one_verdictD [OF check_burst_verdict [OF assms(1)] run(5)]
    unfolding mark_def by force
  define lines where "lines = map mark [(t1, a), (t2, b), (t3, c), (t4, d), (t5, e)]"
  have n: "n = int (length (filter (suffix FAIL) lines))"
    using ks run(6) by (simp add: lines_def mark_fails) linarith
  have "fst (verdict n w') = Inl (SystemExit (if n = 0 then 0 else 1))" if "raises w' = []"
    using that by (simp add: verdict_def print_out_def sx_defs)
  moreover have "n = 0 \<longleftrightarrow> filter (suffix FAIL) lines = []" by (simp add: n)
  moreover have "length lines = 5" "suffix PASS (hd lines)" using ks(1) by (simp_all add: lines_def mark_def suffix_def)
  ultimately show ?thesis using logs [folded lines_def] n by auto
qed

lemma idle_poll:
  assumes "raises w = []" "\<not> hit []"
  shows "\<exists>w'. poll_loop hit idle_board deadline 20000 [] w = Some (Inr [], w') \<and> raises w' = []"
  using assms
proof (induction "nat (deadline - clock w)" arbitrary: w rule: less_induct)
  case less
  show ?case
    using less.prems less.hyps [of "w\<lparr>clock := clock w + 20000\<rparr>"]
    by (subst poll_loop.simps) (simp add: idle_drain sleep_def sx_defs)
qed

lemma print_calm: "raises w = [] \<Longrightarrow> print_out m w = (Inr (), w\<lparr>stdout_log := stdout_log w @ [m]\<rparr>)"
  by (simp add: print_out_def sx_defs)

lemma idle_identity:
  "raises w = [] \<Longrightarrow> \<exists>w'. ox_lift (check_identity (ident_client ''b8008'')) w = Some (Inr 0, w') \<and> raises w' = []"
  using ident_client_reads [of w "''b8008''"]
  by (simp add: check_identity_def get_identifier_def read_identifier_def ox_lift_def sx_bind_def sx_return_def print_calm)

lemma idle_banner: "raises w = [] \<Longrightarrow> \<exists>w'. check_banner idle_board w = Some (Inr 1, w') \<and> raises w' = []"
  using idle_poll [of w "\<lambda>buf. find_prefix buf BANNER_PREFIX" "clock w + 3000000"]
  by (auto simp: check_banner_def poll_banner_def ox_bind_def ox_lift_def find_prefix_def BANNER_PREFIX_def
      sx_bind_def sx_return_def print_calm)

lemma idle_send: "raises w = [] \<Longrightarrow> \<exists>w'. send_command idle_board HELP_COMMAND w = (Inr (), w') \<and> raises w' = []"
  by (simp add: send_command_def send_def HELP_COMMAND_def idle_board_def tx_wait.simps sleep_def TX_GAP_US_def sx_defs)

lemma idle_command: "raises w = [] \<Longrightarrow> \<exists>w'. check_command idle_board w = Some (Inr 1, w') \<and> raises w' = []"
proof -
  assume "raises w = []"
  then obtain w1 where s: "send_command idle_board HELP_COMMAND w = (Inr (), w1)" "raises w1 = []"
    using idle_send by blast
  with idle_poll [of w1 "contains HELP_MARKER" "clock w1 + 3000000"] show ?thesis
    by (auto simp: check_command_def poll_marker_def ox_bind_def ox_lift_def HELP_MARKER_def sx_bind_def sx_return_def
        print_calm)
qed

lemma idle_scratch_burst:
  "raises w = [] \<Longrightarrow> \<exists>w'. ox_lift (check_scratch idle_board scratch_patterns) w = Some (Inr 1, w') \<and> raises w' = []"
  "raises w = [] \<Longrightarrow> \<exists>w'. ox_lift (check_burst idle_board) w = Some (Inr 1, w') \<and> raises w' = []"
  by (simp_all add: scratch_patterns_def check_burst_def ox_lift_def idle_board_def sx_bind_def sx_return_def print_calm
      split: list.splits)

theorem verdict_counts_witness:
  "\<exists>w' lines. run_checks (ident_client ''b8008'') idle_board blank_os = Some (Inr 4, w') \<and>
     stdout_log w' = lines \<and> length lines = 5 \<and> length (filter (suffix FAIL) lines) = 4"
proof -
  have silent: "silent (ident_client ''b8008'') idle_board"
    by (auto simp: silent_def idle_board_def ident_client_def intro!: keeps_intros keeps_sleep_out)
  obtain w' where run: "run_checks (ident_client ''b8008'') idle_board blank_os = Some (Inr 4, w')"
  proof -
    have "raises blank_os = []" by (simp add: blank_os_def)
    then obtain w1 where w1: "ox_lift (check_identity (ident_client ''b8008'')) blank_os = Some (Inr 0, w1)" "raises w1 = []"
      using idle_identity by blast
    obtain w2 where w2: "check_banner idle_board w1 = Some (Inr 1, w2)" "raises w2 = []"
      using idle_banner [OF w1(2)] by blast
    obtain w3 where w3: "check_command idle_board w2 = Some (Inr 1, w3)" "raises w3 = []"
      using idle_command [OF w2(2)] by blast
    obtain w4 where w4: "ox_lift (check_scratch idle_board scratch_patterns) w3 = Some (Inr 1, w4)" "raises w4 = []"
      using idle_scratch_burst(1) [OF w3(2)] by blast
    obtain w5 where w5: "ox_lift (check_burst idle_board) w4 = Some (Inr 1, w5)"
      using idle_scratch_burst(2) [OF w4(2)] by blast
    show ?thesis
      using that [of w5] w1(1) w2(1) w3(1) w4(1) w5
      by (simp add: run_checks_def ox_bind_def ox_lift_def [of "sx_return _"] sx_return_def)
  qed
  from verdict_counts [OF silent run] run show ?thesis by (auto simp: blank_os_def)
qed

end
