(* ===== verification/C_Mem.thy ===== *)
theory C_Mem
  imports Prelude "HOL-Library.Monad_Syntax"
begin

text \<open>
  Byte buffers of the firmware's C code. A buffer is a list of bytes; reading or writing outside of
  it is undefined in C and is \<open>None\<close> here, so that a routine that returns \<open>Some\<close> has touched its
  buffers within bounds only. Pointers into a buffer are offsets.

  The big-endian accessors are those of \<^verbatim>\<open>src/firmware/eb8008.c\<close>; \<^verbatim>\<open>src/firmware/dhcp8008.c\<close> has the same
  two under other names.
\<close>

type_synonym u16 = "16 word"

subsection \<open>Bytes\<close>

definition rd8 :: "byte list \<Rightarrow> nat \<Rightarrow> byte option" where
  "rd8 buf p = (if p < length buf then Some (buf ! p) else None)"

definition wr8 :: "byte list \<Rightarrow> nat \<Rightarrow> byte \<Rightarrow> byte list option" where
  "wr8 buf p v = (if p < length buf then Some (buf[p := v]) else None)"

text \<open>A run of bytes stored one after the other, as by \<^verbatim>\<open>memcpy\<close> or a list of assignments.\<close>

fun wr_bytes :: "byte list \<Rightarrow> nat \<Rightarrow> byte list \<Rightarrow> byte list option" where
  "wr_bytes buf p [] = Some buf"
| "wr_bytes buf p (v # vs) = do { buf \<leftarrow> wr8 buf p v; wr_bytes buf (Suc p) vs }"

text \<open>A run of bytes read, as by \<^verbatim>\<open>memcpy\<close>.\<close>

definition rd_bytes :: "byte list \<Rightarrow> nat \<Rightarrow> nat \<Rightarrow> byte list option" where
  "rd_bytes buf p n = (if p + n \<le> length buf then Some (take n (drop p buf)) else None)"

subsection \<open>Big-endian words\<close>

definition get_be16 :: "byte list \<Rightarrow> nat \<Rightarrow> u16 option" where
  "get_be16 buf p = do { a \<leftarrow> rd8 buf p; b \<leftarrow> rd8 buf (p + 1); Some (push_bit 8 (ucast a) OR ucast b) }"

definition be16 :: "u16 \<Rightarrow> byte list" where
  "be16 v = [ucast (drop_bit 8 v), ucast v]"

definition put_be16 :: "byte list \<Rightarrow> nat \<Rightarrow> u16 \<Rightarrow> byte list option" where
  "put_be16 buf p v = wr_bytes buf p (be16 v)"

definition get_be32 :: "byte list \<Rightarrow> nat \<Rightarrow> u32 option" where
  "get_be32 buf p = do {
     a \<leftarrow> rd8 buf p; b \<leftarrow> rd8 buf (p + 1); c \<leftarrow> rd8 buf (p + 2); d \<leftarrow> rd8 buf (p + 3);
     Some (push_bit 24 (ucast a) OR push_bit 16 (ucast b) OR push_bit 8 (ucast c) OR ucast d) }"

definition be32 :: "u32 \<Rightarrow> byte list" where
  "be32 v = [ucast (drop_bit 24 v), ucast (drop_bit 16 v), ucast (drop_bit 8 v), ucast v]"

definition put_be32 :: "byte list \<Rightarrow> nat \<Rightarrow> u32 \<Rightarrow> byte list option" where
  "put_be32 buf p v = wr_bytes buf p (be32 v)"

lemma length_be32 [simp]: "length (be32 v) = 4"
  by (simp add: be32_def)

lemma length_be16 [simp]: "length (be16 v) = 2"
  by (simp add: be16_def)

lemma wr_bytes_eq:
  "wr_bytes buf p vs =
     (if p + length vs \<le> length buf \<or> vs = [] then Some (take p buf @ vs @ drop (p + length vs) buf) else None)"
proof (induction vs arbitrary: buf p)
  case (Cons v vs)
  show ?case
  proof (cases "p < length buf")
    case True
    then have "take (Suc p) (buf[p := v]) = take p buf @ [v]" "drop (Suc (p + length vs)) (buf[p := v]) = drop (Suc (p + length vs)) buf"
      by (simp_all add: take_Suc_conv_app_nth)
    with True Cons.IH [of "buf[p := v]" "Suc p"] show ?thesis
      by (auto simp: wr8_def)
  next
    case False
    then show ?thesis by (simp add: wr8_def)
  qed
qed simp

lemma be32_combine:
  "push_bit 24 (ucast (ucast (drop_bit 24 v) :: byte)) OR push_bit 16 (ucast (ucast (drop_bit 16 v) :: byte)) OR
   push_bit 8 (ucast (ucast (drop_bit 8 v) :: byte)) OR ucast (ucast v :: byte) = (v :: u32)"
  (is "?w = v")
proof (rule bit_word_eqI)
  fix n
  assume "n < LENGTH(32)"
  then consider "n < 8" | "8 \<le> n" "n < 16" | "16 \<le> n" "n < 24" | "24 \<le> n" "n < 32" by fastforce
  then show "bit ?w n = bit v n" by cases (auto simp: bit_simps)
qed

lemma get_be32_app: "p = length xs \<Longrightarrow> get_be32 (xs @ be32 v @ ys) p = Some v"
  by (simp add: get_be32_def rd8_def be32_def nth_append be32_combine)

lemma get_be32_Some: "get_be32 buf p \<noteq> None \<longleftrightarrow> p + 4 \<le> length buf"
  by (auto simp: get_be32_def rd8_def)

lemma be16_combine: "push_bit 8 (ucast (ucast (drop_bit 8 v) :: byte)) OR ucast (ucast v :: byte) = (v :: u16)"
  (is "?w = v")
proof (rule bit_word_eqI)
  fix n
  assume "n < LENGTH(16)"
  then consider "n < 8" | "8 \<le> n" "n < 16" by fastforce
  then show "bit ?w n = bit v n" by cases (auto simp: bit_simps)
qed

lemma get_be16_app: "p = length xs \<Longrightarrow> get_be16 (xs @ be16 v @ ys) p = Some v"
  by (simp add: get_be16_def rd8_def be16_def nth_append be16_combine)

lemma get_be16_Some: "get_be16 buf p \<noteq> None \<longleftrightarrow> p + 2 \<le> length buf"
  by (auto simp: get_be16_def rd8_def)

lemma rd_bytes_app: "p = length xs \<Longrightarrow> n = length ys \<Longrightarrow> rd_bytes (xs @ ys @ zs) p n = Some ys"
  by (simp add: rd_bytes_def)

lemma rd8_app: "p = length xs \<Longrightarrow> rd8 (xs @ y # zs) p = Some y"
  by (simp add: rd8_def)

lemma put_be32_eq:
  "put_be32 buf p v = (if p + 4 \<le> length buf then Some (take p buf @ be32 v @ drop (p + 4) buf) else None)"
  using wr_bytes_eq [of buf p "be32 v"] by (auto simp: put_be32_def simp flip: length_0_conv)

end
