(* ===== verification/Eb8008.thy ===== *)
theory Eb8008
  imports C_Mem
begin

text \<open>
  The firmware's software Etherbone server, \<^verbatim>\<open>src/firmware/eb8008.c\<close>: one request datagram in, the bus
  accesses it asks for, one reply datagram out.

  The processor's bus is a parameter (\<open>bus\<close>), with a state of its own: a read may have an effect. A
  result \<open>None\<close> means that the C code would have read or written outside of its buffers.
\<close>

record 'b bus =
  bus_read :: "u32 \<Rightarrow> 'b \<Rightarrow> u32 \<times> 'b"
  bus_write :: "u32 \<Rightarrow> u32 \<Rightarrow> 'b \<Rightarrow> 'b"

definition EB_MAGIC0 :: byte where "EB_MAGIC0 = 0x4e"
definition EB_MAGIC1 :: byte where "EB_MAGIC1 = 0x6f"
definition EB_PF :: byte where "EB_PF = 0x01"
definition EB_PR :: byte where "EB_PR = 0x02"

definition header :: "bool \<Rightarrow> byte list" where
  "header pr = [EB_MAGIC0, EB_MAGIC1, 0x10 OR (if pr then EB_PR else 0), 0x44, 0, 0, 0, 0]"

definition put_header :: "byte list \<Rightarrow> nat \<Rightarrow> bool \<Rightarrow> byte list option" where
  "put_header buf p pr = wr_bytes buf p (header pr)"

subsection \<open>The accesses of a record\<close>

text \<open>The two \<^verbatim>\<open>for\<close> loops, from iteration \<open>i\<close> on, \<open>n\<close> iterations to go.\<close>

fun write_loop :: "('b, 'z) bus_scheme \<Rightarrow> byte list \<Rightarrow> u32 \<Rightarrow> nat \<Rightarrow> nat \<Rightarrow> nat \<Rightarrow> 'b \<Rightarrow> 'b option" where
  "write_loop B req addr i 0 p b = Some b"
| "write_loop B req addr i (Suc n) p b = do {
     v \<leftarrow> get_be32 req p;
     write_loop B req addr (Suc i) n (p + 4) (bus_write B (addr + 4 * of_nat i) v b) }"

fun read_loop ::
    "('b, 'z) bus_scheme \<Rightarrow> byte list \<Rightarrow> nat \<Rightarrow> nat \<Rightarrow> byte list \<Rightarrow> nat \<Rightarrow> 'b \<Rightarrow> (byte list \<times> nat \<times> 'b) option" where
  "read_loop B req 0 p resp len b = Some (resp, len, b)"
| "read_loop B req (Suc n) p resp len b = do {
     addr \<leftarrow> get_be32 req p;
     let (v, b) = bus_read B addr b;
     resp \<leftarrow> put_be32 resp len v;
     read_loop B req n (p + 4) resp (len + 4) b }"

subsection \<open>The records\<close>

text \<open>
  The body of the \<^verbatim>\<open>while\<close> loop in its two halves, each at the offset it has reached, and \<open>None\<close> for the
  \<^verbatim>\<open>break\<close> of a record that does not fit. Results are doubly optional: the outer \<open>None\<close> is an access out
  of bounds.
\<close>

definition write_part ::
    "('b, 'z) bus_scheme \<Rightarrow> byte list \<Rightarrow> nat \<Rightarrow> nat \<Rightarrow> 'b \<Rightarrow> (nat \<times> 'b) option option" where
  "write_part B req wcount p b =
     (if wcount = 0 then Some (Some (p, b))
      else if p + 4 * (1 + wcount) > length req then Some None
      else do {
        addr \<leftarrow> get_be32 req p;
        b \<leftarrow> write_loop B req addr 0 wcount (p + 4) b;
        Some (Some (p + 4 * (1 + wcount), b)) })"

definition reply_record :: "nat \<Rightarrow> u32 \<Rightarrow> byte list" where
  "reply_record rcount base = [0, 0x0F, of_nat rcount, 0] @ be32 base"

definition read_part ::
    "('b, 'z) bus_scheme \<Rightarrow> byte list \<Rightarrow> nat \<Rightarrow> nat \<Rightarrow> byte list \<Rightarrow> nat \<Rightarrow> 'b \<Rightarrow>
     (nat \<times> byte list \<times> nat \<times> 'b) option option" where
  "read_part B req rcount p resp len b =
     (if rcount = 0 then Some (Some (p, resp, len, b))
      else if p + 4 * (1 + rcount) > length req then Some None
      else do {
        base_ret_addr \<leftarrow> get_be32 req p;
        resp \<leftarrow> (if len = 0 then put_header resp 0 False else Some resp);
        resp \<leftarrow> wr_bytes resp (if len = 0 then 8 else len) (reply_record rcount base_ret_addr);
        (resp, len, b) \<leftarrow> read_loop B req rcount (p + 4) resp ((if len = 0 then 8 else len) + 8) b;
        Some (Some (p + 4 * (1 + rcount), resp, len, b)) })"

lemma write_part_progress: "write_part B req n p b = Some (Some (p', b')) \<Longrightarrow> p \<le> p'"
  by (auto simp: write_part_def split: if_splits bind_splits)

lemma read_part_progress: "read_part B req n p resp len b = Some (Some (p', r')) \<Longrightarrow> p \<le> p'"
  by (auto simp: read_part_def split: if_splits bind_splits)

function handle_loop ::
    "('b, 'z) bus_scheme \<Rightarrow> byte list \<Rightarrow> nat \<Rightarrow> byte list \<Rightarrow> nat \<Rightarrow> 'b \<Rightarrow> (byte list \<times> nat \<times> 'b) option" where
  "handle_loop B req p resp len b =
     (if p + 4 \<le> length req
      then case (rd8 req (p + 2), rd8 req (p + 3)) of
          (Some wcount, Some rcount) \<Rightarrow>
            (case write_part B req (unat wcount) (p + 4) b of
               None \<Rightarrow> None
             | Some None \<Rightarrow> Some (resp, len, b)
             | Some (Some (p1, b1)) \<Rightarrow>
                 (case read_part B req (unat rcount) p1 resp len b1 of
                    None \<Rightarrow> None
                  | Some None \<Rightarrow> Some (resp, len, b1)
                  | Some (Some (p2, resp2, len2, b2)) \<Rightarrow> handle_loop B req p2 resp2 len2 b2))
        | _ \<Rightarrow> None
      else Some (resp, len, b))"
  by pat_completeness auto
termination
  by (relation "measure (\<lambda>(B, req, p, resp, len, b). length req - p)")
    (auto dest!: write_part_progress read_part_progress)

declare handle_loop.simps [simp del]

definition eb8008_handle ::
    "('b, 'z) bus_scheme \<Rightarrow> byte list \<Rightarrow> byte list \<Rightarrow> 'b \<Rightarrow> (byte list \<times> nat \<times> 'b) option" where
  "eb8008_handle B req resp b =
     (if length req < 8 then Some (resp, 0, b)
      else do {
        m0 \<leftarrow> rd8 req 0; m1 \<leftarrow> rd8 req 1;
        if m0 \<noteq> EB_MAGIC0 \<or> m1 \<noteq> EB_MAGIC1 then Some (resp, 0, b)
        else do {
          flags \<leftarrow> rd8 req 2;
          if flags AND EB_PF \<noteq> 0
          then do { resp \<leftarrow> put_header resp 0 True; resp \<leftarrow> put_be32 resp 8 0; Some (resp, 12, b) }
          else handle_loop B req 8 resp 0 b } })"

subsection \<open>Within bounds\<close>

lemma write_loop_safe:
  "p + 4 * n \<le> length req \<Longrightarrow> \<exists>b'. write_loop B req addr i n p b = Some b'"
proof (induction n arbitrary: i p b)
  case (Suc n)
  then obtain v where "get_be32 req p = Some v" using get_be32_Some [of req p] by auto
  with Suc.IH [of "p + 4"] Suc.prems show ?case by simp
qed simp

lemma read_loop_safe:
  assumes "p + 4 * n \<le> length req" "len + 4 * n \<le> length resp"
  shows "\<exists>resp' b'. read_loop B req n p resp len b = Some (resp', len + 4 * n, b') \<and>
    length resp' = length resp \<and> drop (len + 4 * n) resp' = drop (len + 4 * n) resp"
  using assms
proof (induction n arbitrary: p resp len b)
  case (Suc n)
  obtain addr where a: "get_be32 req p = Some addr" using Suc.prems get_be32_Some [of req p] by auto
  obtain v b1 where v: "bus_read B addr b = (v, b1)" by (rule prod.exhaust)
  let ?resp = "take len resp @ be32 v @ drop (len + 4) resp"
  have resp: "put_be32 resp len v = Some ?resp" using Suc.prems by (simp add: put_be32_eq)
  have "length ?resp = length resp" "drop (len + 4 + 4 * n) ?resp = drop (len + 4 + 4 * n) resp"
    using Suc.prems by (simp_all add: ac_simps)
  with Suc.IH [of "p + 4" "len + 4" ?resp b1] Suc.prems a v resp show ?case
    by (simp add: ac_simps)
qed simp

lemma length_header [simp]: "length (header pr) = 8"
  by (simp add: header_def)

lemma put_header_eq:
  "8 \<le> length resp \<Longrightarrow> put_header resp 0 pr = Some (header pr @ drop 8 resp)"
  by (simp add: put_header_def wr_bytes_eq)

lemma reply_record_length [simp]: "length (reply_record n base) = 8"
  by (simp add: reply_record_def)

lemma reply_record_not_Nil [simp]: "reply_record n base \<noteq> []"
  by (simp add: reply_record_def)

lemma write_part_safe: "\<exists>r. write_part B req n p b = Some r"
proof (cases "n = 0 \<or> p + 4 * (1 + n) > length req")
  case False
  then obtain addr where a: "get_be32 req p = Some addr" using get_be32_Some [of req p] by auto
  from False obtain b' where "write_loop B req addr 0 n (p + 4) b = Some b'"
    using write_loop_safe [of "p + 4" n req B addr 0 b] by auto
  with False a show ?thesis by (simp add: write_part_def)
qed (auto simp: write_part_def)

lemma read_part_safe:
  assumes "length req \<le> length resp" "12 \<le> p" "len + 4 \<le> p"
  shows "read_part B req n p resp len b = Some None \<or>
    (\<exists>p' resp' len' b'. read_part B req n p resp len b = Some (Some (p', resp', len', b')) \<and> p \<le> p' \<and>
       length resp' = length resp \<and> len' \<le> p' \<and> len \<le> len' \<and> (len' = len \<or> p' \<le> length req) \<and>
       drop len' resp' = drop len' resp)"
proof (cases "n = 0 \<or> p + 4 * (1 + n) > length req")
  case True
  then show ?thesis using assms by (auto simp: read_part_def)
next
  case False
  then obtain base where base: "get_be32 req p = Some base" using get_be32_Some [of req p] by auto
  define l0 where "l0 = (if len = 0 then 8 else len)"
  obtain r0 where r0: "(if len = 0 then put_header resp 0 False else Some resp) = Some r0"
      "length r0 = length resp" "drop l0 r0 = drop l0 resp"
    using assms False put_header_eq [of resp False] by (cases "len = 0") (auto simp: l0_def)
  have fit: "l0 + 8 + 4 * n \<le> length resp" "l0 + 8 + 4 * n \<le> p + 4 + 4 * n" "len \<le> l0"
    using assms False by (auto simp: l0_def)
  define r1 where "r1 = take l0 r0 @ reply_record n base @ drop (l0 + 8) r0"
  have r1: "wr_bytes r0 l0 (reply_record n base) = Some r1" "length r1 = length resp"
      "drop (l0 + 8) r1 = drop (l0 + 8) r0"
    using fit r0(2) by (auto simp: wr_bytes_eq r1_def)
  obtain r2 b2 where r2: "read_loop B req n (p + 4) r1 (l0 + 8) b = Some (r2, l0 + 8 + 4 * n, b2)"
      "length r2 = length resp" "drop (l0 + 8 + 4 * n) r2 = drop (l0 + 8 + 4 * n) r1"
    using read_loop_safe [of "p + 4" n req "l0 + 8" r1 B b] fit r1(2) False by auto
  have "drop (l0 + 8 + 4 * n) r1 = drop (l0 + 8 + 4 * n) resp"
    using r1(3) r0(3) by (metis add.commute drop_drop)
  then show ?thesis
    using False base r0 r1 r2 fit assms
    by (auto simp: read_part_def l0_def [symmetric] split: if_splits)
qed

lemma handle_loop_safe:
  assumes "length req \<le> length resp" "8 \<le> p" "len \<le> p"
  shows "\<exists>resp' len' b'. handle_loop B req p resp len b = Some (resp', len', b') \<and>
    length resp' = length resp \<and> len \<le> len' \<and> (len' = len \<or> len' \<le> length req) \<and> drop len' resp' = drop len' resp"
  using assms
proof (induction "length req - p" arbitrary: p resp len b rule: less_induct)
  case less
  show ?case
  proof (cases "p + 4 \<le> length req")
    case True
    then obtain wc rc where c: "rd8 req (p + 2) = Some wc" "rd8 req (p + 3) = Some rc" by (auto simp: rd8_def)
    obtain r where w: "write_part B req (unat wc) (p + 4) b = Some r"
      using write_part_safe [of B req "unat wc" "p + 4" b] by (rule exE)
    show ?thesis
    proof (cases r)
      case None
      with True c w show ?thesis by (subst handle_loop.simps) simp
    next
      case (Some pb)
      obtain p1 b1 where pb: "pb = (p1, b1)" by (rule prod.exhaust)
      have p1: "p + 4 \<le> p1" using write_part_progress w Some pb by auto
      from read_part_safe [OF less.prems(1), of p1 len B "unat rc" b1] p1 less.prems
      consider (stop) "read_part B req (unat rc) p1 resp len b1 = Some None"
        | (go) p2 resp2 len2 b2 where "read_part B req (unat rc) p1 resp len b1 = Some (Some (p2, resp2, len2, b2))"
            "p1 \<le> p2" "length resp2 = length resp" "len2 \<le> p2" "len \<le> len2" "len2 = len \<or> p2 \<le> length req"
            "drop len2 resp2 = drop len2 resp"
        by fastforce
      then show ?thesis
      proof cases
        case stop
        with True c w Some pb show ?thesis by (subst handle_loop.simps) simp
      next
        case go
        have "handle_loop B req p resp len b = handle_loop B req p2 resp2 len2 b2"
          using True c w Some pb go(1) by (subst handle_loop.simps) simp
        moreover have "length req - p2 < length req - p" "length req \<le> length resp2" "8 \<le> p2"
          using True p1 go less.prems by auto
        from less.hyps [OF this go(4)] obtain resp' len' b' where
          "handle_loop B req p2 resp2 len2 b2 = Some (resp', len', b')" "length resp' = length resp2"
          "len2 \<le> len'" "len' = len2 \<or> len' \<le> length req" "drop len' resp' = drop len' resp2" by blast
        moreover have "drop len' resp2 = drop len' resp"
          using go(7) \<open>len2 \<le> len'\<close> by (metis drop_drop le_add_diff_inverse2)
        ultimately show ?thesis using go by auto
      qed
    qed
  next
    case False
    then show ?thesis by (subst handle_loop.simps) simp
  qed
qed

lemma handle_bounded:
  assumes "max 12 (length req) \<le> length resp"
  shows "\<exists>resp' len b'. eb8008_handle B req resp b = Some (resp', len, b') \<and> length resp' = length resp \<and>
    len \<le> max 12 (length req) \<and> drop len resp' = drop len resp"
proof (cases "length req < 8")
  case True
  then show ?thesis by (simp add: eb8008_handle_def)
next
  case False
  then have rd: "rd8 req 0 = Some (req ! 0)" "rd8 req 1 = Some (req ! 1)" "rd8 req 2 = Some (req ! 2)"
    by (auto simp: rd8_def)
  have probe: "put_header resp 0 True = Some (header True @ drop 8 resp)"
      "put_be32 (header True @ drop 8 resp) 8 0 = Some (header True @ be32 0 @ drop 12 resp)"
    using assms put_header_eq [of resp True] by (simp_all add: put_be32_eq)
  obtain resp' len b' where loop: "handle_loop B req 8 resp 0 b = Some (resp', len, b')" "length resp' = length resp"
      "len = 0 \<or> len \<le> length req" "drop len resp' = drop len resp"
    using handle_loop_safe [of req resp 8 0 B b] assms by auto
  show ?thesis
  proof (cases "req ! 2 AND EB_PF = 0")
    case True
    then show ?thesis using False rd loop by (auto simp: eb8008_handle_def)
  next
    case pf: False
    then show ?thesis using False rd probe assms by (auto simp: eb8008_handle_def)
  qed
qed

text \<open>
  C6. The server stays within its buffers, whatever arrives: for every request, well-formed or not, and
  every reply buffer of at least the request's length and at least 12 bytes, \<^verbatim>\<open>eb8008_handle\<close> reads and
  writes inside the two buffers only and returns; the reply is no longer than that bound, so well
  within the documented request length plus 16, and the buffer behind it is untouched.
\<close>

theorem handle_within_bounds:
  assumes "max 12 (length req) \<le> length resp"
  shows "\<exists>resp' len b'. eb8008_handle B req resp b = Some (resp', len, b') \<and> length resp' = length resp \<and>
    len \<le> max 12 (length req) \<and> drop len resp' = drop len resp"
  using assms by (rule handle_bounded)

text \<open>A bus that is a memory of words.\<close>

definition mem_bus :: "(u32 \<Rightarrow> u32) bus" where
  "mem_bus = \<lparr>bus_read = (\<lambda>a m. (m a, m)), bus_write = (\<lambda>a v m. m(a := v))\<rparr>"

theorem handle_within_bounds_witness:
  "\<exists>resp' len m'. eb8008_handle mem_bus [0x4e, 0x6f, 0x10, 0x44, 0, 0, 0, 0, 0, 0, 0, 255, 1] (replicate 13 7) (\<lambda>_. 0) =
     Some (resp', len, m') \<and> len \<le> 13 \<and> drop len resp' = drop len (replicate 13 7)"
  using handle_within_bounds [of "[0x4e, 0x6f, 0x10, 0x44, 0, 0, 0, 0, 0, 0, 0, 255, 1]" "replicate 13 7" mem_bus "\<lambda>_. 0"]
  by auto

subsection \<open>What is served\<close>

text \<open>
  A record of a request as its sender means it: a base address and the words to write from there on,
  a return address and the addresses to read. The first two bytes of its header the server ignores.
\<close>

record eb_record =
  rec_flags :: "byte \<times> byte"
  write_base :: u32
  write_data :: "u32 list"
  ret_addr :: u32
  read_addrs :: "u32 list"

definition words :: "u32 list \<Rightarrow> byte list" where
  "words vs = concat (map be32 vs)"

definition counted :: "u32 \<Rightarrow> u32 list \<Rightarrow> byte list" where
  "counted base vs = (if vs = [] then [] else be32 base @ words vs)"

definition record_bytes :: "eb_record \<Rightarrow> byte list" where
  "record_bytes r =
     [fst (rec_flags r), snd (rec_flags r), of_nat (length (write_data r)), of_nat (length (read_addrs r))] @
     counted (write_base r) (write_data r) @ counted (ret_addr r) (read_addrs r)"

definition fits :: "eb_record \<Rightarrow> bool" where
  "fits r \<longleftrightarrow> length (write_data r) < 256 \<and> length (read_addrs r) < 256"

text \<open>What serving it does: the writes, then the reads, each in order.\<close>

fun write_all :: "('b, 'z) bus_scheme \<Rightarrow> u32 \<Rightarrow> u32 list \<Rightarrow> 'b \<Rightarrow> 'b" where
  "write_all B base [] b = b"
| "write_all B base (v # vs) b = write_all B (base + 4) vs (bus_write B base v b)"

fun read_all :: "('b, 'z) bus_scheme \<Rightarrow> u32 list \<Rightarrow> 'b \<Rightarrow> u32 list \<times> 'b" where
  "read_all B [] b = ([], b)"
| "read_all B (a # as) b =
     (let (v, b1) = bus_read B a b; (vs, b2) = read_all B as b1 in (v # vs, b2))"

fun serve_records :: "('b, 'z) bus_scheme \<Rightarrow> eb_record list \<Rightarrow> 'b \<Rightarrow> byte list \<times> 'b" where
  "serve_records B [] b = ([], b)"
| "serve_records B (r # rs) b =
     (let b1 = write_all B (write_base r) (write_data r) b;
          (vs, b2) = read_all B (read_addrs r) b1;
          (rest, b3) = serve_records B rs b2
      in ((if read_addrs r = [] then [] else reply_record (length vs) (ret_addr r) @ words vs) @ rest, b3))"

definition reply_bytes :: "byte list \<Rightarrow> byte list" where
  "reply_bytes body = (if body = [] then [] else header False @ body)"

lemma length_words [simp]: "length (words vs) = 4 * length vs"
  by (induction vs) (simp_all add: words_def)

lemma words_Cons [simp]: "words (v # vs) = be32 v @ words vs" "words [] = []"
  by (simp_all add: words_def)

lemma read_all_length: "length (fst (read_all B as b)) = length as"
  by (induction B as b rule: read_all.induct) (auto split: prod.splits)

lemma write_loop_all:
  assumes "req = xs @ words vs @ ys" "p = length xs"
  shows "write_loop B req base i (length vs) p b = Some (write_all B (base + 4 * of_nat i) vs b)"
  using assms
proof (induction vs arbitrary: xs p i b)
  case (Cons v vs)
  then have "get_be32 req p = Some v" using get_be32_app [of p xs v "words vs @ ys"] by simp
  with Cons.IH [of "xs @ be32 v" "p + 4" "Suc i"] Cons.prems show ?case
    by (simp add: algebra_simps)
qed simp

lemma read_loop_all:
  assumes "req = xs @ words as @ ys" "p = length xs" "len + 4 * length as \<le> length resp" "read_all B as b = (vs, b')"
  shows "read_loop B req (length as) p resp len b =
    Some (take len resp @ words vs @ drop (len + 4 * length as) resp, len + 4 * length as, b')"
  using assms
proof (induction as arbitrary: xs p resp len b vs)
  case (Cons a as)
  then have a: "get_be32 req p = Some a" using get_be32_app [of p xs a "words as @ ys"] by simp
  obtain v b1 where v: "bus_read B a b = (v, b1)" by (rule prod.exhaust)
  obtain vs' where vs: "read_all B as b1 = (vs', b')" "vs = v # vs'"
    using Cons.prems(4) v by (auto split: prod.splits)
  let ?resp = "take len resp @ be32 v @ drop (len + 4) resp"
  have "put_be32 resp len v = Some ?resp" using Cons.prems(3) by (simp add: put_be32_eq)
  moreover have "read_loop B req (length as) (p + 4) ?resp (len + 4) b1 =
      Some (take (len + 4) ?resp @ words vs' @ drop (len + 4 + 4 * length as) ?resp, len + 4 + 4 * length as, b')"
    using Cons.prems(1-3) vs(1) by (intro Cons.IH [of "xs @ be32 a"]) auto
  ultimately show ?case using Cons.prems(3) a v vs(2) by (simp add: ac_simps)
qed simp

lemma write_part_all:
  assumes "req = xs @ counted base vs @ ys" "p = length xs"
  shows "write_part B req (length vs) p b = Some (Some (p + length (counted base vs), write_all B base vs b))"
proof (cases "vs = []")
  case False
  then have req: "req = xs @ be32 base @ words vs @ ys" using assms(1) by (simp add: counted_def)
  then have "get_be32 req p = Some base" using get_be32_app [of p xs base "words vs @ ys"] assms(2) by simp
  moreover have "write_loop B req base 0 (length vs) (p + 4) b = Some (write_all B base vs b)"
    using write_loop_all [of req "xs @ be32 base" vs ys "p + 4" B base 0 b] req assms(2) by simp
  ultimately show ?thesis using False req assms(2) by (simp add: write_part_def counted_def)
qed (simp add: write_part_def counted_def)

text \<open>The reply so far and what a record adds to it.\<close>

definition extend :: "byte list \<Rightarrow> byte list \<Rightarrow> byte list" where
  "extend so_far xs = (if xs = [] then so_far else (if so_far = [] then header False else so_far) @ xs)"

lemma extend_append: "extend (extend so_far xs) ys = extend so_far (xs @ ys)"
  by (simp add: extend_def)

definition holds_reply :: "byte list \<Rightarrow> nat \<Rightarrow> byte list \<Rightarrow> bool" where
  "holds_reply resp len so_far \<longleftrightarrow> len = length so_far \<and> len \<le> length resp \<and> take len resp = so_far"

definition chunk :: "u32 \<Rightarrow> u32 list \<Rightarrow> byte list" where
  "chunk ret vs = (if vs = [] then [] else reply_record (length vs) ret @ words vs)"

lemma read_part_all:
  assumes "req = xs @ counted ret as @ ys" "p = length xs" "length req \<le> length resp" "12 \<le> p" "len + 4 \<le> p"
    and "holds_reply resp len R" "read_all B as b = (vs, b')"
  shows "\<exists>resp'. read_part B req (length as) p resp len b =
      Some (Some (p + length (counted ret as), resp', length (extend R (chunk ret vs)), b')) \<and>
    length resp' = length resp \<and> holds_reply resp' (length (extend R (chunk ret vs))) (extend R (chunk ret vs))"
proof (cases "as = []")
  case True
  then show ?thesis
    using assms(6,7) by (auto simp: read_part_def counted_def chunk_def extend_def holds_reply_def)
next
  case False
  have n: "length vs = length as" using read_all_length [of B as b] assms(7) by simp
  have req: "req = xs @ be32 ret @ words as @ ys" using False assms(1) by (simp add: counted_def)
  then have base: "get_be32 req p = Some ret" using get_be32_app [of p xs ret "words as @ ys"] assms(2) by simp
  define R0 where "R0 = (if R = [] then header False else R)"
  define r0 where "r0 = R0 @ drop (length R0) resp"
  have fit: "length R0 + 8 + 4 * length as \<le> length resp"
    using req assms(2-6) by (auto simp: R0_def holds_reply_def)
  have "R @ drop (length R) resp = resp" using assms(6) unfolding holds_reply_def by (metis append_take_drop_id)
  then have r0: "(if len = 0 then put_header resp 0 False else Some resp) = Some r0"
    using assms(6) fit put_header_eq [of resp False]
    by (auto simp: r0_def R0_def holds_reply_def split: if_splits)
  have l0: "(if len = 0 then 8 else len) = length R0" using assms(6) by (auto simp: R0_def holds_reply_def)
  define r1 where "r1 = R0 @ reply_record (length as) ret @ drop (length R0 + 8) resp"
  have r1: "wr_bytes r0 (length R0) (reply_record (length as) ret) = Some r1"
    using fit by (simp add: wr_bytes_eq r0_def r1_def add.commute)
  define r2 where "r2 = R0 @ reply_record (length as) ret @ words vs @ drop (length R0 + 8 + 4 * length as) resp"
  have r2: "read_loop B req (length as) (p + 4) r1 (length R0 + 8) b =
      Some (r2, length R0 + 8 + 4 * length as, b')"
    using read_loop_all [of req "xs @ be32 ret" as ys "p + 4" "length R0 + 8" r1 B b vs b'] req assms(2,7) fit
    by (simp add: r1_def r2_def ac_simps)
  have len': "length (extend R (chunk ret vs)) = length R0 + 8 + 4 * length as"
    using False n by (auto simp: extend_def chunk_def R0_def)
  have "read_part B req (length as) p resp len b =
      Some (Some (p + length (counted ret as), r2, length (extend R (chunk ret vs)), b'))"
    using False base r0 r1 r2 req assms(2) unfolding read_part_def l0 len'
    by (simp add: counted_def)
  moreover have "length r2 = length resp" using fit n by (simp add: r2_def)
  moreover have "holds_reply r2 (length (extend R (chunk ret vs))) (extend R (chunk ret vs))"
    using fit n False unfolding len' holds_reply_def by (auto simp: r2_def extend_def chunk_def R0_def)
  ultimately show ?thesis by blast
qed

lemma handle_loop_records:
  assumes "list_all fits rs" "req = xs @ concat (map record_bytes rs) @ ys" "length ys < 4" "p = length xs"
    and "8 \<le> p" "len \<le> p" "length req \<le> length resp" "holds_reply resp len R" "serve_records B rs b = (body, b')"
  shows "\<exists>resp'. handle_loop B req p resp len b = Some (resp', length (extend R body), b') \<and>
    holds_reply resp' (length (extend R body)) (extend R body)"
  using assms
proof (induction rs arbitrary: xs p resp len R b body)
  case Nil
  then show ?case by (subst handle_loop.simps) (auto simp: extend_def holds_reply_def)
next
  case (Cons r rs)
  let ?w = "counted (write_base r) (write_data r)" and ?r = "counted (ret_addr r) (read_addrs r)"
  let ?hd = "[fst (rec_flags r), snd (rec_flags r), of_nat (length (write_data r)), of_nat (length (read_addrs r)) :: byte]"
  have fit: "length (write_data r) < 256" "length (read_addrs r) < 256" "list_all fits rs"
    using Cons.prems(1) by (simp_all add: fits_def [of r])
  have req: "req = xs @ ?hd @ ?w @ ?r @ concat (map record_bytes rs) @ ys"
    using Cons.prems(2) by (simp add: record_bytes_def [of r])
  have counts: "rd8 req (p + 2) = Some (of_nat (length (write_data r)))" "rd8 req (p + 3) = Some (of_nat (length (read_addrs r)))"
    using Cons.prems(4) by (simp_all add: req rd8_def nth_append)
  have unat: "unat (of_nat (length (write_data r)) :: byte) = length (write_data r)"
      "unat (of_nat (length (read_addrs r)) :: byte) = length (read_addrs r)"
    using fit by (simp_all add: unat_of_nat)
  obtain vs b2 where reads: "read_all B (read_addrs r) (write_all B (write_base r) (write_data r) b) = (vs, b2)"
    by (rule prod.exhaust)
  have n: "length vs = length (read_addrs r)" "vs = [] \<longleftrightarrow> read_addrs r = []"
    using reads read_all_length [of B "read_addrs r" "write_all B (write_base r) (write_data r) b"]
    by (auto simp flip: length_0_conv)
  obtain rest where rest: "serve_records B rs b2 = (rest, b')" "body = chunk (ret_addr r) vs @ rest"
    using Cons.prems(9) reads n by (auto simp: Let_def chunk_def split: prod.splits)
  have w: "write_part B req (length (write_data r)) (p + 4) b =
      Some (Some (p + 4 + length ?w, write_all B (write_base r) (write_data r) b))"
    by (rule write_part_all [of req "xs @ ?hd" _ _ "?r @ concat (map record_bytes rs) @ ys"])
      (simp_all add: req Cons.prems(4))
  obtain resp1 where rd: "read_part B req (length (read_addrs r)) (p + 4 + length ?w) resp len
        (write_all B (write_base r) (write_data r) b) =
      Some (Some (p + 4 + length ?w + length ?r, resp1, length (extend R (chunk (ret_addr r) vs)), b2))"
      "length resp1 = length resp"
      "holds_reply resp1 (length (extend R (chunk (ret_addr r) vs))) (extend R (chunk (ret_addr r) vs))"
    using read_part_all [of req "xs @ ?hd @ ?w" "ret_addr r" "read_addrs r" "concat (map record_bytes rs) @ ys"
        "p + 4 + length ?w" resp len R B _ vs b2] reads Cons.prems(4-8)
    by (auto simp: req)
  have "\<exists>resp'. handle_loop B req (p + 4 + length ?w + length ?r) resp1 (length (extend R (chunk (ret_addr r) vs))) b2 =
      Some (resp', length (extend (extend R (chunk (ret_addr r) vs)) rest), b') \<and>
    holds_reply resp' (length (extend (extend R (chunk (ret_addr r) vs)) rest)) (extend (extend R (chunk (ret_addr r) vs)) rest)"
  proof (rule Cons.IH [OF fit(3) _ Cons.prems(3) _ _ _ _ rd(3) rest(1)])
    show "req = (xs @ ?hd @ ?w @ ?r) @ concat (map record_bytes rs) @ ys" by (simp add: req)
    show "length (extend R (chunk (ret_addr r) vs)) \<le> p + 4 + length ?w + length ?r"
      using n Cons.prems(5,6,8) by (auto simp: extend_def chunk_def counted_def holds_reply_def)
  qed (use Cons.prems(4,5,7) rd(2) in simp_all)
  then show ?case
    using counts unat w rd(1) rest(2) req Cons.prems(4)
    by (subst handle_loop.simps) (simp add: extend_append)
qed

text \<open>The header of a request that is not a probe: the magic, and the probe flag clear.\<close>

definition request_header :: "byte list \<Rightarrow> bool" where
  "request_header hdr \<longleftrightarrow> length hdr = 8 \<and> hdr ! 0 = EB_MAGIC0 \<and> hdr ! 1 = EB_MAGIC1 \<and> hdr ! 2 AND EB_PF = 0"

lemma handle_records:
  assumes "request_header hdr" "list_all fits rs" "length ys < 4" "req = hdr @ concat (map record_bytes rs) @ ys"
    and "length req \<le> length resp" "serve_records B rs b = (body, b')"
  shows "\<exists>resp'. eb8008_handle B req resp b = Some (resp', length (reply_bytes body), b') \<and>
    take (length (reply_bytes body)) resp' = reply_bytes body"
proof -
  have hdr: "length hdr = 8" "hdr ! 0 = EB_MAGIC0" "hdr ! 1 = EB_MAGIC1" "hdr ! 2 AND EB_PF = 0"
    using assms(1) by (simp_all add: request_header_def)
  have "8 \<le> length req" using hdr(1) assms(4) by simp
  moreover have "rd8 req 0 = Some EB_MAGIC0" "rd8 req 1 = Some EB_MAGIC1" "rd8 req 2 = Some (hdr ! 2)"
    using hdr assms(4) by (simp_all add: rd8_def nth_append)
  ultimately have "eb8008_handle B req resp b = handle_loop B req 8 resp 0 b"
    using hdr(4) by (simp add: eb8008_handle_def)
  moreover have "extend [] body = reply_bytes body" by (simp add: extend_def reply_bytes_def)
  ultimately show ?thesis
    using handle_loop_records [of rs req hdr ys 8 0 resp "[]" B b body b'] assms hdr(1)
    by (auto simp: holds_reply_def)
qed

lemma handle_probe:
  assumes "8 \<le> length req" "req ! 0 = EB_MAGIC0" "req ! 1 = EB_MAGIC1" "req ! 2 AND EB_PF \<noteq> 0" "12 \<le> length resp"
  shows "eb8008_handle B req resp b = Some (header True @ be32 0 @ drop 12 resp, 12, b)"
  using assms put_header_eq [of resp True] by (auto simp: eb8008_handle_def rd8_def put_be32_eq)

text \<open>
  C5. The server does what a request means. A request is a header with the magic and without the probe
  flag, followed by any number of records of up to 255 writes and 255 reads, and at most three stray
  bytes. Its words are written at consecutive addresses and its addresses read, record after record
  and the writes of a record before its reads, nothing else happens on the bus, and the reply holds for
  each record with reads the words read, in order, under that record's return address. A request
  without reads is not answered.
\<close>

theorem handle_serves:
  assumes "request_header hdr" "list_all fits rs" "length ys < 4" "req = hdr @ concat (map record_bytes rs) @ ys"
    and "length req \<le> length resp" "serve_records B rs b = (body, b')"
  shows "\<exists>resp'. eb8008_handle B req resp b = Some (resp', length (reply_bytes body), b') \<and>
    take (length (reply_bytes body)) resp' = reply_bytes body"
  using assms by (rule handle_records)

text \<open>Two words written at 16, then read back in the other order; a second record writes only.\<close>

definition demo_records :: "eb_record list" where
  "demo_records =
     [\<lparr>rec_flags = (0, 15), write_base = 16, write_data = [7, 8], ret_addr = 3, read_addrs = [20, 16]\<rparr>,
      \<lparr>rec_flags = (0, 15), write_base = 16, write_data = [9], ret_addr = 0, read_addrs = []\<rparr>]"

theorem handle_serves_witness:
  "let hdr = header False; req = hdr @ concat (map record_bytes demo_records) @ [];
       body = reply_record 2 3 @ words [8, 7]
   in request_header hdr \<and> list_all fits demo_records \<and>
      serve_records mem_bus demo_records (\<lambda>_. 0) = (body, (\<lambda>_. 0)(16 := 7, 20 := 8, 16 := 9)) \<and>
      (\<exists>resp' m. eb8008_handle mem_bus req (replicate 1516 0) (\<lambda>_. 0) = Some (resp', 24, m) \<and>
        take 24 resp' = header False @ body)"
proof -
  have served: "serve_records mem_bus demo_records (\<lambda>_. 0) =
      (reply_record 2 3 @ words [8, 7], (\<lambda>_. 0)(16 := 7, 20 := 8, 16 := 9))"
    by (simp add: demo_records_def mem_bus_def Let_def flip: numeral_2_eq_2)
  have h: "request_header (header False)" by (simp add: request_header_def header_def EB_PF_def)
  have f: "list_all fits demo_records" by (simp add: demo_records_def fits_def)
  have l: "length (header False @ concat (map record_bytes demo_records) @ []) \<le> length (replicate 1516 (0 :: byte))"
    by (simp add: demo_records_def record_bytes_def counted_def)
  have e: "reply_bytes (reply_record 2 3 @ words [8, 7]) = header False @ reply_record 2 3 @ words [8, 7]"
    by (simp add: reply_bytes_def)
  show ?thesis
    using handle_serves [OF h f _ refl l served] served h f unfolding Let_def e by auto
qed

end
