(* ===== verification/Udp.thy ===== *)
theory Udp
  imports C_Mem
begin

text \<open>
  The UDP layer of the firmware, \<^verbatim>\<open>src/firmware/udp.c\<close>: the frame that is sent, with its checksums, and
  the frame that is received.

  The transmit slots of the Ethernet MAC are byte buffers of \<^verbatim>\<open>ETHMAC_SLOT_SIZE\<close> bytes, used in turn; the
  frames started are logged in \<open>wire\<close>. The sizes are those of the shipped system, where the MAC handles
  preamble and CRC: an Ethernet header of 14 bytes, a UDP frame of 28 before its payload. The wait for a
  free slot in \<^verbatim>\<open>send_packet\<close> is a poll of the MAC and has no effect of its own. Callbacks are values of a
  type of their own (\<open>'c\<close>): receiving yields the callback to run and its arguments.
\<close>

definition ETHMAC_SLOT_SIZE :: nat where "ETHMAC_SLOT_SIZE = 2048"
definition ETHMAC_TX_SLOTS :: nat where "ETHMAC_TX_SLOTS = 2"
definition ARP_PACKET_LENGTH :: nat where "ARP_PACKET_LENGTH = 60"

record 'c udp_state =
  my_mac :: "byte list"
  my_ip :: u32
  cached_mac :: "byte list"
  cached_ip :: u32
  udp_last_src_mac :: "byte list"
  rx_callback :: "'c option"
  bx_callback :: "'c option"
  txslot :: nat
  tx_slots :: "byte list list"
  wire :: "byte list list"

definition udp_set_ip :: "u32 \<Rightarrow> ('c, 'z) udp_state_scheme \<Rightarrow> ('c, 'z) udp_state_scheme" where
  "udp_set_ip ip s = s\<lparr>my_ip := ip\<rparr>"

definition udp_set_broadcast :: "('c, 'z) udp_state_scheme \<Rightarrow> ('c, 'z) udp_state_scheme" where
  "udp_set_broadcast s = s\<lparr>cached_mac := replicate 6 0xFF, cached_ip := 0xFFFFFFFF\<rparr>"

definition udp_set_peer :: "u32 \<Rightarrow> byte list \<Rightarrow> ('c, 'z) udp_state_scheme \<Rightarrow> ('c, 'z) udp_state_scheme" where
  "udp_set_peer ip mac s = s\<lparr>cached_ip := ip, cached_mac := take 6 mac\<rparr>"

subsection \<open>Checksums\<close>

text \<open>The bytes in pairs; a last odd byte is not added.\<close>

fun csum_add :: "u32 \<Rightarrow> byte list \<Rightarrow> u32" where
  "csum_add r (a # b # xs) = csum_add (r + (push_bit 8 (ucast a) OR ucast b)) xs"
| "csum_add r xs = r"

lemma csum_add_odd: "even (length xs) \<Longrightarrow> csum_add r (xs @ [x]) = csum_add r xs"
  by (induction r xs rule: csum_add.induct) simp_all

lemma unat_high: "unat (drop_bit 16 (r :: u32)) = unat r div 65536"
  by (simp only: unat_drop_bit_eq) (simp add: drop_bit_eq_div)

lemma unat_fold:
  "unat ((r AND 0xffff) + drop_bit 16 (r :: u32)) = unat r mod 65536 + unat r div 65536"
proof -
  have "r AND 0xffff = take_bit 16 r" by (simp add: take_bit_eq_mask mask_numeral)
  then have "unat (r AND 0xffff) = unat r mod 65536" by (simp only: unsigned_take_bit_eq) (simp add: take_bit_eq_mod)
  moreover note unat_high
  moreover have "unat r mod 65536 + unat r div 65536 < 2 ^ 32"
  proof -
    have "unat r div 65536 < 65536" using unsigned_less [of r, where ?'a = nat] by (simp add: less_mult_imp_div_less)
    moreover have "unat r mod 65536 < 65536" by simp
    ultimately show ?thesis by simp
  qed
  ultimately show ?thesis by (simp add: unat_word_ariths)
qed

lemma drop_bit_0_iff: "drop_bit 16 (r :: u32) = 0 \<longleftrightarrow> unat r < 65536"
proof -
  have "drop_bit 16 r = 0 \<longleftrightarrow> unat (drop_bit 16 r) = 0" by (simp add: unat_eq_0)
  also have "\<dots> \<longleftrightarrow> unat r < 65536" by (simp only: unat_high) (simp add: div_eq_0_iff)
  finally show ?thesis .
qed

text \<open>The carries added back until none is left.\<close>

function csum_fold :: "u32 \<Rightarrow> u32" where
  "csum_fold r = (if drop_bit 16 r \<noteq> 0 then csum_fold ((r AND 0xffff) + drop_bit 16 r) else r)"
  by pat_completeness auto
termination
proof (relation "measure unat")
  fix r :: u32
  assume "drop_bit 16 r \<noteq> 0"
  then have "65536 \<le> unat r" by (simp add: drop_bit_0_iff)
  moreover have "unat r = 65536 * (unat r div 65536) + unat r mod 65536" by simp
  ultimately have "unat r mod 65536 + unat r div 65536 < unat r" by linarith
  then show "((r AND 0xffff) + drop_bit 16 r, r) \<in> measure unat" by (simp add: unat_fold)
qed simp

declare csum_fold.simps [simp del]

definition ip_checksum :: "u32 \<Rightarrow> byte list \<Rightarrow> bool \<Rightarrow> u16" where
  "ip_checksum r buffer complete =
     (let r = csum_fold (csum_add r buffer) in
      if complete then (let r = NOT r AND 0xffff in ucast (if r = 0 then 0xffff else r)) else ucast r)"

subsection \<open>Sending\<close>

definition eth_header :: "byte list \<Rightarrow> byte list \<Rightarrow> u16 \<Rightarrow> byte list" where
  "eth_header destmac srcmac ethertype = take 6 destmac @ take 6 srcmac @ be16 ethertype"

definition udp_get_tx_buffer :: "('c, 'z) udp_state_scheme \<Rightarrow> byte list" where
  "udp_get_tx_buffer s = drop 42 (tx_slots s ! txslot s)"

text \<open>\<^verbatim>\<open>memcpy\<close> into the transmit buffer.\<close>

definition fill_tx_buffer :: "byte list \<Rightarrow> ('c, 'z) udp_state_scheme \<Rightarrow> ('c, 'z) udp_state_scheme option" where
  "fill_tx_buffer payload s = do {
     raw \<leftarrow> wr_bytes (tx_slots s ! txslot s) 42 payload;
     Some (s\<lparr>tx_slots := (tx_slots s)[txslot s := raw]\<rparr>) }"

definition send_packet :: "byte list \<Rightarrow> nat \<Rightarrow> ('c, 'z) udp_state_scheme \<Rightarrow> ('c, 'z) udp_state_scheme option" where
  "send_packet raw txlen s = do {
     (raw, txlen) \<leftarrow>
       (if txlen < 100 then do { raw \<leftarrow> wr_bytes raw txlen (replicate (100 - txlen) 0); Some (raw, 100) }
        else Some (raw, txlen));
     frame \<leftarrow> rd_bytes raw 0 txlen;
     Some (s\<lparr>tx_slots := (tx_slots s)[txslot s := raw], txslot := (txslot s + 1) mod ETHMAC_TX_SLOTS,
             wire := wire s @ [frame]\<rparr>) }"

definition ip_header :: "u16 \<Rightarrow> byte \<Rightarrow> u16 \<Rightarrow> u32 \<Rightarrow> u32 \<Rightarrow> byte list" where
  "ip_header total_length proto checksum src_ip dst_ip =
     [0x45, 0] @ be16 total_length @ be16 0 @ be16 0x4000 @ [64, proto] @ be16 checksum @ be32 src_ip @ be32 dst_ip"

definition udp_header :: "u16 \<Rightarrow> u16 \<Rightarrow> u16 \<Rightarrow> u16 \<Rightarrow> byte list" where
  "udp_header src_port dst_port len checksum = be16 src_port @ be16 dst_port @ be16 len @ be16 checksum"

definition pseudo_header :: "u32 \<Rightarrow> u32 \<Rightarrow> u16 \<Rightarrow> byte list" where
  "pseudo_header src_ip dst_ip len = be32 src_ip @ be32 dst_ip @ [0, 0x11] @ be16 len"

definition udp_send ::
    "u16 \<Rightarrow> u16 \<Rightarrow> nat \<Rightarrow> ('c, 'z) udp_state_scheme \<Rightarrow> (bool \<times> ('c, 'z) udp_state_scheme) option" where
  "udp_send src_port dst_port len s =
     (if list_all (\<lambda>b. b = 0) (cached_mac s) then Some (False, s)
      else if len > ETHMAC_SLOT_SIZE - 42 then Some (False, s)
      else do {
        raw \<leftarrow> wr_bytes (tx_slots s ! txslot s) 0 (eth_header (cached_mac s) (my_mac s) 0x0800);
        raw \<leftarrow> wr_bytes raw 14 (ip_header (of_nat (len + 28)) 0x11 0 (my_ip s) (cached_ip s));
        ip \<leftarrow> rd_bytes raw 14 20;
        raw \<leftarrow> put_be16 raw 24 (ip_checksum 0 ip True);
        raw \<leftarrow> wr_bytes raw 34 (udp_header src_port dst_port (of_nat (len + 8)) 0);
        let r = ip_checksum 0 (pseudo_header (my_ip s) (cached_ip s) (of_nat (len + 8))) False;
        raw \<leftarrow> (if odd len then wr8 raw (42 + len) 0 else Some raw);
        seg \<leftarrow> rd_bytes raw 34 (8 + (if odd len then len + 1 else len));
        raw \<leftarrow> put_be16 raw 40 (ip_checksum (ucast r) seg True);
        s \<leftarrow> send_packet raw (max (len + 42) ARP_PACKET_LENGTH) s;
        Some (True, s) })"

subsection \<open>Receiving\<close>

text \<open>The callback that the destination address of a received datagram selects.\<close>

definition receiver :: "u32 \<Rightarrow> ('c, 'z) udp_state_scheme \<Rightarrow> 'c option" where
  "receiver dst_ip s =
     (if dst_ip \<noteq> my_ip s
      then (if dst_ip = 0xFFFFFFFF \<or> dst_ip = (my_ip s OR 0xff) then bx_callback s else None)
      else (case rx_callback s of Some cb \<Rightarrow> Some cb | None \<Rightarrow> bx_callback s))"

text \<open>
  A callback to run: source address, source and destination port, payload. A state in which the frame
  was dropped is returned with no callback.
\<close>

definition process_udp ::
    "byte list \<Rightarrow> nat \<Rightarrow> ('c, 'z) udp_state_scheme \<Rightarrow>
     (('c \<times> u32 \<times> u16 \<times> u16 \<times> byte list) option \<times> ('c, 'z) udp_state_scheme) option" where
  "process_udp rx rxlen s =
     (if rxlen < 42 then Some (None, s)
      else do {
        ip_total_length \<leftarrow> map_option unat (get_be16 rx 16);
        if ip_total_length < 28 then Some (None, s)
        else if 14 + ip_total_length > rxlen then Some (None, s)
        else do {
          proto \<leftarrow> rd8 rx 23;
          if proto \<noteq> 0x11 then Some (None, s)
          else do {
            udp_length \<leftarrow> map_option unat (get_be16 rx 38);
            if udp_length < 8 then Some (None, s)
            else if udp_length > ip_total_length - 20 then Some (None, s)
            else do {
              mac \<leftarrow> rd_bytes rx 6 6;
              let s = s\<lparr>udp_last_src_mac := mac\<rparr>;
              dst_ip \<leftarrow> get_be32 rx 30;
              src_ip \<leftarrow> get_be32 rx 26;
              src_port \<leftarrow> get_be16 rx 34;
              dst_port \<leftarrow> get_be16 rx 36;
              payload \<leftarrow> rd_bytes rx 42 (udp_length - 8);
              Some (map_option (\<lambda>cb. (cb, src_ip, src_port, dst_port, payload)) (receiver dst_ip s), s) } } } })"

subsection \<open>The other protocols\<close>

text \<open>Address resolution: a reply updates the cached peer, a request for our address is answered.\<close>

definition arp_packet :: "u16 \<Rightarrow> byte list \<Rightarrow> u32 \<Rightarrow> byte list \<Rightarrow> u32 \<Rightarrow> byte list" where
  "arp_packet opcode sender_mac sender_ip target_mac target_ip =
     be16 1 @ be16 0x0800 @ [6, 4] @ be16 opcode @ sender_mac @ be32 sender_ip @ target_mac @ be32 target_ip @ replicate 18 0"

definition process_arp :: "byte list \<Rightarrow> nat \<Rightarrow> ('c, 'z) udp_state_scheme \<Rightarrow> ('c, 'z) udp_state_scheme option" where
  "process_arp rx rxlen s =
     (if rxlen < ARP_PACKET_LENGTH then Some s
      else do {
        hwtype \<leftarrow> get_be16 rx 14; proto \<leftarrow> get_be16 rx 16; hwsize \<leftarrow> rd8 rx 18; protosize \<leftarrow> rd8 rx 19;
        if hwtype \<noteq> 1 \<or> proto \<noteq> 0x0800 \<or> hwsize \<noteq> 6 \<or> protosize \<noteq> 4 then Some s
        else do {
          opcode \<leftarrow> get_be16 rx 20;
          sender_mac \<leftarrow> rd_bytes rx 22 6;
          sender_ip \<leftarrow> get_be32 rx 28;
          target_ip \<leftarrow> get_be32 rx 38;
          if opcode = 2 then Some (if sender_ip = cached_ip s then s\<lparr>cached_mac := sender_mac\<rparr> else s)
          else if opcode = 1 \<and> target_ip = my_ip s
          then do {
            raw \<leftarrow> wr_bytes (tx_slots s ! txslot s) 0 (eth_header sender_mac (my_mac s) 0x0806);
            raw \<leftarrow> wr_bytes raw 14 (arp_packet 2 (my_mac s) (my_ip s) sender_mac sender_ip);
            send_packet raw ARP_PACKET_LENGTH s }
          else Some s } })"

definition udp_announce_arp :: "('c, 'z) udp_state_scheme \<Rightarrow> ('c, 'z) udp_state_scheme option" where
  "udp_announce_arp s =
     (if my_ip s = 0 \<or> my_ip s = 0xFFFFFFFF then Some s
      else do {
        raw \<leftarrow> wr_bytes (tx_slots s ! txslot s) 0 (eth_header (replicate 6 0xFF) (my_mac s) 0x0806);
        raw \<leftarrow> wr_bytes raw 14 (arp_packet 1 (my_mac s) (my_ip s) (replicate 6 0) (my_ip s));
        send_packet raw ARP_PACKET_LENGTH s })"

text \<open>An echo request is answered; an echo reply is only reported on the console.\<close>

definition process_icmp :: "byte list \<Rightarrow> nat \<Rightarrow> ('c, 'z) udp_state_scheme \<Rightarrow> ('c, 'z) udp_state_scheme option" where
  "process_icmp rx rxlen s =
     (if rxlen < 42 then Some s
      else do {
        ip_total_length \<leftarrow> map_option unat (get_be16 rx 16);
        if ip_total_length < 28 then Some s
        else if 14 + ip_total_length > rxlen then Some s
        else do {
          let len = ip_total_length - 28;
          type \<leftarrow> rd8 rx 34;
          if type = 8
          then do {
            srcmac \<leftarrow> rd_bytes rx 6 6;
            raw \<leftarrow> wr_bytes (tx_slots s ! txslot s) 0 (eth_header srcmac (my_mac s) 0x0800);
            src_ip \<leftarrow> get_be32 rx 26;
            raw \<leftarrow> wr_bytes raw 14 (ip_header (of_nat (len + 28)) 1 0 (my_ip s) src_ip);
            ip \<leftarrow> rd_bytes raw 14 20;
            raw \<leftarrow> put_be16 raw 24 (ip_checksum 0 ip True);
            id_seq \<leftarrow> rd_bytes rx 38 4;
            payload \<leftarrow> rd_bytes rx 42 len;
            raw \<leftarrow> wr_bytes raw 34 ([0, 0] @ be16 0 @ id_seq @ payload);
            seg \<leftarrow> rd_bytes raw 34 (len + 8);
            raw \<leftarrow> put_be16 raw 36 (ip_checksum 0 seg True);
            send_packet raw (len + 42) s }
          else Some s } })"

definition process_frame ::
    "byte list \<Rightarrow> nat \<Rightarrow> ('c, 'z) udp_state_scheme \<Rightarrow>
     (('c \<times> u32 \<times> u16 \<times> u16 \<times> byte list) option \<times> ('c, 'z) udp_state_scheme) option" where
  "process_frame rx rxlen s =
     (if rxlen < 14 \<or> rxlen > ETHMAC_SLOT_SIZE then Some (None, s)
      else do {
        ethertype \<leftarrow> get_be16 rx 12;
        if ethertype = 0x0806 then map_option (Pair None) (process_arp rx rxlen s)
        else if ethertype = 0x0800
        then do {
          version \<leftarrow> rd8 rx 14;
          dst_ip \<leftarrow> get_be32 rx 30;
          proto \<leftarrow> rd8 rx 23;
          if version \<noteq> 0x45 then Some (None, s)
          else if dst_ip \<noteq> my_ip s \<and> dst_ip \<noteq> 0xFFFFFFFF \<and> dst_ip \<noteq> (my_ip s OR 0xff) then Some (None, s)
          else if proto = 0x11 then process_udp rx rxlen s
          else if proto = 1 then map_option (Pair None) (process_icmp rx rxlen s)
          else Some (None, s) }
        else Some (None, s) })"

subsection \<open>The frame sent\<close>

definition udp_ok :: "('c, 'z) udp_state_scheme \<Rightarrow> bool" where
  "udp_ok s \<longleftrightarrow> length (my_mac s) = 6 \<and> length (cached_mac s) = 6 \<and> length (udp_last_src_mac s) = 6 \<and>
     length (tx_slots s) = ETHMAC_TX_SLOTS \<and> txslot s < ETHMAC_TX_SLOTS \<and>
     list_all (\<lambda>raw. length raw = ETHMAC_SLOT_SIZE) (tx_slots s)"

definition udp_pad :: "byte list \<Rightarrow> byte list" where
  "udp_pad payload = (if odd (length payload) then payload @ [0] else payload)"

definition udp_datagram :: "('c, 'z) udp_state_scheme \<Rightarrow> u16 \<Rightarrow> u16 \<Rightarrow> byte list \<Rightarrow> byte list" where
  "udp_datagram s src dst payload =
     (let n = length payload;
          c1 = ip_checksum 0 (ip_header (of_nat (n + 28)) 0x11 0 (my_ip s) (cached_ip s)) True;
          r = ip_checksum 0 (pseudo_header (my_ip s) (cached_ip s) (of_nat (n + 8))) False;
          c2 = ip_checksum (ucast r) (udp_header src dst (of_nat (n + 8)) 0 @ udp_pad payload) True
      in ip_header (of_nat (n + 28)) 0x11 c1 (my_ip s) (cached_ip s) @ udp_header src dst (of_nat (n + 8)) c2 @ payload)"

lemma length_eth_header [simp]: "length d = 6 \<Longrightarrow> length m = 6 \<Longrightarrow> length (eth_header d m t) = 14"
  by (simp add: eth_header_def)

lemma length_ip_header [simp]: "length (ip_header n p c a b) = 20"
  by (simp add: ip_header_def)

lemma length_udp_header [simp]: "length (udp_header a b n c) = 8"
  by (simp add: udp_header_def)

lemma slot_length: "udp_ok s \<Longrightarrow> length (tx_slots s ! txslot s) = ETHMAC_SLOT_SIZE"
  by (simp add: udp_ok_def list_all_length)

text \<open>Overwriting the middle of a buffer given in parts.\<close>

lemma wr_bytes_app:
  "p = length A \<Longrightarrow> length vs = length B \<Longrightarrow> wr_bytes (A @ B @ C) p vs = Some (A @ vs @ C)"
  by (simp add: wr_bytes_eq)

lemma split_at: "k \<le> length xs \<Longrightarrow> \<exists>A B. xs = A @ B \<and> length A = k"
  by (metis append_take_drop_id length_take min_absorb2)

lemma put_checksum_ip:
  "length E = 14 \<Longrightarrow> put_be16 (E @ ip_header n p c a b @ R) 24 c' = Some (E @ ip_header n p c' a b @ R)"
  using wr_bytes_app [of 24 "E @ take 10 (ip_header n p c a b)" "be16 c'" "be16 c" "drop 12 (ip_header n p c a b) @ R"]
  by (simp add: put_be16_def ip_header_def be16_def be32_def)

lemma put_checksum_udp:
  "length E = 34 \<Longrightarrow> put_be16 (E @ udp_header a b n c @ R) 40 c' = Some (E @ udp_header a b n c' @ R)"
  using wr_bytes_app [of 40 "E @ take 6 (udp_header a b n c)" "be16 c'" "be16 c" R]
  by (simp add: put_be16_def udp_header_def be16_def)

lemma send_packet_frame:
  assumes "udp_ok s" "length raw = ETHMAC_SLOT_SIZE" "txlen \<le> ETHMAC_SLOT_SIZE" "raw = F @ R" "length F \<le> txlen"
  shows "\<exists>slots pad. send_packet raw txlen s =
      Some (s\<lparr>tx_slots := slots, txslot := (txslot s + 1) mod ETHMAC_TX_SLOTS, wire := wire s @ [F @ pad]\<rparr>) \<and>
    udp_ok (s\<lparr>tx_slots := slots, txslot := (txslot s + 1) mod ETHMAC_TX_SLOTS, wire := wire s @ [F @ pad]\<rparr>) \<and>
    length (F @ pad) \<le> ETHMAC_SLOT_SIZE"
proof -
  define raw' where "raw' = (if txlen < 100 then take txlen raw @ replicate (100 - txlen) 0 @ drop 100 raw else raw)"
  define n where "n = max txlen 100"
  have n: "n \<le> ETHMAC_SLOT_SIZE" "txlen \<le> n" "length raw' = ETHMAC_SLOT_SIZE"
    using assms(2,3) by (auto simp: n_def raw'_def ETHMAC_SLOT_SIZE_def)
  have pre: "(if txlen < 100 then do { raw \<leftarrow> wr_bytes raw txlen (replicate (100 - txlen) 0); Some (raw, 100) }
      else Some (raw, txlen)) = Some (raw', n)"
    using assms(2) by (simp add: raw'_def n_def wr_bytes_eq ETHMAC_SLOT_SIZE_def)
  have "take (length F) (take n raw') = F"
    using assms(4,5) by (auto simp: raw'_def n_def min_def)
  then obtain pad where pad: "take n raw' = F @ pad" by (metis append_take_drop_id)
  then have len: "length (F @ pad) \<le> ETHMAC_SLOT_SIZE" using n by (metis length_take min.cobounded2 order_trans)
  let ?slots = "(tx_slots s)[txslot s := raw']"
  have "list_all (\<lambda>raw. length raw = ETHMAC_SLOT_SIZE) ?slots"
    using assms(1) n(3) by (auto simp: udp_ok_def list_all_iff dest!: subsetD [OF set_update_subset_insert])
  then have "udp_ok (s\<lparr>tx_slots := ?slots, txslot := (txslot s + 1) mod ETHMAC_TX_SLOTS, wire := wire s @ [F @ pad]\<rparr>)"
    using assms(1) by (simp add: udp_ok_def ETHMAC_TX_SLOTS_def)
  moreover have "send_packet raw txlen s =
      Some (s\<lparr>tx_slots := ?slots, txslot := (txslot s + 1) mod ETHMAC_TX_SLOTS, wire := wire s @ [F @ pad]\<rparr>)"
    using n pad unfolding send_packet_def pre by (simp add: rd_bytes_def)
  ultimately show ?thesis using len by blast
qed

lemma length_udp_pad [simp]: "length (udp_pad xs) = (if odd (length xs) then length xs + 1 else length xs)"
  by (simp add: udp_pad_def)

lemma pad_byte:
  assumes "length E = 42" "odd (length P) \<longrightarrow> R \<noteq> []"
  shows "(if odd (length P) then wr8 (E @ P @ R) (42 + length P) 0 else Some (E @ P @ R)) =
    Some (E @ udp_pad P @ (if odd (length P) then tl R else R))"
  using assms by (cases R) (auto simp: wr8_def udp_pad_def list_update_append)

text \<open>The stores of \<^verbatim>\<open>udp_send\<close>, on a slot with the payload \<open>P\<close> in place.\<close>

lemma udp_send_stores:
  fixes n m src dst :: u16 and a b :: u32 and P R :: "byte list"
  assumes l: "length E = 14" "length A = 14" "length B = 20" "length C = 8" "odd (length P) \<longrightarrow> R \<noteq> []"
  defines "H \<equiv> \<lambda>c. ip_header n 0x11 c a b" and "U \<equiv> udp_header src dst m"
    and "R' \<equiv> (if odd (length P) then tl R else R)"
  shows "do {
      raw \<leftarrow> wr_bytes (A @ B @ C @ P @ R) 0 E;
      raw \<leftarrow> wr_bytes raw 14 (H 0);
      ip \<leftarrow> rd_bytes raw 14 20;
      raw \<leftarrow> put_be16 raw 24 (ip_checksum 0 ip True);
      raw \<leftarrow> wr_bytes raw 34 (U 0);
      raw \<leftarrow> (if odd (length P) then wr8 raw (42 + length P) 0 else Some raw);
      seg \<leftarrow> rd_bytes raw 34 (8 + (if odd (length P) then length P + 1 else length P));
      raw \<leftarrow> put_be16 raw 40 (ip_checksum r seg True);
      k raw } =
    k (E @ H (ip_checksum 0 (H 0) True) @ U (ip_checksum r (U 0 @ udp_pad P) True) @ udp_pad P @ R')"
proof -
  let ?c = "ip_checksum 0 (H 0) True"
  have H: "length (H c) = 20" for c by (simp add: H_def)
  have U: "length (U c) = 8" for c by (simp add: U_def)
  have "wr_bytes (A @ B @ C @ P @ R) 0 E = Some (E @ B @ C @ P @ R)"
    using wr_bytes_app [of 0 "[]" E A "B @ C @ P @ R"] l by simp
  moreover have "wr_bytes (E @ B @ C @ P @ R) 14 (H 0) = Some (E @ H 0 @ C @ P @ R)"
    by (rule wr_bytes_app) (simp_all add: l H)
  moreover have "rd_bytes (E @ H 0 @ C @ P @ R) 14 20 = Some (H 0)"
    by (rule rd_bytes_app) (simp_all add: l H)
  moreover have "put_be16 (E @ H 0 @ C @ P @ R) 24 ?c = Some (E @ H ?c @ C @ P @ R)"
    unfolding H_def by (rule put_checksum_ip) (rule l)
  moreover have "wr_bytes (E @ H ?c @ C @ P @ R) 34 (U 0) = Some (E @ H ?c @ U 0 @ P @ R)"
    using wr_bytes_app [of 34 "E @ H ?c" "U 0" C "P @ R"] by (simp add: l H U)
  moreover have "(if odd (length P) then wr8 (E @ H ?c @ U 0 @ P @ R) (42 + length P) 0 else Some (E @ H ?c @ U 0 @ P @ R)) =
      Some (E @ H ?c @ U 0 @ udp_pad P @ R')"
    using pad_byte [of "E @ H ?c @ U 0" P R] l by (simp add: H U R'_def split: if_splits)
  moreover have "rd_bytes (E @ H ?c @ U 0 @ udp_pad P @ R') 34 (8 + (if odd (length P) then length P + 1 else length P)) =
      Some (U 0 @ udp_pad P)"
    using rd_bytes_app [of 34 "E @ H ?c" "8 + length (udp_pad P)" "U 0 @ udp_pad P" R'] by (simp add: l H U)
  moreover have "put_be16 (E @ H ?c @ U 0 @ udp_pad P @ R') 40 c = Some (E @ H ?c @ U c @ udp_pad P @ R')" for c
    unfolding U_def using put_checksum_udp [of "E @ H ?c"] by (simp add: l H)
  ultimately show ?thesis by simp
qed

text \<open>The frame started: addresses, headers with checksums, payload, padding.\<close>

lemma udp_send_frame:
  fixes s :: "('c, 'z) udp_state_scheme" and src dst :: u16 and payload :: "byte list"
  assumes ok: "udp_ok s" and peer: "\<not> list_all (\<lambda>b. b = 0) (cached_mac s)"
    and fit: "length payload \<le> ETHMAC_SLOT_SIZE - 42" and buf: "take (length payload) (udp_get_tx_buffer s) = payload"
  defines "F \<equiv> eth_header (cached_mac s) (my_mac s) 0x0800 @ udp_datagram s src dst payload"
  shows "\<exists>slots pad. let s' = s\<lparr>tx_slots := slots, txslot := (txslot s + 1) mod ETHMAC_TX_SLOTS, wire := wire s @ [F @ pad]\<rparr>
    in udp_send src dst (length payload) s = Some (True, s') \<and> udp_ok s' \<and> length (F @ pad) \<le> ETHMAC_SLOT_SIZE"
proof -
  let ?n = "length payload" and ?E = "eth_header (cached_mac s) (my_mac s) 0x0800"
  define raw where "raw = tx_slots s ! txslot s"
  have raw: "length raw = ETHMAC_SLOT_SIZE" using slot_length [OF ok] by (simp add: raw_def)
  have E: "length ?E = 14" using ok by (simp add: udp_ok_def)
  define R where "R = drop ?n (drop 42 raw)"
  have "drop 42 raw = payload @ R" using buf by (metis R_def append_take_drop_id raw_def udp_get_tx_buffer_def)
  moreover have "raw = take 14 raw @ take 20 (drop 14 raw) @ take 8 (drop 34 raw) @ drop 42 raw"
    using append_take_drop_id [of 8 "drop 34 raw"] append_take_drop_id [of 20 "drop 14 raw"] by simp
  ultimately have split: "raw = take 14 raw @ take 20 (drop 14 raw) @ take 8 (drop 34 raw) @ payload @ R" by simp
  define R' where "R' = (if odd ?n then tl R else R)"
  have R: "length R = ETHMAC_SLOT_SIZE - 42 - ?n" "odd ?n \<longrightarrow> R \<noteq> []"
    using raw fit by (auto simp: R_def ETHMAC_SLOT_SIZE_def)
  have F: "length F = 42 + ?n" using E by (simp add: F_def udp_datagram_def Let_def)
  define tail where "tail = drop ?n (udp_pad payload) @ R'"
  have "length (F @ tail) = ETHMAC_SLOT_SIZE"
    using F R fit by (auto simp: tail_def R'_def ETHMAC_SLOT_SIZE_def elim: oddE)
  moreover have "max (?n + 42) ARP_PACKET_LENGTH \<le> ETHMAC_SLOT_SIZE" "length F \<le> max (?n + 42) ARP_PACKET_LENGTH"
    using F fit by (simp_all add: ETHMAC_SLOT_SIZE_def ARP_PACKET_LENGTH_def)
  ultimately obtain slots pad where sent: "send_packet (F @ tail) (max (?n + 42) ARP_PACKET_LENGTH) s =
      Some (s\<lparr>tx_slots := slots, txslot := (txslot s + 1) mod ETHMAC_TX_SLOTS, wire := wire s @ [F @ pad]\<rparr>)"
    "udp_ok (s\<lparr>tx_slots := slots, txslot := (txslot s + 1) mod ETHMAC_TX_SLOTS, wire := wire s @ [F @ pad]\<rparr>)"
    "length (F @ pad) \<le> ETHMAC_SLOT_SIZE"
    using send_packet_frame [OF ok _ _ refl] by blast
  have pad: "udp_pad payload @ R' = payload @ tail" by (simp add: tail_def udp_pad_def)
  have "udp_send src dst ?n s = do { s \<leftarrow> send_packet (F @ tail) (max (?n + 42) ARP_PACKET_LENGTH) s; Some (True, s) }"
    using peer fit R(2) raw E unfolding udp_send_def raw_def [symmetric] Let_def
    apply (subst (1) split)
    apply (subst udp_send_stores)
    apply (simp_all add: R'_def [symmetric] pad F_def udp_datagram_def Let_def ETHMAC_SLOT_SIZE_def)
    done
  then show ?thesis using sent unfolding Let_def by auto
qed

subsection \<open>The frame received\<close>

lemma header_fields:
  assumes "length E = 14"
  shows "get_be16 (E @ ip_header n p c a b @ R) 16 = Some n" "rd8 (E @ ip_header n p c a b @ R) 23 = Some p"
    "get_be32 (E @ ip_header n p c a b @ R) 26 = Some a" "get_be32 (E @ ip_header n p c a b @ R) 30 = Some b"
  using assms get_be16_app [of 16 "E @ [0x45, 0]" n] rd8_app [of 23 "E @ take 9 (ip_header n p c a b)"]
    get_be32_app [of 26 "E @ take 12 (ip_header n p c a b)" a "be32 b @ R"]
    get_be32_app [of 30 "E @ take 16 (ip_header n p c a b)" b R]
  by (simp_all add: ip_header_def be16_def be32_def)

lemma port_fields:
  assumes "length E = 34"
  shows "get_be16 (E @ udp_header sp dp m c @ R) 34 = Some sp" "get_be16 (E @ udp_header sp dp m c @ R) 36 = Some dp"
    "get_be16 (E @ udp_header sp dp m c @ R) 38 = Some m"
  using assms get_be16_app [of 34 E sp] get_be16_app [of 36 "E @ be16 sp" dp] get_be16_app [of 38 "E @ be16 sp @ be16 dp" m]
  by (simp_all add: udp_header_def)

lemma receiver_mac [simp]: "receiver b (s\<lparr>udp_last_src_mac := M\<rparr>) = receiver b s"
  by (simp add: receiver_def split: option.split)

lemma process_udp_receives:
  assumes "length D = 6" "length M = 6" "length T2 = 2" "unat n = length payload + 28" "unat m = length payload + 8"
    and "length payload + 42 \<le> rxlen"
  shows "process_udp (D @ M @ T2 @ ip_header n 0x11 c a b @ udp_header sp dp m c' @ payload @ R) rxlen t =
      Some (map_option (\<lambda>cb. (cb, a, sp, dp, payload)) (receiver b t), t\<lparr>udp_last_src_mac := M\<rparr>)"
    (is "process_udp ?rx _ _ = _")
proof -
  let ?E = "D @ M @ T2"
  have E: "length ?E = 14" using assms by simp
  have ip: "get_be16 ?rx 16 = Some n" "rd8 ?rx 23 = Some 0x11" "get_be32 ?rx 26 = Some a" "get_be32 ?rx 30 = Some b"
    by (rule header_fields [OF E, unfolded append_assoc])+
  have udp: "get_be16 ?rx 34 = Some sp" "get_be16 ?rx 36 = Some dp" "get_be16 ?rx 38 = Some m"
    using port_fields [of "?E @ ip_header n 0x11 c a b" sp dp m c' "payload @ R"] E by simp_all
  have "rd_bytes ?rx 6 6 = Some M" by (rule rd_bytes_app) (simp_all add: assms)
  moreover have "rd_bytes ?rx 42 (length payload) = Some payload"
    using rd_bytes_app [of 42 "?E @ ip_header n 0x11 c a b @ udp_header sp dp m c'" "length payload" payload R] E by simp
  ultimately show ?thesis
    using ip udp assms by (simp add: process_udp_def Let_def)
qed

lemma process_udp_safe:
  assumes "rxlen \<le> length rx"
  shows "\<exists>call s'. process_udp rx rxlen s = Some (call, s') \<and>
    (call = None \<or> (\<exists>cb src sp dp payload. call = Some (cb, src, sp, dp, payload) \<and> 42 + length payload \<le> rxlen \<and>
       payload = take (length payload) (drop 42 rx)))"
proof (cases "rxlen < 42")
  case False
  then have "get_be16 rx 16 \<noteq> None" "rd8 rx 23 \<noteq> None" "get_be16 rx 38 \<noteq> None" "get_be32 rx 30 \<noteq> None"
      "get_be32 rx 26 \<noteq> None" "get_be16 rx 34 \<noteq> None" "get_be16 rx 36 \<noteq> None" "rd_bytes rx 6 6 \<noteq> None"
    unfolding get_be16_Some get_be32_Some using assms by (simp_all add: rd8_def rd_bytes_def)
  moreover have "rd_bytes rx 42 n = Some (take n (drop 42 rx))" if "42 + n \<le> rxlen" for n
    using that assms by (simp add: rd_bytes_def)
  ultimately show ?thesis
    using False assms by (cases "receiver (the (get_be32 rx 30)) s") (auto simp: process_udp_def Let_def)
qed (simp add: process_udp_def)

subsection \<open>What the checksums are\<close>

fun csum_nat :: "byte list \<Rightarrow> nat" where
  "csum_nat (a # b # xs) = 256 * unat a + unat b + csum_nat xs"
| "csum_nat xs = 0"

lemma unat_pair: "unat (push_bit 8 (ucast a) OR ucast b :: u32) = 256 * unat a + unat (b :: byte)" for a :: byte
proof -
  have "(push_bit 8 (ucast a) AND ucast b :: u32) = 0"
    by (rule bit_word_eqI) (auto simp: bit_simps dest: bit_imp_le_length)
  then have "(push_bit 8 (ucast a) OR ucast b :: u32) = 256 * ucast a + ucast b"
    by (simp add: push_bit_eq_mult flip: disjunctive_add_eq_or)
  moreover have "unat (256 * ucast a + ucast b :: u32) = 256 * unat a + unat b"
    using unsigned_less [of a, where ?'a = nat] unsigned_less [of b, where ?'a = nat]
    by (simp add: unat_word_ariths unsigned_ucast_eq take_bit_eq_mod)
  ultimately show ?thesis by simp
qed

lemma csum_add_nat: "unat r + csum_nat xs < 2 ^ 32 \<Longrightarrow> unat (csum_add r xs) = unat r + csum_nat xs"
proof (induction r xs rule: csum_add.induct)
  case (1 r a b xs)
  then have "unat (r + (push_bit 8 (ucast a) OR ucast b)) = unat r + (256 * unat a + unat b)"
    by (simp add: unat_word_ariths unat_pair)
  with 1 show ?case by simp
qed simp_all

lemma csum_nat_le: "csum_nat xs \<le> 65535 * (length xs div 2)"
proof (induction xs rule: csum_nat.induct)
  case (1 a b xs)
  then show ?case
    using unsigned_less [of a, where ?'a = nat] unsigned_less [of b, where ?'a = nat] by simp
qed simp_all

lemma csum_nat_append: "even (length xs) \<Longrightarrow> csum_nat (xs @ ys) = csum_nat xs + csum_nat ys"
  by (induction xs rule: csum_nat.induct) simp_all

lemma csum_nat_be16 [simp]: "csum_nat (be16 v) = unat v"
proof -
  have "unat (ucast (drop_bit 8 v) :: byte) = unat v div 256"
    using unsigned_less [of v, where ?'a = nat]
    by (simp only: unsigned_ucast_eq unat_drop_bit_eq) (simp add: drop_bit_eq_div take_bit_eq_mod less_mult_imp_div_less)
  moreover have "unat (ucast v :: byte) = unat v mod 256" by (simp add: unsigned_ucast_eq take_bit_eq_mod)
  ultimately show ?thesis by (simp add: be16_def)
qed

lemma csum_fold_value:
  "unat (csum_fold r) < 65536 \<and> unat (csum_fold r) mod 65535 = unat r mod 65535 \<and> (csum_fold r = 0 \<longleftrightarrow> r = 0)"
proof (induction r rule: csum_fold.induct)
  case (1 r)
  show ?case
  proof (cases "drop_bit 16 r = 0")
    case True
    then show ?thesis by (subst (1 2 3) csum_fold.simps) (simp add: drop_bit_0_iff)
  next
    case False
    let ?r = "(r AND 0xffff) + drop_bit 16 r"
    have step: "csum_fold r = csum_fold ?r" using False by (subst csum_fold.simps) simp
    have "unat r = 65536 * (unat r div 65536) + unat r mod 65536" by simp
    then have "unat r mod 65535 = (65535 * (unat r div 65536) + unat ?r) mod 65535"
      unfolding unat_fold by (simp add: algebra_simps)
    then have "unat r mod 65535 = unat ?r mod 65535" by simp
    moreover have "?r = 0 \<longleftrightarrow> r = 0"
      using False unat_fold [of r] by (auto simp: drop_bit_0_iff simp flip: unat_eq_0)
    ultimately show ?thesis using 1 False unfolding step by simp
  qed
qed

lemma ip_checksum_complete:
  assumes "unat r + csum_nat xs < 2 ^ 32"
  shows "(unat (ip_checksum r xs True) + unat r + csum_nat xs) mod 65535 = 0 \<and> 0 < unat (ip_checksum r xs True)"
proof -
  define t where "t = csum_fold (csum_add r xs)"
  have t: "unat t < 65536" "unat t mod 65535 = (unat r + csum_nat xs) mod 65535"
    using csum_fold_value [of "csum_add r xs"] csum_add_nat [OF assms] by (simp_all add: t_def)
  have "unat (- 1 - t) = unat (- 1 :: u32) - unat t" by (rule unat_sub) simp
  moreover have "NOT t = - 1 - t" "unat (- 1 :: u32) = 2 ^ 32 - 1" by (simp_all add: not_eq_complement unsigned_minus_1_eq_mask mask_eq_exp_minus_1)
  ultimately have "unat (NOT t) = 2 ^ 32 - 1 - unat t" by simp
  moreover have "NOT t AND 0xffff = take_bit 16 (NOT t)" by (simp add: take_bit_eq_mask mask_numeral)
  ultimately have "unat (NOT t AND 0xffff) = (2 ^ 32 - 1 - unat t) mod 65536"
    by (simp only: unsigned_take_bit_eq) (simp add: take_bit_eq_mod)
  also have "2 ^ 32 - 1 - unat t = 65535 - unat t + 65536 * 65535" using t(1) by simp
  also have "(65535 - unat t + 65536 * 65535) mod 65536 = 65535 - unat t" by (simp only: mod_mult_self2) simp
  finally have n: "unat (NOT t AND 0xffff) = 65535 - unat t" .
  then have z: "NOT t AND 0xffff = 0 \<longleftrightarrow> unat t = 65535" using t(1) by (auto simp flip: unat_eq_0)
  have c: "unat (ip_checksum r xs True) = (if unat t = 65535 then 65535 else 65535 - unat t)"
    using n z by (simp add: ip_checksum_def Let_def t_def [symmetric] unsigned_ucast_eq take_bit_eq_mod)
  have "(unat (ip_checksum r xs True) + unat t) mod 65535 = 0" using t(1) by (simp add: c)
  then have "(unat (ip_checksum r xs True) + (unat r + csum_nat xs)) mod 65535 = 0" using t(2) by (metis mod_add_right_eq)
  moreover have "0 < unat (ip_checksum r xs True)" using t(1) by (simp add: c)
  ultimately show ?thesis by (simp add: add.assoc)
qed

text \<open>The receiver's check: the one's complement sum over the data with its checksum is all ones.\<close>

definition checksum_ok :: "byte list \<Rightarrow> bool" where
  "checksum_ok xs \<longleftrightarrow> csum_fold (csum_add 0 xs) = 0xffff"

lemma checksum_okI:
  assumes "csum_nat xs < 2 ^ 32" "csum_nat xs mod 65535 = 0" "0 < csum_nat xs"
  shows "checksum_ok xs"
proof -
  let ?t = "csum_fold (csum_add 0 xs)"
  have "unat (csum_add 0 xs) = csum_nat xs" using csum_add_nat [of 0 xs] assms(1) by simp
  then have t: "unat ?t < 65536" "unat ?t mod 65535 = 0" "unat ?t \<noteq> 0"
    using csum_fold_value [of "csum_add 0 xs"] assms(2,3) by (auto simp: unat_eq_0)
  then obtain k where "unat ?t = 65535 * k" by auto
  with t(1,3) have "unat ?t = 65535" by (cases k) simp_all
  then show ?thesis by (simp add: checksum_ok_def word_unat_eq_iff)
qed

lemma csum_ip_header: "csum_nat (ip_header n p c a b) = csum_nat (ip_header n p 0 a b) + unat c"
  by (simp add: ip_header_def csum_nat_append)

lemma csum_udp_header: "csum_nat (udp_header sp dp m c) = csum_nat (udp_header sp dp m 0) + unat c"
  by (simp add: udp_header_def csum_nat_append)

lemma ip_header_checksum: "checksum_ok (ip_header n p (ip_checksum 0 (ip_header n p 0 a b) True) a b)"
proof (rule checksum_okI)
  have "csum_nat (ip_header n p 0 a b) < 2 ^ 32" using csum_nat_le [of "ip_header n p 0 a b"] by simp
  then show "csum_nat (ip_header n p (ip_checksum 0 (ip_header n p 0 a b) True) a b) mod 65535 = 0"
      "0 < csum_nat (ip_header n p (ip_checksum 0 (ip_header n p 0 a b) True) a b)"
    using ip_checksum_complete [of 0 "ip_header n p 0 a b"]
    by (simp_all add: csum_ip_header [of _ _ "ip_checksum 0 _ _"] add.commute)
qed (use csum_nat_le [of "ip_header n p (ip_checksum 0 (ip_header n p 0 a b) True) a b"] in simp)

lemma pseudo_checksum:
  "unat (ucast (ip_checksum 0 xs False) :: u32) < 65536 \<and>
   (csum_nat xs < 2 ^ 32 \<longrightarrow> unat (ucast (ip_checksum 0 xs False) :: u32) mod 65535 = csum_nat xs mod 65535)"
proof -
  have "unat (ip_checksum 0 xs False) = unat (csum_fold (csum_add 0 xs))"
    using csum_fold_value [of "csum_add 0 xs"] by (simp add: ip_checksum_def Let_def unsigned_ucast_eq take_bit_eq_mod)
  moreover have "unat (ucast w :: u32) = unat w" for w :: u16
    using unsigned_less [of w, where ?'a = nat] by (simp add: unsigned_ucast_eq take_bit_eq_mod)
  ultimately show ?thesis using csum_fold_value [of "csum_add 0 xs"] csum_add_nat [of 0 xs] by simp
qed

lemma udp_checksum:
  assumes "length P \<le> 65535" "even (length H)" "length H \<le> 100"
  defines "r \<equiv> ucast (ip_checksum 0 H False)"
  shows "checksum_ok (H @ udp_header sp dp m (ip_checksum r (udp_header sp dp m 0 @ udp_pad P) True) @ udp_pad P)"
    (is "checksum_ok ?xs")
proof (rule checksum_okI)
  let ?c = "ip_checksum r (udp_header sp dp m 0 @ udp_pad P) True"
  have xs: "csum_nat ?xs = csum_nat H + csum_nat (udp_header sp dp m 0) + unat ?c + csum_nat (udp_pad P)"
    using assms(2) by (simp add: csum_nat_append csum_udp_header [of _ _ _ ?c])
  have "length H div 2 \<le> 50" "length (udp_header sp dp m 0 @ udp_pad P) div 2 \<le> 33000" using assms(1,3) by auto
  then have b: "csum_nat H \<le> 65535 * 50" "csum_nat (udp_header sp dp m 0 @ udp_pad P) \<le> 65535 * 33000"
    using csum_nat_le [of H] csum_nat_le [of "udp_header sp dp m 0 @ udp_pad P"] by linarith+
  have r: "unat r < 65536" "unat r mod 65535 = csum_nat H mod 65535"
    using pseudo_checksum [of H] b(1) unfolding r_def by simp_all
  have c: "(unat ?c + unat r + csum_nat (udp_header sp dp m 0 @ udp_pad P)) mod 65535 = 0" "0 < unat ?c"
    using ip_checksum_complete [of r "udp_header sp dp m 0 @ udp_pad P"] r(1) b(2) by simp_all
  have "(unat ?c + csum_nat (udp_header sp dp m 0 @ udp_pad P) + unat r) mod 65535 =
      (unat ?c + csum_nat (udp_header sp dp m 0 @ udp_pad P) + csum_nat H) mod 65535"
    using r(2) by (metis mod_add_right_eq)
  then show "csum_nat ?xs mod 65535 = 0" using c(1) unfolding xs by (simp add: csum_nat_append ac_simps)
  show "0 < csum_nat ?xs" using c(2) unfolding xs by simp
  show "csum_nat ?xs < 2 ^ 32"
    using b unsigned_less [of ?c, where ?'a = nat] unfolding xs by (simp add: csum_nat_append)
qed

lemma length_udp_datagram [simp]: "length (udp_datagram s src dst payload) = length payload + 28"
  by (simp add: udp_datagram_def Let_def)

lemma process_udp_datagram:
  assumes "length D = 6" "length (my_mac s) = 6" "length payload \<le> ETHMAC_SLOT_SIZE - 42" "length payload + 42 \<le> rxlen"
  shows "process_udp (eth_header D (my_mac s) ty @ udp_datagram s src dst payload @ R) rxlen t =
    Some (map_option (\<lambda>cb. (cb, my_ip s, src, dst, payload)) (receiver (cached_ip s) t), t\<lparr>udp_last_src_mac := my_mac s\<rparr>)"
proof -
  have "unat (of_nat (length payload + 28) :: u16) = length payload + 28" "unat (of_nat (length payload + 8) :: u16) = length payload + 8"
    using assms(3) by (simp_all add: unat_of_nat ETHMAC_SLOT_SIZE_def del: of_nat_add)
  from process_udp_receives [OF assms(1,2) length_be16 this assms(4)] show ?thesis
    using assms(1,2) by (simp add: eth_header_def udp_datagram_def Let_def)
qed

lemma datagram_checksums:
  assumes "length payload \<le> ETHMAC_SLOT_SIZE - 42"
  shows "checksum_ok (take 20 (udp_datagram s src dst payload)) \<and>
    checksum_ok (pseudo_header (my_ip s) (cached_ip s) (of_nat (length payload + 8)) @ udp_pad (drop 20 (udp_datagram s src dst payload)))"
proof -
  have "udp_pad (udp_header a b m c @ P) = udp_header a b m c @ udp_pad P" for a b m c P by (simp add: udp_pad_def)
  moreover have "even (length (pseudo_header a b m))" "length (pseudo_header a b m) \<le> 100" for a b m
    by (simp_all add: pseudo_header_def)
  ultimately show ?thesis
    using assms ip_header_checksum udp_checksum [of payload]
    by (simp add: udp_datagram_def Let_def ETHMAC_SLOT_SIZE_def)
qed

text \<open>
  C12. What is sent arrives. With a peer set and at most 2006 bytes of payload in the transmit buffer,
  \<^verbatim>\<open>udp_send\<close> succeeds within its slot and starts exactly one frame, addressed to the peer. Its IP header
  and its UDP datagram, the latter under the pseudo header and padded to an even length, pass the
  one's complement check of a receiver, and a receiver with this code that gets the frame, in a slot
  with whatever bytes behind it, hands on exactly the sender's address, the two ports and the payload,
  and notes the sender's MAC address.
\<close>

theorem udp_send_delivers:
  assumes "udp_ok s" "\<not> list_all (\<lambda>b. b = 0) (cached_mac s)" "length payload \<le> ETHMAC_SLOT_SIZE - 42"
    and "take (length payload) (udp_get_tx_buffer s) = payload"
  shows "\<exists>s' dgram pad. udp_send src dst (length payload) s = Some (True, s') \<and> udp_ok s' \<and>
    wire s' = wire s @ [eth_header (cached_mac s) (my_mac s) 0x0800 @ dgram @ pad] \<and>
    checksum_ok (take 20 dgram) \<and>
    checksum_ok (pseudo_header (my_ip s) (cached_ip s) (of_nat (length payload + 8)) @ udp_pad (drop 20 dgram)) \<and>
    (\<forall>t junk. process_udp (last (wire s') @ junk) (length (last (wire s'))) t =
       Some (map_option (\<lambda>cb. (cb, my_ip s, src, dst, payload)) (receiver (cached_ip s) t), t\<lparr>udp_last_src_mac := my_mac s\<rparr>))"
proof -
  let ?F = "eth_header (cached_mac s) (my_mac s) 0x0800 @ udp_datagram s src dst payload"
  obtain slots pad s' where s': "s' = s\<lparr>tx_slots := slots, txslot := (txslot s + 1) mod ETHMAC_TX_SLOTS, wire := wire s @ [?F @ pad]\<rparr>"
      "udp_send src dst (length payload) s = Some (True, s')" "udp_ok s'"
    using udp_send_frame [OF assms, of src dst] unfolding Let_def by blast
  have macs: "length (cached_mac s) = 6" "length (my_mac s) = 6" using assms(1) by (simp_all add: udp_ok_def)
  have "process_udp (last (wire s') @ junk) (length (last (wire s'))) t =
      Some (map_option (\<lambda>cb. (cb, my_ip s, src, dst, payload)) (receiver (cached_ip s) t), t\<lparr>udp_last_src_mac := my_mac s\<rparr>)" for t junk
    by (simp add: s'(1) process_udp_datagram macs assms(3))
  moreover have "wire s' = wire s @ [eth_header (cached_mac s) (my_mac s) 0x0800 @ udp_datagram s src dst payload @ pad]"
    by (simp add: s'(1))
  ultimately show ?thesis using s'(2,3) datagram_checksums [OF assms(3), of s src dst] by blast
qed

definition demo_udp :: "bool udp_state" where
  "demo_udp = \<lparr>my_mac = [0x10, 0xe2, 0xd5, 0, 0, 2], my_ip = 0xC0A80132, cached_mac = replicate 6 0xFF, cached_ip = 0xFFFFFFFF,
     udp_last_src_mac = replicate 6 0, rx_callback = None, bx_callback = Some True, txslot = 1,
     tx_slots = replicate 2 (replicate 2048 7), wire = []\<rparr>"

theorem udp_send_delivers_witness:
  "\<exists>s' f. udp_send 68 67 3 demo_udp = Some (True, s') \<and> wire s' = [f] \<and>
    process_udp f (length f) (demo_udp\<lparr>my_ip := 0\<rparr>) =
      Some (Some (True, 0xC0A80132, 68, 67, [7, 7, 7]), demo_udp\<lparr>my_ip := 0, udp_last_src_mac := my_mac demo_udp\<rparr>)"
proof -
  have ok: "udp_ok demo_udp" "\<not> list_all (\<lambda>b. b = 0) (cached_mac demo_udp)"
    by (simp_all add: udp_ok_def demo_udp_def list_all_iff ETHMAC_TX_SLOTS_def ETHMAC_SLOT_SIZE_def)
  have len: "length [7, 7, 7 :: byte] = 3" by simp
  have fit: "length [7, 7, 7 :: byte] \<le> ETHMAC_SLOT_SIZE - 42" by (simp add: ETHMAC_SLOT_SIZE_def)
  have buf: "take (length [7, 7, 7 :: byte]) (udp_get_tx_buffer demo_udp) = [7, 7, 7]"
    by (simp add: udp_get_tx_buffer_def demo_udp_def numeral_3_eq_3)
  have w: "wire demo_udp = []" by (simp add: demo_udp_def)
  obtain s' f where s': "udp_send 68 67 3 demo_udp = Some (True, s')" "wire s' = [] @ [f]"
      "\<forall>(t :: bool udp_state) junk. process_udp (last (wire s') @ junk) (length (last (wire s'))) t =
        Some (map_option (\<lambda>cb. (cb, my_ip demo_udp, 68, 67, [7, 7, 7])) (receiver (cached_ip demo_udp) t),
          t\<lparr>udp_last_src_mac := my_mac demo_udp\<rparr>)"
    using udp_send_delivers [OF ok fit buf, of 68 67] unfolding len w by blast
  from s'(3) [rule_format, of "[]" "demo_udp\<lparr>my_ip := 0\<rparr>"] s'(1,2) show ?thesis
    by (simp add: receiver_def demo_udp_def)
qed

subsection \<open>Any frame\<close>

lemma wr_bytes_ok: "p + length vs \<le> length buf \<Longrightarrow> \<exists>buf'. wr_bytes buf p vs = Some buf' \<and> length buf' = length buf"
  by (simp add: wr_bytes_eq)

lemma send_packet_ok:
  assumes "udp_ok s" "length raw = ETHMAC_SLOT_SIZE" "txlen \<le> ETHMAC_SLOT_SIZE"
  shows "\<exists>slots n fs. send_packet raw txlen s = Some (s\<lparr>tx_slots := slots, txslot := n, wire := fs\<rparr>) \<and>
    udp_ok (s\<lparr>tx_slots := slots, txslot := n, wire := fs\<rparr>)"
  using send_packet_frame [OF assms, of "[]" raw] by auto

text \<open>The part of the state that receiving and answering may change.\<close>

definition udp_upd ::
    "byte list \<Rightarrow> byte list \<Rightarrow> byte list list \<Rightarrow> nat \<Rightarrow> byte list list \<Rightarrow> ('c, 'z) udp_state_scheme \<Rightarrow> ('c, 'z) udp_state_scheme" where
  "udp_upd src mac slots n fs s =
     s\<lparr>udp_last_src_mac := src, cached_mac := mac, tx_slots := slots, txslot := n, wire := fs\<rparr>"

definition quiet_step :: "('c, 'z) udp_state_scheme \<Rightarrow> ('c, 'z) udp_state_scheme option \<Rightarrow> bool" where
  "quiet_step s r \<longleftrightarrow> (\<exists>src mac slots n fs. r = Some (udp_upd src mac slots n fs s) \<and> udp_ok (udp_upd src mac slots n fs s))"

lemma quiet_stepI: "r = Some (udp_upd src mac slots n fs s) \<Longrightarrow> udp_ok (udp_upd src mac slots n fs s) \<Longrightarrow> quiet_step s r"
  unfolding quiet_step_def by blast

lemma quiet_same: "udp_ok s \<Longrightarrow> quiet_step s (Some s)"
  by (rule quiet_stepI [of _ "udp_last_src_mac s" "cached_mac s" "tx_slots s" "txslot s" "wire s"]) (simp_all add: udp_upd_def)

lemma quiet_send:
  assumes "udp_ok s" "length raw = ETHMAC_SLOT_SIZE" "txlen \<le> ETHMAC_SLOT_SIZE"
  shows "quiet_step s (send_packet raw txlen s)"
proof -
  obtain slots n fs where "send_packet raw txlen s = Some (s\<lparr>tx_slots := slots, txslot := n, wire := fs\<rparr>)"
      "udp_ok (s\<lparr>tx_slots := slots, txslot := n, wire := fs\<rparr>)"
    using send_packet_ok [OF assms] by blast
  then show ?thesis
    by (intro quiet_stepI [of _ "udp_last_src_mac s" "cached_mac s" slots n fs]) (simp_all add: udp_upd_def)
qed

lemma length_arp_packet [simp]: "length a = 6 \<Longrightarrow> length b = 6 \<Longrightarrow> length (arp_packet op a x b y) = 46"
  by (simp add: arp_packet_def)

text \<open>An address resolution packet written into the slot and sent.\<close>

lemma quiet_arp_send:
  assumes "udp_ok s" "length d = 6" "length t = 6"
  shows "quiet_step s (do {
      raw \<leftarrow> wr_bytes (tx_slots s ! txslot s) 0 (eth_header d (my_mac s) ty);
      raw \<leftarrow> wr_bytes raw 14 (arp_packet op (my_mac s) x t y);
      send_packet raw ARP_PACKET_LENGTH s })"
proof -
  have m: "length (my_mac s) = 6" using assms(1) by (simp add: udp_ok_def)
  note slot = slot_length [OF assms(1)]
  obtain raw1 where raw1: "wr_bytes (tx_slots s ! txslot s) 0 (eth_header d (my_mac s) ty) = Some raw1" "length raw1 = ETHMAC_SLOT_SIZE"
    using wr_bytes_ok [of 0 "eth_header d (my_mac s) ty" "tx_slots s ! txslot s"] m assms(2) slot by (auto simp: ETHMAC_SLOT_SIZE_def)
  obtain raw2 where raw2: "wr_bytes raw1 14 (arp_packet op (my_mac s) x t y) = Some raw2" "length raw2 = ETHMAC_SLOT_SIZE"
    using wr_bytes_ok [of 14 "arp_packet op (my_mac s) x t y" raw1] m assms(3) raw1(2) by (auto simp: ETHMAC_SLOT_SIZE_def)
  show ?thesis
    using quiet_send [OF assms(1) raw2(2), of ARP_PACKET_LENGTH] raw1(1) raw2(1)
    by (simp add: ARP_PACKET_LENGTH_def ETHMAC_SLOT_SIZE_def)
qed

lemma process_arp_ok:
  assumes "udp_ok s" "length rx = ETHMAC_SLOT_SIZE"
  shows "quiet_step s (process_arp rx rxlen s)"
proof -
  have len: "46 \<le> length rx" using assms(2) by (simp add: ETHMAC_SLOT_SIZE_def)
  have "get_be16 rx 14 \<noteq> None" "get_be16 rx 16 \<noteq> None" "get_be16 rx 20 \<noteq> None" "get_be32 rx 28 \<noteq> None" "get_be32 rx 38 \<noteq> None"
    unfolding get_be16_Some get_be32_Some using len by simp_all
  then obtain a b c d e where reads: "get_be16 rx 14 = Some a" "get_be16 rx 16 = Some b" "get_be16 rx 20 = Some c"
      "get_be32 rx 28 = Some d" "get_be32 rx 38 = Some e" by blast
  have bytes: "rd8 rx 18 = Some (rx ! 18)" "rd8 rx 19 = Some (rx ! 19)" "rd_bytes rx 22 6 = Some (take 6 (drop 22 rx))"
    using len by (simp_all add: rd8_def rd_bytes_def)
  let ?mac = "take 6 (drop 22 rx)"
  have mac: "length ?mac = 6" using len by simp
  have "quiet_step s (Some (s\<lparr>cached_mac := ?mac\<rparr>))"
    by (rule quiet_stepI [of _ "udp_last_src_mac s" ?mac "tx_slots s" "txslot s" "wire s"])
      (use assms(1) mac in \<open>simp_all add: udp_upd_def udp_ok_def\<close>)
  then show ?thesis
    using quiet_same [OF assms(1)] quiet_arp_send [OF assms(1) mac mac, of "0x0806" 2 "my_ip s" d]
    by (simp add: process_arp_def reads bytes)
qed

lemma process_udp_state:
  "process_udp rx rxlen s = Some (call, s') \<Longrightarrow> s' = s \<or> (\<exists>mac. rd_bytes rx 6 6 = Some mac \<and> s' = s\<lparr>udp_last_src_mac := mac\<rparr>)"
  by (auto simp: process_udp_def Let_def split: if_splits bind_splits)

lemma process_udp_quiet:
  assumes "udp_ok s" "process_udp rx rxlen s = Some (call, s')"
  shows "quiet_step s (Some s')"
  using process_udp_state [OF assms(2)]
proof (elim disjE exE conjE)
  fix mac
  assume mac: "rd_bytes rx 6 6 = Some mac" "s' = s\<lparr>udp_last_src_mac := mac\<rparr>"
  then have "length mac = 6" by (auto simp: rd_bytes_def split: if_splits)
  with mac(2) assms(1) show ?thesis
    by (intro quiet_stepI [of _ mac "cached_mac s" "tx_slots s" "txslot s" "wire s"]) (simp_all add: udp_upd_def udp_ok_def)
qed (use quiet_same [OF assms(1)] in simp)

lemma process_icmp_ok:
  assumes "udp_ok s" "length rx = ETHMAC_SLOT_SIZE" "rxlen \<le> ETHMAC_SLOT_SIZE"
  shows "quiet_step s (process_icmp rx rxlen s)"
proof -
  have len: "42 \<le> length rx" using assms(2) by (simp add: ETHMAC_SLOT_SIZE_def)
  have "get_be16 rx 16 \<noteq> None" "get_be32 rx 26 \<noteq> None"
    unfolding get_be16_Some get_be32_Some using len by simp_all
  then obtain t src where reads: "get_be16 rx 16 = Some t" "get_be32 rx 26 = Some src" by blast
  have bytes: "rd8 rx 34 = Some (rx ! 34)" "rd_bytes rx 6 6 = Some (take 6 (drop 6 rx))" "rd_bytes rx 38 4 = Some (take 4 (drop 38 rx))"
    using len by (simp_all add: rd8_def rd_bytes_def)
  show ?thesis
  proof (cases "rxlen < 42 \<or> unat t < 28 \<or> 14 + unat t > rxlen \<or> rx ! 34 \<noteq> 8")
    case True
    then show ?thesis using quiet_same [OF assms(1)] by (auto simp: process_icmp_def reads bytes)
  next
    case False
    define n where "n = unat t - 28"
    let ?E = "eth_header (take 6 (drop 6 rx)) (my_mac s) 0x0800" and ?I = "ip_header (of_nat (n + 28)) 1 0 (my_ip s) src"
    let ?P = "[0, 0] @ be16 0 @ take 4 (drop 38 rx) @ take n (drop 42 rx)"
    have n: "42 + n \<le> ETHMAC_SLOT_SIZE" using False assms(3) by (auto simp: n_def)
    have E: "length ?E = 14" using assms(1) len by (simp add: udp_ok_def)
    have P: "length ?P = n + 8" using n assms(2) by (simp add: ETHMAC_SLOT_SIZE_def)
    obtain r1 where r1: "wr_bytes (tx_slots s ! txslot s) 0 ?E = Some r1" "length r1 = ETHMAC_SLOT_SIZE"
      using wr_bytes_ok [of 0 ?E "tx_slots s ! txslot s"] E slot_length [OF assms(1)] by (auto simp: ETHMAC_SLOT_SIZE_def)
    obtain r2 where r2: "wr_bytes r1 14 ?I = Some r2" "length r2 = ETHMAC_SLOT_SIZE"
      using wr_bytes_ok [of 14 ?I r1] r1(2) by (auto simp: ETHMAC_SLOT_SIZE_def)
    obtain r3 where r3: "put_be16 r2 24 (ip_checksum 0 (take 20 (drop 14 r2)) True) = Some r3" "length r3 = ETHMAC_SLOT_SIZE"
      using wr_bytes_ok [of 24 "be16 (ip_checksum 0 (take 20 (drop 14 r2)) True)" r2] r2(2)
      by (auto simp: put_be16_def ETHMAC_SLOT_SIZE_def)
    obtain r4 where r4: "wr_bytes r3 34 ?P = Some r4" "length r4 = ETHMAC_SLOT_SIZE"
      using wr_bytes_ok [of 34 ?P r3] r3(2) n P by (auto simp: ETHMAC_SLOT_SIZE_def)
    obtain r5 where r5: "put_be16 r4 36 (ip_checksum 0 (take (n + 8) (drop 34 r4)) True) = Some r5" "length r5 = ETHMAC_SLOT_SIZE"
      using wr_bytes_ok [of 36 "be16 (ip_checksum 0 (take (n + 8) (drop 34 r4)) True)" r4] r4(2)
      by (auto simp: put_be16_def ETHMAC_SLOT_SIZE_def)
    have rd: "rd_bytes r2 14 20 = Some (take 20 (drop 14 r2))" "rd_bytes r4 34 (n + 8) = Some (take (n + 8) (drop 34 r4))"
        "rd_bytes rx 42 n = Some (take n (drop 42 rx))"
      using r2(2) r4(2) n assms(2) by (simp_all add: rd_bytes_def ETHMAC_SLOT_SIZE_def)
    have "process_icmp rx rxlen s = send_packet r5 (n + 42) s"
      using False r1(1) r2(1) r3(1) r4(1) r5(1) rd
      by (simp add: process_icmp_def reads bytes Let_def n_def [symmetric] del: append.simps of_nat_add)
    then show ?thesis using quiet_send [OF assms(1) r5(2), of "n + 42"] n by simp
  qed
qed

text \<open>Every frame is handled within the buffers, and what a callback gets lies inside the frame.\<close>

lemma process_frame_ok:
  assumes "udp_ok s" "length rx = ETHMAC_SLOT_SIZE"
  shows "\<exists>call s'. process_frame rx rxlen s = Some (call, s') \<and> quiet_step s (Some s') \<and>
    (call = None \<or> (\<exists>cb src sp dp payload. call = Some (cb, src, sp, dp, payload) \<and> 42 + length payload \<le> rxlen))"
proof -
  have len: "42 \<le> length rx" using assms(2) by (simp add: ETHMAC_SLOT_SIZE_def)
  have "get_be16 rx 12 \<noteq> None" "get_be32 rx 30 \<noteq> None" unfolding get_be16_Some get_be32_Some using len by simp_all
  then obtain ty dst where reads: "get_be16 rx 12 = Some ty" "get_be32 rx 30 = Some dst" by blast
  have bytes: "rd8 rx 14 = Some (rx ! 14)" "rd8 rx 23 = Some (rx ! 23)" using len by (simp_all add: rd8_def)
  show ?thesis
  proof (cases "rxlen < 14 \<or> rxlen > ETHMAC_SLOT_SIZE")
    case False
    then have fit: "rxlen \<le> ETHMAC_SLOT_SIZE" "rxlen \<le> length rx" using assms(2) by simp_all
    obtain a i where arp: "process_arp rx rxlen s = Some a" "quiet_step s (Some a)"
      and icmp: "process_icmp rx rxlen s = Some i" "quiet_step s (Some i)"
      using process_arp_ok [OF assms, of rxlen] process_icmp_ok [OF assms fit(1)] unfolding quiet_step_def by metis
    obtain call u where udp: "process_udp rx rxlen s = Some (call, u)" "quiet_step s (Some u)"
        "call = None \<or> (\<exists>cb src sp dp payload. call = Some (cb, src, sp, dp, payload) \<and> 42 + length payload \<le> rxlen)"
      using process_udp_safe [OF fit(2), of s] process_udp_quiet [OF assms(1)] by blast
    show ?thesis
      using False arp icmp udp quiet_same [OF assms(1)] by (simp add: process_frame_def reads bytes)
  qed (use quiet_same [OF assms(1)] in \<open>auto simp: process_frame_def\<close>)
qed

lemma quiet_fields:
  assumes "quiet_step s (Some s')"
  shows "udp_ok s' \<and> my_mac s' = my_mac s \<and> my_ip s' = my_ip s \<and> cached_ip s' = cached_ip s \<and>
    rx_callback s' = rx_callback s \<and> bx_callback s' = bx_callback s \<and> udp_state.more s' = udp_state.more s"
  using assms by (auto simp: quiet_step_def udp_upd_def)

lemma udp_send_quiet:
  assumes "udp_ok s"
  shows "\<exists>sent s'. udp_send sp dp n s = Some (sent, s') \<and> quiet_step s (Some s')"
proof (cases "list_all (\<lambda>b. b = 0) (cached_mac s) \<or> n > ETHMAC_SLOT_SIZE - 42")
  case True
  then show ?thesis using quiet_same [OF assms] by (auto simp: udp_send_def)
next
  case False
  let ?p = "take n (udp_get_tx_buffer s)"
  have len: "length ?p = n" using False slot_length [OF assms] by (simp add: udp_get_tx_buffer_def)
  obtain slots k fs where "udp_send sp dp n s = Some (True, s\<lparr>tx_slots := slots, txslot := k, wire := fs\<rparr>)"
      "udp_ok (s\<lparr>tx_slots := slots, txslot := k, wire := fs\<rparr>)"
    using udp_send_frame [OF assms, of ?p sp dp] False len unfolding Let_def by auto
  moreover from this(2) have "quiet_step s (Some (s\<lparr>tx_slots := slots, txslot := k, wire := fs\<rparr>))"
    by (intro quiet_stepI [of _ "udp_last_src_mac s" "cached_mac s" slots k fs]) (simp_all add: udp_upd_def)
  ultimately show ?thesis by blast
qed

lemma fill_tx_buffer_ok:
  assumes "udp_ok s" "length xs \<le> ETHMAC_SLOT_SIZE - 42"
  shows "\<exists>slots. fill_tx_buffer xs s = Some (s\<lparr>tx_slots := slots\<rparr>) \<and> udp_ok (s\<lparr>tx_slots := slots\<rparr>) \<and>
    take (length xs) (udp_get_tx_buffer (s\<lparr>tx_slots := slots\<rparr>)) = xs"
proof -
  define raw where "raw = tx_slots s ! txslot s"
  define raw' where "raw' = take 42 raw @ xs @ drop (42 + length xs) raw"
  have l: "length raw = ETHMAC_SLOT_SIZE" using slot_length [OF assms(1)] by (simp add: raw_def)
  have n: "txslot s < length (tx_slots s)" using assms(1) by (simp add: udp_ok_def)
  have l': "length raw' = ETHMAC_SLOT_SIZE" using l assms(2) by (simp add: raw'_def ETHMAC_SLOT_SIZE_def)
  have "wr_bytes raw 42 xs = Some raw'" using l assms(2) by (simp add: wr_bytes_eq raw'_def ETHMAC_SLOT_SIZE_def)
  then have "fill_tx_buffer xs s = Some (s\<lparr>tx_slots := (tx_slots s)[txslot s := raw']\<rparr>)"
    by (simp add: fill_tx_buffer_def raw_def)
  moreover have "udp_ok (s\<lparr>tx_slots := (tx_slots s)[txslot s := raw']\<rparr>)"
    using assms(1) l' by (auto simp: udp_ok_def list_all_iff dest!: subsetD [OF set_update_subset_insert])
  moreover have "take (length xs) (udp_get_tx_buffer (s\<lparr>tx_slots := (tx_slots s)[txslot s := raw']\<rparr>)) = xs"
    using n l by (simp add: udp_get_tx_buffer_def raw'_def ETHMAC_SLOT_SIZE_def)
  ultimately show ?thesis by blast
qed

text \<open>A datagram addressed to a station, or broadcast, passes the filters before \<^verbatim>\<open>process_udp\<close>.\<close>

lemma process_frame_datagram:
  assumes macs: "length D = 6" "length (my_mac h) = 6" and len: "length payload + 42 \<le> rxlen" "rxlen \<le> ETHMAC_SLOT_SIZE"
    and dst: "cached_ip h = my_ip t \<or> cached_ip h = 0xFFFFFFFF \<or> cached_ip h = (my_ip t OR 0xff)"
  shows "process_frame (eth_header D (my_mac h) 0x0800 @ udp_datagram h sp dp payload @ R) rxlen t =
    Some (map_option (\<lambda>cb. (cb, my_ip h, sp, dp, payload)) (receiver (cached_ip h) t), t\<lparr>udp_last_src_mac := my_mac h\<rparr>)"
    (is "process_frame ?rx _ _ = _")
proof -
  let ?E = "eth_header D (my_mac h) 0x0800"
  obtain n c U where d: "udp_datagram h sp dp payload @ R = ip_header n 0x11 c (my_ip h) (cached_ip h) @ U"
    by (simp add: udp_datagram_def Let_def)
  have E: "length ?E = 14" using macs by simp
  have ip: "rd8 ?rx 23 = Some 0x11" "get_be32 ?rx 30 = Some (cached_ip h)"
    unfolding d by (rule header_fields [OF E])+
  have v: "rd8 ?rx 14 = Some 0x45"
    unfolding d using rd8_app [of 14 ?E "0x45" "tl (ip_header n 0x11 c (my_ip h) (cached_ip h)) @ U"] E by (simp add: ip_header_def)
  have ty: "get_be16 ?rx 12 = Some 0x0800"
    using get_be16_app [of 12 "D @ my_mac h" "0x0800" "udp_datagram h sp dp payload @ R"] macs by (simp add: eth_header_def)
  have fit: "length payload \<le> ETHMAC_SLOT_SIZE - 42" using len by simp
  show ?thesis
    using dst len process_udp_datagram [OF macs fit len(1), of "0x0800" sp dp R t]
    by (auto simp: process_frame_def ty ip v)
qed

end
