(* ===== verification/Eb_Serve.thy ===== *)
theory Eb_Serve
  imports Eb8008 Udp
begin

text \<open>
  The firmware's serve glue, \<^verbatim>\<open>src/firmware/eb_serve.c\<close>: the receive callback stashes one request, the
  main loop answers it. The state is that of the UDP layer with the stash, the reply buffer, the
  counters and the bus behind it. The callbacks the firmware installs are the two of \<open>callback\<close>.
\<close>

datatype callback = Dhcp_rx | Eb_rx

definition EB_BUF_LEN :: nat where "EB_BUF_LEN = 1500"

record 'b fw = "callback udp_state" +
  eb_pending :: bool
  eb_src_ip :: u32
  eb_src_port :: u16
  eb_dst_port :: u16
  eb_src_mac :: "byte list"
  eb_req :: "byte list"
  eb_req_len :: nat
  eb_resp :: "byte list"
  eb_cb_any :: u32
  eb_cb_port :: u32
  eb_served :: u32
  bus_state :: 'b

definition eb_rx_callback :: "u32 \<Rightarrow> u16 \<Rightarrow> u16 \<Rightarrow> byte list \<Rightarrow> ('b, 'y) fw_scheme \<Rightarrow> ('b, 'y) fw_scheme" where
  "eb_rx_callback src_ip src_port dst_port data s =
     (let s = s\<lparr>eb_cb_any := eb_cb_any s + 1\<rparr> in
      if eb_pending s then s
      else if 2 \<le> length data \<and> (data ! 0 \<noteq> 0x4e \<or> data ! 1 \<noteq> 0x6f) then s
      else if length data > EB_BUF_LEN then s
      else s\<lparr>eb_cb_port := eb_cb_port s + 1, eb_dst_port := dst_port, eb_src_mac := take 6 (udp_last_src_mac s),
             eb_req := data @ drop (length data) (eb_req s), eb_req_len := length data, eb_src_ip := src_ip,
             eb_src_port := src_port, eb_pending := True\<rparr>)"

definition eb_serve_pending :: "('b, 'z) bus_scheme \<Rightarrow> ('b, 'y) fw_scheme \<Rightarrow> ('b, 'y) fw_scheme option" where
  "eb_serve_pending B s =
     (if \<not> eb_pending s then Some s
      else do {
        (resp, resp_len, b) \<leftarrow> eb8008_handle B (take (eb_req_len s) (eb_req s)) (eb_resp s) (bus_state s);
        let s = s\<lparr>eb_resp := resp, bus_state := b\<rparr>;
        s \<leftarrow> (if resp_len \<noteq> 0
             then do {
               s \<leftarrow> fill_tx_buffer (take resp_len resp) (udp_set_peer (eb_src_ip s) (eb_src_mac s) s);
               (_, s) \<leftarrow> udp_send (eb_dst_port s) (eb_src_port s) resp_len s;
               Some (s\<lparr>eb_served := eb_served s + 1\<rparr>) }
             else Some s);
        Some (s\<lparr>eb_pending := False\<rparr>) })"

subsection \<open>The buffers\<close>

definition fw_ok :: "('b, 'y) fw_scheme \<Rightarrow> bool" where
  "fw_ok s \<longleftrightarrow> udp_ok s \<and> length (eb_req s) = EB_BUF_LEN \<and> length (eb_resp s) = EB_BUF_LEN + 16 \<and>
     eb_req_len s \<le> EB_BUF_LEN \<and> length (eb_src_mac s) = 6"

lemma callback_ok:
  assumes "fw_ok s"
  shows "fw_ok (eb_rx_callback src sp dp data s)"
proof -
  have "udp_ok (eb_rx_callback src sp dp data s)"
    using assms by (simp add: eb_rx_callback_def Let_def fw_ok_def udp_ok_def)
  then show ?thesis
    using assms by (auto simp: eb_rx_callback_def Let_def fw_ok_def udp_ok_def)
qed

text \<open>What answering does, for each outcome of the handler.\<close>

lemma serve_silent:
  assumes "eb_pending s" "eb8008_handle B (take (eb_req_len s) (eb_req s)) (eb_resp s) (bus_state s) = Some (resp, 0, b)"
  shows "eb_serve_pending B s = Some (s\<lparr>eb_resp := resp, bus_state := b, eb_pending := False\<rparr>)"
  using assms by (simp add: eb_serve_pending_def)

lemma serve_replies:
  assumes ok: "fw_ok s" and pend: "eb_pending s" and n: "0 < n" "n \<le> EB_BUF_LEN + 16" "length resp = EB_BUF_LEN + 16"
    and handle: "eb8008_handle B (take (eb_req_len s) (eb_req s)) (eb_resp s) (bus_state s) = Some (resp, n, b)"
    and mac: "\<not> list_all (\<lambda>b. b = 0) (eb_src_mac s)"
  defines "d \<equiv> udp_datagram (udp_set_peer (eb_src_ip s) (eb_src_mac s) s) (eb_dst_port s) (eb_src_port s) (take n resp)"
  shows "\<exists>s' pad. eb_serve_pending B s = Some s' \<and> fw_ok s' \<and> \<not> eb_pending s' \<and> bus_state s' = b \<and>
    eb_served s' = eb_served s + 1 \<and> wire s' = wire s @ [eth_header (eb_src_mac s) (my_mac s) 0x0800 @ d @ pad] \<and>
    my_ip s' = my_ip s \<and> rx_callback s' = rx_callback s \<and> bx_callback s' = bx_callback s \<and> fw.more s' = fw.more s"
proof -
  define s1 where "s1 = udp_set_peer (eb_src_ip s) (eb_src_mac s) (s\<lparr>eb_resp := resp, bus_state := b\<rparr>)"
  have ok1: "udp_ok s1" using ok by (simp add: s1_def udp_set_peer_def fw_ok_def udp_ok_def)
  have len: "length (take n resp) = n" "length (take n resp) \<le> ETHMAC_SLOT_SIZE - 42"
    using n by (simp_all add: EB_BUF_LEN_def ETHMAC_SLOT_SIZE_def)
  obtain slots where fill: "fill_tx_buffer (take n resp) s1 = Some (s1\<lparr>tx_slots := slots\<rparr>)" "udp_ok (s1\<lparr>tx_slots := slots\<rparr>)"
      "take (length (take n resp)) (udp_get_tx_buffer (s1\<lparr>tx_slots := slots\<rparr>)) = take n resp"
    using fill_tx_buffer_ok [OF ok1 len(2)] by blast
  have peer: "\<not> list_all (\<lambda>b. b = 0) (cached_mac (s1\<lparr>tx_slots := slots\<rparr>))"
    using mac ok by (simp add: s1_def udp_set_peer_def fw_ok_def)
  have d: "udp_datagram (s1\<lparr>tx_slots := slots\<rparr>) (eb_dst_port s) (eb_src_port s) (take n resp) = d"
    by (simp add: d_def s1_def udp_set_peer_def udp_datagram_def)
  have mac1: "cached_mac (s1\<lparr>tx_slots := slots\<rparr>) = eb_src_mac s" "my_mac (s1\<lparr>tx_slots := slots\<rparr>) = my_mac s"
      "wire (s1\<lparr>tx_slots := slots\<rparr>) = wire s"
    using ok by (simp_all add: s1_def udp_set_peer_def fw_ok_def)
  obtain slots2 pad s2 where s2: "s2 = s1\<lparr>tx_slots := slots2, txslot := (txslot s1 + 1) mod ETHMAC_TX_SLOTS,
        wire := wire s @ [eth_header (eb_src_mac s) (my_mac s) 0x0800 @ d @ pad]\<rparr>"
      "udp_send (eb_dst_port s) (eb_src_port s) n (s1\<lparr>tx_slots := slots\<rparr>) = Some (True, s2)" "udp_ok s2"
    using udp_send_frame [OF fill(2) peer len(2) fill(3), of "eb_dst_port s" "eb_src_port s"]
    unfolding Let_def d mac1 len(1) by auto
  have "eb_serve_pending B s = Some (s2\<lparr>eb_served := eb_served s2 + 1, eb_pending := False\<rparr>)"
    using pend handle n(1) fill(1) s2(2) by (simp add: eb_serve_pending_def s1_def [symmetric]) (simp add: s1_def udp_set_peer_def)
  moreover have "fw_ok (s2\<lparr>eb_served := eb_served s2 + 1, eb_pending := False\<rparr>)"
    using ok s2(3) n(3) by (simp add: fw_ok_def udp_ok_def s2(1) s1_def udp_set_peer_def)
  ultimately show ?thesis
    by (intro exI [of _ "s2\<lparr>eb_served := eb_served s2 + 1, eb_pending := False\<rparr>"] exI [of _ pad])
      (simp add: s2(1) s1_def udp_set_peer_def)
qed

text \<open>Receiving and sending leave the stash and the buffers alone.\<close>

lemma quiet_fw:
  assumes "fw_ok s" "quiet_step s (Some s')"
  shows "fw_ok s' \<and> fw.more s' = fw.more s \<and> eb_pending s' = eb_pending s \<and> bus_state s' = bus_state s"
  using assms by (auto simp: quiet_step_def udp_upd_def fw_ok_def)

lemma serve_total:
  assumes ok: "fw_ok s"
  shows "\<exists>s'. eb_serve_pending B s = Some s' \<and> fw_ok s' \<and> \<not> eb_pending s' \<and> fw.more s' = fw.more s"
proof (cases "eb_pending s")
  case True
  obtain resp n b where h: "eb8008_handle B (take (eb_req_len s) (eb_req s)) (eb_resp s) (bus_state s) = Some (resp, n, b)"
      "length resp = length (eb_resp s)" "n \<le> max 12 (length (take (eb_req_len s) (eb_req s)))"
    using handle_bounded [of "take (eb_req_len s) (eb_req s)" "eb_resp s" B "bus_state s"] ok
    by (auto simp: fw_ok_def EB_BUF_LEN_def)
  have n: "n \<le> EB_BUF_LEN + 16" "length resp = EB_BUF_LEN + 16" using h(2,3) ok by (auto simp: fw_ok_def EB_BUF_LEN_def)
  define s1 where "s1 = udp_set_peer (eb_src_ip s) (eb_src_mac s) (s\<lparr>eb_resp := resp, bus_state := b\<rparr>)"
  have ok1: "fw_ok s1" using ok n(2) by (auto simp: s1_def udp_set_peer_def fw_ok_def udp_ok_def)
  have len: "length (take n resp) \<le> ETHMAC_SLOT_SIZE - 42" using n by (simp add: EB_BUF_LEN_def ETHMAC_SLOT_SIZE_def)
  obtain slots where fill: "fill_tx_buffer (take n resp) s1 = Some (s1\<lparr>tx_slots := slots\<rparr>)" "udp_ok (s1\<lparr>tx_slots := slots\<rparr>)"
    using fill_tx_buffer_ok [OF _ len, of s1] ok1 by (auto simp: fw_ok_def)
  have ok2: "fw_ok (s1\<lparr>tx_slots := slots\<rparr>)" using fill(2) ok1 by (simp add: fw_ok_def)
  obtain sent s2 where send: "udp_send (eb_dst_port s) (eb_src_port s) n (s1\<lparr>tx_slots := slots\<rparr>) = Some (sent, s2)"
      "quiet_step (s1\<lparr>tx_slots := slots\<rparr>) (Some s2)"
    using udp_send_quiet [OF fill(2)] by blast
  note q = quiet_fw [OF ok2 send(2)]
  show ?thesis
  proof (cases "n = 0")
    case True
    with serve_silent [OF \<open>eb_pending s\<close>, of B resp b] h(1)
    have "eb_serve_pending B s = Some (s\<lparr>eb_resp := resp, bus_state := b, eb_pending := False\<rparr>)" by simp
    then show ?thesis using ok n(2) by (simp add: fw_ok_def udp_ok_def)
  next
    case False
    have "eb_serve_pending B s = Some (s2\<lparr>eb_served := eb_served s2 + 1, eb_pending := False\<rparr>)"
      using True False h(1) fill(1) send(1)
      by (simp add: eb_serve_pending_def s1_def [symmetric]) (simp add: s1_def udp_set_peer_def)
    moreover have "fw_ok (s2\<lparr>eb_served := eb_served s2 + 1, eb_pending := False\<rparr>)"
      using q by (auto simp: fw_ok_def udp_ok_def)
    ultimately show ?thesis using q by (simp add: s1_def udp_set_peer_def)
  qed
qed (use ok in \<open>simp add: eb_serve_pending_def\<close>)

end
