(* ===== verification/Dhcp.thy ===== *)
theory Dhcp
  imports C_Mem
begin

text \<open>
  The DHCP packets of the firmware, \<^verbatim>\<open>src/firmware/dhcp8008.c\<close>: the two requests built into a buffer and
  the reply parsed out of one. As in the other C code, \<open>None\<close> is an access out of bounds.
\<close>

definition DHCP_MAGIC_COOKIE :: u32 where "DHCP_MAGIC_COOKIE = 0x63825363"
definition DHCP_OPTIONS_OFFSET :: nat where "DHCP_OPTIONS_OFFSET = 240"
definition DHCP_MIN_PACKET_LEN :: nat where "DHCP_MIN_PACKET_LEN = 300"

definition DHCP_OPT_PAD :: byte where "DHCP_OPT_PAD = 0"
definition DHCP_OPT_HOSTNAME :: byte where "DHCP_OPT_HOSTNAME = 12"
definition DHCP_OPT_REQUESTED_IP :: byte where "DHCP_OPT_REQUESTED_IP = 50"
definition DHCP_OPT_LEASE_TIME :: byte where "DHCP_OPT_LEASE_TIME = 51"
definition DHCP_OPT_MSG_TYPE :: byte where "DHCP_OPT_MSG_TYPE = 53"
definition DHCP_OPT_SERVER_ID :: byte where "DHCP_OPT_SERVER_ID = 54"
definition DHCP_OPT_PARAM_REQ_LIST :: byte where "DHCP_OPT_PARAM_REQ_LIST = 55"
definition DHCP_OPT_CLIENT_ID :: byte where "DHCP_OPT_CLIENT_ID = 61"
definition DHCP_OPT_END :: byte where "DHCP_OPT_END = 255"

definition DHCP_MSG_DISCOVER :: byte where "DHCP_MSG_DISCOVER = 1"
definition DHCP_MSG_OFFER :: byte where "DHCP_MSG_OFFER = 2"
definition DHCP_MSG_REQUEST :: byte where "DHCP_MSG_REQUEST = 3"
definition DHCP_MSG_ACK :: byte where "DHCP_MSG_ACK = 5"

text \<open>The host name \<open>b8008\<close> in ASCII.\<close>

definition DHCP_HOSTNAME :: "byte list" where "DHCP_HOSTNAME = [0x62, 0x38, 0x30, 0x30, 0x38]"

subsection \<open>Building\<close>

text \<open>Builders return the buffer and the offset reached.\<close>

definition build_header :: "byte list \<Rightarrow> byte list \<Rightarrow> u32 \<Rightarrow> (byte list \<times> nat) option" where
  "build_header buf chaddr xid = do {
     buf \<leftarrow> wr_bytes buf 0 (replicate DHCP_OPTIONS_OFFSET 0);
     buf \<leftarrow> wr8 buf 0 1;
     buf \<leftarrow> wr8 buf 1 1;
     buf \<leftarrow> wr8 buf 2 6;
     buf \<leftarrow> wr8 buf 3 0;
     buf \<leftarrow> put_be32 buf 4 xid;
     buf \<leftarrow> put_be16 buf 8 0;
     buf \<leftarrow> put_be16 buf 10 0x8000;
     buf \<leftarrow> wr_bytes buf 28 (take 6 chaddr);
     buf \<leftarrow> put_be32 buf 236 DHCP_MAGIC_COOKIE;
     Some (buf, DHCP_OPTIONS_OFFSET) }"

definition put_option :: "byte list \<Rightarrow> nat \<Rightarrow> byte \<Rightarrow> byte list \<Rightarrow> (byte list \<times> nat) option" where
  "put_option buf off code data = do {
     buf \<leftarrow> wr8 buf off code;
     buf \<leftarrow> wr8 buf (off + 1) (of_nat (length data));
     buf \<leftarrow> wr_bytes buf (off + 2) data;
     Some (buf, off + 2 + length data) }"

definition build_common_options :: "byte list \<Rightarrow> nat \<Rightarrow> byte list \<Rightarrow> byte \<Rightarrow> (byte list \<times> nat) option" where
  "build_common_options buf off chaddr msg_type = do {
     (buf, off) \<leftarrow> put_option buf off DHCP_OPT_MSG_TYPE [msg_type];
     (buf, off) \<leftarrow> put_option buf off DHCP_OPT_PARAM_REQ_LIST [1, 3, 6];
     (buf, off) \<leftarrow> put_option buf off DHCP_OPT_HOSTNAME DHCP_HOSTNAME;
     put_option buf off DHCP_OPT_CLIENT_ID (1 # take 6 chaddr) }"

definition finish_options :: "byte list \<Rightarrow> nat \<Rightarrow> (byte list \<times> nat) option" where
  "finish_options buf off = do {
     buf \<leftarrow> wr8 buf off DHCP_OPT_END;
     buf \<leftarrow> wr_bytes buf (off + 1) (replicate (DHCP_MIN_PACKET_LEN - (off + 1)) DHCP_OPT_PAD);
     Some (buf, max (off + 1) DHCP_MIN_PACKET_LEN) }"

definition dhcp_build_discover :: "byte list \<Rightarrow> byte list \<Rightarrow> u32 \<Rightarrow> (byte list \<times> nat) option" where
  "dhcp_build_discover buf chaddr xid = do {
     (buf, off) \<leftarrow> build_header buf chaddr xid;
     (buf, off) \<leftarrow> build_common_options buf off chaddr DHCP_MSG_DISCOVER;
     finish_options buf off }"

definition dhcp_build_request :: "byte list \<Rightarrow> byte list \<Rightarrow> u32 \<Rightarrow> u32 \<Rightarrow> u32 \<Rightarrow> (byte list \<times> nat) option" where
  "dhcp_build_request buf chaddr xid requested_ip server_id = do {
     (buf, off) \<leftarrow> build_header buf chaddr xid;
     (buf, off) \<leftarrow> build_common_options buf off chaddr DHCP_MSG_REQUEST;
     (buf, off) \<leftarrow> put_option buf off DHCP_OPT_REQUESTED_IP (be32 requested_ip);
     (buf, off) \<leftarrow> put_option buf off DHCP_OPT_SERVER_ID (be32 server_id);
     finish_options buf off }"

subsection \<open>Parsing\<close>

text \<open>The three values the option loop keeps; the message type is \<open>-1\<close> until one is seen.\<close>

record parsed =
  msg_type :: int
  got_server :: u32
  got_lease :: u32

definition take_option :: "byte list \<Rightarrow> nat \<Rightarrow> byte \<Rightarrow> nat \<Rightarrow> parsed \<Rightarrow> parsed option" where
  "take_option buf off code olen p =
     (if code = DHCP_OPT_MSG_TYPE then (if 1 \<le> olen then do { v \<leftarrow> rd8 buf off; Some (p\<lparr>msg_type := uint v\<rparr>) } else Some p)
      else if code = DHCP_OPT_SERVER_ID then (if 4 \<le> olen then do { v \<leftarrow> get_be32 buf off; Some (p\<lparr>got_server := v\<rparr>) } else Some p)
      else if code = DHCP_OPT_LEASE_TIME then (if 4 \<le> olen then do { v \<leftarrow> get_be32 buf off; Some (p\<lparr>got_lease := v\<rparr>) } else Some p)
      else Some p)"

function parse_options :: "byte list \<Rightarrow> nat \<Rightarrow> parsed \<Rightarrow> parsed option" where
  "parse_options buf off p =
     (if off < length buf
      then case rd8 buf off of
          None \<Rightarrow> None
        | Some code \<Rightarrow>
            if code = DHCP_OPT_END then Some p
            else if code = DHCP_OPT_PAD then parse_options buf (off + 1) p
            else if length buf \<le> off + 1 then Some p
            else (case rd8 buf (off + 1) of
                None \<Rightarrow> None
              | Some olen \<Rightarrow>
                  if off + 2 + unat olen > length buf then Some p
                  else (case take_option buf (off + 2) code (unat olen) p of
                      None \<Rightarrow> None
                    | Some p \<Rightarrow> parse_options buf (off + 2 + unat olen) p))
      else Some p)"
  by pat_completeness auto
termination
  by (relation "measure (\<lambda>(buf, off, p). length buf - off)") auto

declare parse_options.simps [simp del]

definition parse_reply :: "byte list \<Rightarrow> u32 \<Rightarrow> byte \<Rightarrow> (u32 \<times> u32 \<times> u32) option option" where
  "parse_reply buf xid want_msg_type =
     (if length buf < DHCP_OPTIONS_OFFSET then Some None
      else do {
        op \<leftarrow> rd8 buf 0;
        x \<leftarrow> get_be32 buf 4;
        cookie \<leftarrow> get_be32 buf 236;
        if op \<noteq> 2 then Some None
        else if x \<noteq> xid then Some None
        else if cookie \<noteq> DHCP_MAGIC_COOKIE then Some None
        else do {
          yiaddr \<leftarrow> get_be32 buf 16;
          p \<leftarrow> parse_options buf DHCP_OPTIONS_OFFSET \<lparr>msg_type = -1, got_server = 0, got_lease = 0\<rparr>;
          Some (if msg_type p \<noteq> uint want_msg_type then None else Some (yiaddr, got_server p, got_lease p)) } })"

definition dhcp_parse_offer :: "byte list \<Rightarrow> u32 \<Rightarrow> (u32 \<times> u32 \<times> u32) option option" where
  "dhcp_parse_offer buf xid = parse_reply buf xid DHCP_MSG_OFFER"

definition dhcp_parse_ack :: "byte list \<Rightarrow> u32 \<Rightarrow> (u32 \<times> u32) option option" where
  "dhcp_parse_ack buf xid = map_option (map_option (\<lambda>(ip, server, lease). (ip, lease))) (parse_reply buf xid DHCP_MSG_ACK)"

subsection \<open>What parsing does\<close>

lemma take_option_total: "off + olen \<le> length buf \<Longrightarrow> \<exists>p'. take_option buf off code olen p = Some p'"
  using get_be32_Some [of buf off] by (auto simp: take_option_def rd8_def)

lemma parse_options_total: "\<exists>p'. parse_options buf off p = Some p'"
proof (induction buf off p rule: parse_options.induct)
  case (1 buf off p)
  show ?case
  proof (cases "off < length buf")
    case True
    then have c: "rd8 buf off = Some (buf ! off)" by (simp add: rd8_def)
    show ?thesis
    proof (cases "buf ! off = DHCP_OPT_END \<or> buf ! off = DHCP_OPT_PAD \<or> length buf \<le> off + 1")
      case True
      then show ?thesis using 1(1) [OF \<open>off < length buf\<close> c] c \<open>off < length buf\<close>
        by (subst parse_options.simps) auto
    next
      case False
      then have o: "rd8 buf (off + 1) = Some (buf ! (off + 1))" by (simp add: rd8_def)
      show ?thesis
      proof (cases "off + 2 + unat (buf ! (off + 1)) > length buf")
        case False
        then obtain p' where "take_option buf (off + 2) (buf ! off) (unat (buf ! (off + 1))) p = Some p'"
          using take_option_total [of "off + 2" "unat (buf ! (off + 1))" buf "buf ! off" p] by auto
        with 1(2) [OF \<open>off < length buf\<close> c _ _ _ o False this] False o c \<open>off < length buf\<close>
          \<open>\<not> (buf ! off = DHCP_OPT_END \<or> buf ! off = DHCP_OPT_PAD \<or> length buf \<le> off + 1)\<close>
        show ?thesis by (subst parse_options.simps) auto
      qed (use False o c \<open>off < length buf\<close> in \<open>subst parse_options.simps, auto\<close>)
    qed
  qed (subst parse_options.simps, simp)
qed

lemma parse_reply_total: "\<exists>r. parse_reply buf xid want = Some r"
proof (cases "length buf < DHCP_OPTIONS_OFFSET")
  case False
  then have "get_be32 buf 4 \<noteq> None" "get_be32 buf 236 \<noteq> None" "get_be32 buf 16 \<noteq> None"
    unfolding get_be32_Some by (simp_all add: DHCP_OPTIONS_OFFSET_def)
  moreover have "rd8 buf 0 = Some (buf ! 0)" using False by (auto simp: rd8_def DHCP_OPTIONS_OFFSET_def)
  ultimately show ?thesis
    using parse_options_total [of buf DHCP_OPTIONS_OFFSET "\<lparr>msg_type = -1, got_server = 0, got_lease = 0\<rparr>"]
    by (auto simp: parse_reply_def)
qed (simp add: parse_reply_def)

lemma parse_offer_total: "\<exists>r. dhcp_parse_offer buf xid = Some r"
  using parse_reply_total [of buf xid DHCP_MSG_OFFER] by (simp add: dhcp_parse_offer_def)

lemma parse_ack_total: "\<exists>r. dhcp_parse_ack buf xid = Some r"
  using parse_reply_total [of buf xid DHCP_MSG_ACK] by (auto simp: dhcp_parse_ack_def)

text \<open>The options as their sender means them, with any padding between them.\<close>

datatype item = Pad | Opt byte "byte list"

fun item_bytes :: "item \<Rightarrow> byte list" where
  "item_bytes Pad = [DHCP_OPT_PAD]"
| "item_bytes (Opt code data) = code # of_nat (length data) # data"

fun item_ok :: "item \<Rightarrow> bool" where
  "item_ok Pad = True"
| "item_ok (Opt code data) = (code \<noteq> DHCP_OPT_PAD \<and> code \<noteq> DHCP_OPT_END \<and> length data < 256)"

text \<open>A later option of the same code replaces an earlier one; one too short for its value is ignored.\<close>

fun meaning :: "item list \<Rightarrow> parsed \<Rightarrow> parsed" where
  "meaning [] p = p"
| "meaning (Pad # is) p = meaning is p"
| "meaning (Opt code data # is) p =
     meaning is
       (if code = DHCP_OPT_MSG_TYPE \<and> data \<noteq> [] then p\<lparr>msg_type := uint (hd data)\<rparr>
        else if code = DHCP_OPT_SERVER_ID \<and> 4 \<le> length data then p\<lparr>got_server := the (get_be32 data 0)\<rparr>
        else if code = DHCP_OPT_LEASE_TIME \<and> 4 \<le> length data then p\<lparr>got_lease := the (get_be32 data 0)\<rparr>
        else p)"

lemma get_be32_shift: "get_be32 (xs @ ys) (length xs + p) = get_be32 ys p"
  by (simp add: get_be32_def rd8_def nth_append add.assoc)

lemma get_be32_prefix: "p + 4 \<le> length xs \<Longrightarrow> get_be32 (xs @ ys) p = get_be32 xs p"
  by (simp add: get_be32_def rd8_def nth_append)

lemma take_option_meaning:
  "take_option (xs @ code # n # data @ ys) (length xs + 2) code (length data) p = Some (meaning [Opt code data] p)"
proof -
  let ?buf = "xs @ code # n # data @ ys"
  have w: "\<exists>v. get_be32 data 0 = Some v \<and> get_be32 ?buf (length xs + 2) = Some v" if "4 \<le> length data"
    using get_be32_shift [of "xs @ [code, n]" "data @ ys" 0] get_be32_prefix [of 0 data ys] get_be32_Some [of data 0] that
    by auto
  have "data \<noteq> [] \<Longrightarrow> rd8 ?buf (length xs + 2) = Some (hd data)"
    by (cases data) (simp_all add: rd8_def nth_append)
  then show ?thesis
    using w by (cases "4 \<le> length data"; cases data) (auto simp: take_option_def DHCP_OPT_MSG_TYPE_def DHCP_OPT_SERVER_ID_def DHCP_OPT_LEASE_TIME_def)
qed

lemma meaning_Cons: "meaning (i # is) p = meaning is (meaning [i] p)"
  by (cases i) simp_all

lemma parse_items:
  assumes "list_all item_ok is" "buf = xs @ concat (map item_bytes is) @ tail" "off = length xs"
    and "tail = [] \<or> hd tail = DHCP_OPT_END"
  shows "parse_options buf off p = Some (meaning is p)"
  using assms
proof (induction "is" arbitrary: xs off p)
  case Nil
  then show ?case by (cases tail) (auto simp: parse_options.simps rd8_def)
next
  case (Cons i "is")
  show ?case
  proof (cases i)
    case Pad
    then have "parse_options buf (off + 1) p = Some (meaning is p)"
      using Cons.prems by (intro Cons.IH [of "xs @ [DHCP_OPT_PAD]"]) simp_all
    then show ?thesis
      using Cons.prems Pad by (subst parse_options.simps) (simp add: rd8_def DHCP_OPT_PAD_def DHCP_OPT_END_def)
  next
    case (Opt code data)
    let ?rest = "concat (map item_bytes is) @ tail"
    have buf: "buf = xs @ code # of_nat (length data) # data @ ?rest" using Cons.prems(2) Opt by simp
    have c: "code \<noteq> DHCP_OPT_PAD" "code \<noteq> DHCP_OPT_END" "unat (of_nat (length data) :: byte) = length data"
      using Cons.prems(1) Opt by (simp_all add: unat_of_nat)
    have "parse_options buf (off + 2 + length data) (meaning [i] p) = Some (meaning (i # is) p)"
      unfolding meaning_Cons [of i "is" p] using Cons.prems Opt by (intro Cons.IH [of "xs @ item_bytes i"]) simp_all
    moreover have "take_option buf (off + 2) code (length data) p = Some (meaning [i] p)"
      using take_option_meaning [of xs code "of_nat (length data)" data ?rest p] Cons.prems(3) Opt buf by simp
    ultimately show ?thesis
      using c Cons.prems(3)
      by (subst parse_options.simps) (simp add: buf rd8_def nth_append)
  qed
qed

text \<open>The fixed part of a message with an operation, a transaction and an address.\<close>

definition fixed_part :: "byte \<Rightarrow> u32 \<Rightarrow> u32 \<Rightarrow> byte list \<Rightarrow> bool" where
  "fixed_part op xid yiaddr hdr \<longleftrightarrow> length hdr = DHCP_OPTIONS_OFFSET \<and> hdr ! 0 = op \<and> get_be32 hdr 4 = Some xid \<and>
     get_be32 hdr 16 = Some yiaddr \<and> get_be32 hdr 236 = Some DHCP_MAGIC_COOKIE"

abbreviation no_options :: parsed where
  "no_options \<equiv> \<lparr>msg_type = -1, got_server = 0, got_lease = 0\<rparr>"

lemma parse_reply_meaning:
  assumes "fixed_part op x yiaddr hdr" "list_all item_ok is" "tail = [] \<or> hd tail = DHCP_OPT_END"
  shows "parse_reply (hdr @ concat (map item_bytes is) @ tail) xid want =
    Some (let p = meaning is no_options in
      if op = 2 \<and> x = xid \<and> msg_type p = uint want then Some (yiaddr, got_server p, got_lease p) else None)"
proof -
  let ?buf = "hdr @ concat (map item_bytes is) @ tail"
  have len: "length hdr = 240" using assms(1) by (simp add: fixed_part_def DHCP_OPTIONS_OFFSET_def)
  then have "get_be32 ?buf 4 = Some x" "get_be32 ?buf 236 = Some DHCP_MAGIC_COOKIE" "get_be32 ?buf 16 = Some yiaddr"
    using assms(1) by (simp_all add: get_be32_prefix fixed_part_def)
  moreover have "rd8 ?buf 0 = Some op" using assms(1) len by (auto simp: rd8_def nth_append fixed_part_def)
  moreover have "parse_options ?buf DHCP_OPTIONS_OFFSET no_options = Some (meaning is no_options)"
    using parse_items [OF assms(2) refl refl assms(3), of hdr no_options] len by (simp add: DHCP_OPTIONS_OFFSET_def)
  ultimately show ?thesis using len by (simp add: parse_reply_def Let_def DHCP_OPTIONS_OFFSET_def)
qed

text \<open>
  C13. The parser is safe and right. Whatever bytes arrive, it reads inside them only and ends. On a
  message of a fixed part, any well-formed options with padding between them, and after them nothing
  or an end mark and anything, it accepts exactly when the operation is a reply, the transaction is
  the one asked for and the last message type is the one wanted, and then returns the offered address
  and the last server identifier and lease time, each 0 when there is none.
\<close>

theorem parse_reply_correct:
  assumes "fixed_part op x yiaddr hdr" "list_all item_ok is" "tail = [] \<or> hd tail = DHCP_OPT_END"
  shows "parse_reply buf y w \<noteq> None \<and>
    parse_reply (hdr @ concat (map item_bytes is) @ tail) xid want =
      Some (let p = meaning is no_options in
        if op = 2 \<and> x = xid \<and> msg_type p = uint want then Some (yiaddr, got_server p, got_lease p) else None)"
  using parse_reply_total [of buf y w] parse_reply_meaning [OF assms] by auto

subsection \<open>What building does\<close>

definition request_fixed :: "byte list \<Rightarrow> u32 \<Rightarrow> byte list" where
  "request_fixed chaddr xid =
     [1, 1, 6, 0] @ be32 xid @ be16 0 @ be16 0x8000 @ replicate 16 0 @ chaddr @ replicate 202 0 @ be32 DHCP_MAGIC_COOKIE"

lemma length_request_fixed [simp]: "length chaddr = 6 \<Longrightarrow> length (request_fixed chaddr xid) = 240"
  by (simp add: request_fixed_def)

lemma put_option_app:
  assumes "off = length A" "off + 2 + length data \<le> length (A @ R)"
  shows "put_option (A @ R) off code data =
    Some (A @ item_bytes (Opt code data) @ drop (2 + length data) R, off + 2 + length data)"
proof -
  obtain x y R' where "R = x # y # R'" using assms by (cases R; cases "tl R") auto
  then show ?thesis using assms by (simp add: put_option_def wr8_def wr_bytes_eq nth_append list_update_append)
qed

lemma wr8_eq: "p < length buf \<Longrightarrow> wr8 buf p v = Some (take p buf @ v # drop (Suc p) buf)"
  by (simp add: wr8_def upd_conv_take_nth_drop)

lemma build_header_eq:
  assumes "240 \<le> length buf" "length chaddr = 6"
  shows "build_header buf chaddr xid = Some (request_fixed chaddr xid @ drop 240 buf, 240)"
proof -
  let ?D = "drop 240 buf"
  have "wr_bytes buf 0 (replicate 240 0) = Some (replicate 240 0 @ ?D)" using assms(1) by (simp add: wr_bytes_eq)
  moreover have "wr8 (replicate 240 0 @ ?D) 0 1 = Some (1 # replicate 239 0 @ ?D)"
    by (subst wr8_eq) simp_all
  moreover have "wr8 (1 # replicate 239 0 @ ?D) 1 1 = Some (1 # 1 # replicate 238 0 @ ?D)"
    by (subst wr8_eq) simp_all
  moreover have "wr8 (1 # 1 # replicate 238 0 @ ?D) 2 6 = Some (1 # 1 # 6 # replicate 237 0 @ ?D)"
    by (subst wr8_eq) simp_all
  moreover have "wr8 (1 # 1 # 6 # replicate 237 0 @ ?D) 3 0 = Some (1 # 1 # 6 # 0 # replicate 236 0 @ ?D)"
    by (subst wr8_eq) simp_all
  moreover have "put_be32 (1 # 1 # 6 # 0 # replicate 236 0 @ ?D) 4 xid = Some ([1, 1, 6, 0] @ be32 xid @ replicate 232 0 @ ?D)"
    by (subst put_be32_eq) simp_all
  moreover have "put_be16 ([1, 1, 6, 0] @ be32 xid @ replicate 232 0 @ ?D) 8 0 = Some ([1, 1, 6, 0] @ be32 xid @ be16 0 @ replicate 230 0 @ ?D)"
    unfolding put_be16_def by (subst wr_bytes_eq) simp_all
  moreover have "put_be16 ([1, 1, 6, 0] @ be32 xid @ be16 0 @ replicate 230 0 @ ?D) 10 0x8000 =
      Some ([1, 1, 6, 0] @ be32 xid @ be16 0 @ be16 0x8000 @ replicate 228 0 @ ?D)"
    unfolding put_be16_def by (subst wr_bytes_eq) simp_all
  moreover have "wr_bytes ([1, 1, 6, 0] @ be32 xid @ be16 0 @ be16 0x8000 @ replicate 228 0 @ ?D) 28 (take 6 chaddr) =
      Some ([1, 1, 6, 0] @ be32 xid @ be16 0 @ be16 0x8000 @ replicate 16 0 @ chaddr @ replicate 206 0 @ ?D)"
    using assms(2) by (subst wr_bytes_eq) simp_all
  moreover have "put_be32 ([1, 1, 6, 0] @ be32 xid @ be16 0 @ be16 0x8000 @ replicate 16 0 @ chaddr @ replicate 206 0 @ ?D) 236
      DHCP_MAGIC_COOKIE = Some (request_fixed chaddr xid @ ?D)"
    using assms(2) by (subst put_be32_eq) (simp add: request_fixed_def)
  ultimately show ?thesis by (simp add: build_header_def DHCP_OPTIONS_OFFSET_def)
qed

text \<open>Several options one after the other.\<close>

fun put_items :: "byte list \<Rightarrow> nat \<Rightarrow> (byte \<times> byte list) list \<Rightarrow> (byte list \<times> nat) option" where
  "put_items buf off [] = Some (buf, off)"
| "put_items buf off ((code, data) # os) = do { (buf, off) \<leftarrow> put_option buf off code data; put_items buf off os }"

definition opts_bytes :: "(byte \<times> byte list) list \<Rightarrow> byte list" where
  "opts_bytes os = concat (map (\<lambda>(code, data). item_bytes (Opt code data)) os)"

lemma put_items_app:
  assumes "off = length A" "off + length (opts_bytes os) \<le> length (A @ R)"
  shows "put_items (A @ R) off os = Some (A @ opts_bytes os @ drop (length (opts_bytes os)) R, off + length (opts_bytes os))"
  using assms
proof (induction os arbitrary: A R off)
  case (Cons o' os)
  obtain code data where o: "o' = (code, data)" by (rule prod.exhaust)
  let ?A = "A @ item_bytes (Opt code data)" and ?R = "drop (2 + length data) R"
  have "put_option (A @ R) off code data = Some (?A @ ?R, off + 2 + length data)"
    using put_option_app [of off A data R code] Cons.prems by (simp add: opts_bytes_def o)
  moreover have "put_items (?A @ ?R) (off + 2 + length data) os =
      Some (?A @ opts_bytes os @ drop (length (opts_bytes os)) ?R, off + 2 + length data + length (opts_bytes os))"
    using Cons.prems by (intro Cons.IH) (auto simp: opts_bytes_def o)
  ultimately show ?case by (simp add: o opts_bytes_def ac_simps)
qed (simp add: opts_bytes_def)

definition common_options :: "byte list \<Rightarrow> byte \<Rightarrow> (byte \<times> byte list) list" where
  "common_options chaddr ty =
     [(DHCP_OPT_MSG_TYPE, [ty]), (DHCP_OPT_PARAM_REQ_LIST, [1, 3, 6]), (DHCP_OPT_HOSTNAME, DHCP_HOSTNAME),
      (DHCP_OPT_CLIENT_ID, 1 # chaddr)]"

lemma finish_app:
  assumes "off = length A" "off < 300" "300 \<le> length (A @ R)"
  shows "finish_options (A @ R) off = Some (A @ DHCP_OPT_END # replicate (299 - off) 0 @ drop (300 - off) R, 300)"
proof -
  have n: "300 - length A = Suc (299 - length A)" using assms by simp
  obtain x R' where "R = x # R'" using assms by (cases R) auto
  then have "wr8 (A @ R) off DHCP_OPT_END = Some ((A @ [DHCP_OPT_END]) @ R')" using assms by (simp add: wr8_def)
  moreover have "wr_bytes ((A @ [DHCP_OPT_END]) @ R') (off + 1) (replicate (299 - off) 0) =
      Some ((A @ [DHCP_OPT_END]) @ replicate (299 - off) 0 @ drop (299 - off) R')"
    using assms \<open>R = x # R'\<close> by (simp add: wr_bytes_eq n)
  ultimately show ?thesis
    using assms \<open>R = x # R'\<close> by (simp add: finish_options_def DHCP_MIN_PACKET_LEN_def DHCP_OPT_PAD_def n)
qed

text \<open>A finished message of a list of options.\<close>

definition message :: "byte list \<Rightarrow> u32 \<Rightarrow> (byte \<times> byte list) list \<Rightarrow> byte list" where
  "message chaddr xid os =
     request_fixed chaddr xid @ opts_bytes os @ DHCP_OPT_END # replicate (59 - length (opts_bytes os)) 0"

lemma build_message:
  assumes "300 \<le> length buf" "length chaddr = 6" "length (opts_bytes os) < 60"
  shows "do { (buf, off) \<leftarrow> build_header buf chaddr xid; (buf, off) \<leftarrow> put_items buf off os; finish_options buf off } =
    Some (message chaddr xid os @ drop 300 buf, 300)"
proof -
  let ?F = "request_fixed chaddr xid" and ?n = "length (opts_bytes os)"
  have "put_items (?F @ drop 240 buf) 240 os = Some ((?F @ opts_bytes os) @ drop ?n (drop 240 buf), 240 + ?n)"
    using put_items_app [of 240 ?F os "drop 240 buf"] assms by simp
  moreover have "finish_options ((?F @ opts_bytes os) @ drop ?n (drop 240 buf)) (240 + ?n) =
      Some ((?F @ opts_bytes os) @ DHCP_OPT_END # replicate (299 - (240 + ?n)) 0 @ drop (300 - (240 + ?n)) (drop ?n (drop 240 buf)), 300)"
    using assms by (intro finish_app) simp_all
  ultimately show ?thesis
    using assms build_header_eq [of buf chaddr xid] by (simp add: message_def)
qed

definition request_options :: "byte list \<Rightarrow> u32 \<Rightarrow> u32 \<Rightarrow> (byte \<times> byte list) list" where
  "request_options chaddr ip server =
     common_options chaddr DHCP_MSG_REQUEST @ [(DHCP_OPT_REQUESTED_IP, be32 ip), (DHCP_OPT_SERVER_ID, be32 server)]"

lemma build_common_items: "length chaddr = 6 \<Longrightarrow> build_common_options buf off chaddr ty = put_items buf off (common_options chaddr ty)"
  by (simp add: build_common_options_def common_options_def)

lemma build_request_items:
  assumes "length chaddr = 6"
  shows "dhcp_build_request buf chaddr xid ip server =
    do { (buf, off) \<leftarrow> build_header buf chaddr xid; (buf, off) \<leftarrow> put_items buf off (request_options chaddr ip server); finish_options buf off }"
  using assms by (simp add: dhcp_build_request_def build_common_options_def request_options_def common_options_def case_prod_unfold)

lemma opts_length:
  "length chaddr = 6 \<Longrightarrow> length (opts_bytes (common_options chaddr ty)) = 24"
  "length chaddr = 6 \<Longrightarrow> length (opts_bytes (request_options chaddr ip server)) = 36"
  by (simp_all add: opts_bytes_def common_options_def request_options_def DHCP_HOSTNAME_def)

lemma build_discover_eq:
  assumes "300 \<le> length buf" "length chaddr = 6"
  shows "dhcp_build_discover buf chaddr xid = Some (message chaddr xid (common_options chaddr DHCP_MSG_DISCOVER) @ drop 300 buf, 300)"
  using build_message [OF assms, of "common_options chaddr DHCP_MSG_DISCOVER" xid] opts_length(1) assms(2)
  by (simp add: dhcp_build_discover_def build_common_items)

lemma build_request_eq:
  assumes "300 \<le> length buf" "length chaddr = 6"
  shows "dhcp_build_request buf chaddr xid ip server = Some (message chaddr xid (request_options chaddr ip server) @ drop 300 buf, 300)"
  using build_message [OF assms, of "request_options chaddr ip server" xid] opts_length(2) assms(2)
  by (simp add: build_request_items)

lemma message_parses:
  assumes "length chaddr = 6" "list_all item_ok (map (\<lambda>(c, d). Opt c d) os)"
  shows "parse_reply ((message chaddr xid os)[0 := 2]) xid want =
    Some (let p = meaning (map (\<lambda>(c, d). Opt c d) os) no_options in
      if msg_type p = uint want then Some (0, got_server p, got_lease p) else None)"
proof -
  let ?hdr = "(request_fixed chaddr xid)[0 := 2]"
  have h: "?hdr = [2, 1, 6, 0] @ be32 xid @ drop 8 (request_fixed chaddr xid)"
      "?hdr = ([2] @ take 235 (tl (request_fixed chaddr xid))) @ be32 DHCP_MAGIC_COOKIE @ []"
    using assms(1) by (simp_all add: request_fixed_def be32_def be16_def)
  have "get_be32 ?hdr 4 = Some xid" unfolding h(1) by (rule get_be32_app) simp
  moreover have "get_be32 ?hdr 236 = Some DHCP_MAGIC_COOKIE"
    unfolding h(2) by (rule get_be32_app) (simp add: assms(1))
  moreover have "get_be32 ?hdr 16 = Some 0"
    using assms(1) by (simp add: request_fixed_def get_be32_def rd8_def be32_def be16_def nth_append)
  ultimately have "fixed_part 2 xid 0 ?hdr" using assms(1) by (simp add: fixed_part_def DHCP_OPTIONS_OFFSET_def)
  from parse_reply_meaning [OF this assms(2), of "DHCP_OPT_END # replicate (59 - length (opts_bytes os)) 0" xid want]
  show ?thesis
    using assms(1) by (simp add: message_def list_update_append opts_bytes_def comp_def case_prod_unfold)
qed

lemma options_meaning:
  "meaning (map (\<lambda>(c, d). Opt c d) (common_options chaddr ty)) p = p\<lparr>msg_type := uint ty\<rparr>"
  "meaning (map (\<lambda>(c, d). Opt c d) (request_options chaddr ip server)) p =
    p\<lparr>msg_type := uint DHCP_MSG_REQUEST, got_server := server\<rparr>"
  using get_be32_app [of 0 "[]" server "[]"]
  by (simp_all add: common_options_def request_options_def DHCP_OPT_MSG_TYPE_def DHCP_OPT_PARAM_REQ_LIST_def
      DHCP_OPT_HOSTNAME_def DHCP_OPT_CLIENT_ID_def DHCP_OPT_REQUESTED_IP_def DHCP_OPT_SERVER_ID_def DHCP_OPT_LEASE_TIME_def)

lemma options_ok:
  "length chaddr = 6 \<Longrightarrow> list_all item_ok (map (\<lambda>(c, d). Opt c d) (common_options chaddr ty))"
  "length chaddr = 6 \<Longrightarrow> list_all item_ok (map (\<lambda>(c, d). Opt c d) (request_options chaddr ip server))"
  by (simp_all add: common_options_def request_options_def DHCP_OPT_MSG_TYPE_def DHCP_OPT_PARAM_REQ_LIST_def
      DHCP_OPT_HOSTNAME_def DHCP_OPT_CLIENT_ID_def DHCP_OPT_REQUESTED_IP_def DHCP_OPT_SERVER_ID_def
      DHCP_OPT_PAD_def DHCP_OPT_END_def DHCP_HOSTNAME_def)

text \<open>
  C37. The messages built are the messages meant. In a buffer of at least 300 bytes, both builders write
  exactly 300 bytes, whatever the buffer held: the fixed part with the transaction and the hardware
  address, the options in order, the end mark and padding. The bytes behind them are untouched. Sent
  back as replies, the two messages parse: the discovery with no server, the request with the server
  it names.
\<close>

theorem dhcp_build_correct:
  assumes "300 \<le> length buf" "length chaddr = 6"
  shows "let disc = message chaddr xid (common_options chaddr DHCP_MSG_DISCOVER);
      req = message chaddr xid (request_options chaddr ip server)
    in dhcp_build_discover buf chaddr xid = Some (disc @ drop 300 buf, 300) \<and>
       dhcp_build_request buf chaddr xid ip server = Some (req @ drop 300 buf, 300) \<and>
       length disc = 300 \<and> length req = 300 \<and>
       parse_reply (disc[0 := 2]) xid DHCP_MSG_DISCOVER = Some (Some (0, 0, 0)) \<and>
       parse_reply (req[0 := 2]) xid DHCP_MSG_REQUEST = Some (Some (0, server, 0))"
  using message_parses [OF assms(2) options_ok(1) [OF assms(2)], of xid DHCP_MSG_DISCOVER DHCP_MSG_DISCOVER]
    message_parses [OF assms(2) options_ok(2) [OF assms(2)], of xid ip server DHCP_MSG_REQUEST]
    build_discover_eq [OF assms] build_request_eq [OF assms] opts_length [OF assms(2)] assms(2)
  by (simp add: Let_def options_meaning message_def)

definition demo_chaddr :: "byte list" where
  "demo_chaddr = [0x10, 0xe2, 0xd5, 0, 0, 1]"

theorem dhcp_build_correct_witness:
  "\<exists>m. dhcp_build_request (replicate 2006 7) demo_chaddr 0x8008a5a5 0xC0A80132 0xC0A80101 = Some (m @ drop 300 (replicate 2006 7), 300) \<and>
    parse_reply (m[0 := 2]) 0x8008a5a5 DHCP_MSG_REQUEST = Some (Some (0, 0xC0A80101, 0))"
  using dhcp_build_correct [of "replicate 2006 7" demo_chaddr "0x8008a5a5" "0xC0A80132" "0xC0A80101"]
  unfolding Let_def by (auto simp: demo_chaddr_def)

text \<open>An offer with padding, two server identifiers, a lease and an option too short for its value.\<close>

definition demo_offer :: "item list" where
  "demo_offer = [Opt DHCP_OPT_MSG_TYPE [2], Pad, Opt DHCP_OPT_SERVER_ID (be32 1), Opt DHCP_OPT_LEASE_TIME (be32 3600),
     Opt DHCP_OPT_SERVER_ID (be32 0xC0A80101), Opt DHCP_OPT_LEASE_TIME [1]]"

definition demo_fixed :: "u32 \<Rightarrow> byte list" where
  "demo_fixed xid = [2, 1, 6, 0] @ be32 xid @ replicate 8 0 @ be32 0xC0A80132 @ replicate 216 0 @ be32 DHCP_MAGIC_COOKIE"

lemma demo_fixed_part: "fixed_part 2 xid 0xC0A80132 (demo_fixed xid)"
proof -
  have "get_be32 (demo_fixed xid) 4 = Some xid" unfolding demo_fixed_def by (rule get_be32_app) simp
  then show ?thesis
    by (simp add: fixed_part_def demo_fixed_def DHCP_OPTIONS_OFFSET_def DHCP_MAGIC_COOKIE_def get_be32_def rd8_def be32_def nth_append)
qed

theorem parse_reply_correct_witness:
  "parse_reply [] 0 0 \<noteq> None \<and>
   parse_reply (demo_fixed 7 @ concat (map item_bytes demo_offer) @ [DHCP_OPT_END, 53, 1, 5]) 7 DHCP_MSG_OFFER =
     Some (Some (0xC0A80132, 0xC0A80101, 3600))"
proof -
  note demo_fixed_part [of 7]
  moreover have "list_all item_ok demo_offer"
    by (simp add: demo_offer_def DHCP_OPT_MSG_TYPE_def DHCP_OPT_SERVER_ID_def DHCP_OPT_LEASE_TIME_def DHCP_OPT_PAD_def DHCP_OPT_END_def)
  moreover have "meaning demo_offer no_options = \<lparr>msg_type = 2, got_server = 0xC0A80101, got_lease = 3600\<rparr>"
    using get_be32_app [of 0 "[]" _ "[]"]
    by (simp add: demo_offer_def DHCP_OPT_MSG_TYPE_def DHCP_OPT_SERVER_ID_def DHCP_OPT_LEASE_TIME_def)
  ultimately show ?thesis
    using parse_reply_correct [of 2 7 "0xC0A80132" "demo_fixed 7" demo_offer "[DHCP_OPT_END, 53, 1, 5]" "[]" 0 0 7 DHCP_MSG_OFFER]
    by (simp add: DHCP_MSG_OFFER_def Let_def)
qed

end
