(* ===== verification/Firmware.thy ===== *)
theory Firmware
  imports Eb_Serve Dhcp
begin

text \<open>
  The firmware's policy, \<^verbatim>\<open>src/firmware/main.c\<close>: the transaction numbers, the receive callbacks and their
  dispatch, the wait for a DHCP reply, the lease, and the loop that serves Etherbone.

  What the MAC delivers is given poll by poll: at each poll of the receive slot there is nothing, or a
  frame, which is the slot and the length the MAC reports. When the list of polls ends, nothing comes
  any more. The statistics, console output and the PHY are not represented.
\<close>

type_synonym poll = "(byte list \<times> nat) option"

record 'b firmware = "'b fw" +
  xid_state :: u32
  rx_got :: bool
  rx_msgbuf :: "byte list"
  rx_msglen :: nat
  eb_ip :: u32

definition DHCP_MAX_TRIES :: nat where "DHCP_MAX_TRIES = 5"
definition DHCP_REPLY_TIMEOUT_LOOPS :: nat where "DHCP_REPLY_TIMEOUT_LOOPS = 200000"
definition chaddr_etherbone :: "byte list" where "chaddr_etherbone = [0x10, 0xe2, 0xd5, 0, 0, 1]"

definition next_xid :: "u32 \<Rightarrow> u32" where
  "next_xid x = x * 1103515245 + 12345"

definition dhcp_rx_callback :: "u32 \<Rightarrow> u16 \<Rightarrow> u16 \<Rightarrow> byte list \<Rightarrow> 'b firmware \<Rightarrow> 'b firmware" where
  "dhcp_rx_callback src_ip src_port dst_port data s =
     (if dst_port \<noteq> 68 \<or> src_port \<noteq> 67 then s
      else (let data = take (DHCP_MIN_PACKET_LEN + 64) data in
        s\<lparr>rx_msgbuf := data @ drop (length data) (rx_msgbuf s), rx_msglen := length data, rx_got := True\<rparr>))"

definition run_callback :: "callback \<Rightarrow> u32 \<Rightarrow> u16 \<Rightarrow> u16 \<Rightarrow> byte list \<Rightarrow> 'b firmware \<Rightarrow> 'b firmware" where
  "run_callback cb src_ip src_port dst_port data s =
     (case cb of
        Dhcp_rx \<Rightarrow> dhcp_rx_callback src_ip src_port dst_port data s
      | Eb_rx \<Rightarrow> eb_rx_callback src_ip src_port dst_port data s)"

definition udp_service :: "poll \<Rightarrow> 'b firmware \<Rightarrow> 'b firmware option" where
  "udp_service poll s =
     (case poll of
        None \<Rightarrow> Some s
      | Some (rx, rxlen) \<Rightarrow> do {
          (call, s) \<leftarrow> process_frame rx rxlen s;
          Some (case call of
                  None \<Rightarrow> s
                | Some (cb, src_ip, src_port, dst_port, data) \<Rightarrow> run_callback cb src_ip src_port dst_port data s) })"

subsection \<open>The lease\<close>

primrec wait_loop :: "nat \<Rightarrow> poll list \<Rightarrow> 'b firmware \<Rightarrow> (bool \<times> poll list \<times> 'b firmware) option" where
  "wait_loop 0 ps s = Some (False, ps, s)"
| "wait_loop (Suc n) ps s = do {
     s \<leftarrow> udp_service (case ps of [] \<Rightarrow> None | p # _ \<Rightarrow> p) s;
     if rx_got s then Some (True, tl ps, s) else wait_loop n (tl ps) s }"

definition wait_for_reply :: "poll list \<Rightarrow> 'b firmware \<Rightarrow> (bool \<times> poll list \<times> 'b firmware) option" where
  "wait_for_reply ps s = wait_loop DHCP_REPLY_TIMEOUT_LOOPS ps (s\<lparr>rx_got := False\<rparr>)"

text \<open>A message built in the transmit buffer and sent to the server port.\<close>

definition build_and_send :: "(byte list \<Rightarrow> (byte list \<times> nat) option) \<Rightarrow> 'b firmware \<Rightarrow> (bool \<times> 'b firmware) option" where
  "build_and_send build s = do {
     let s = udp_set_ip 0 s;
     (buf, len) \<leftarrow> build (udp_get_tx_buffer s);
     s \<leftarrow> fill_tx_buffer buf s;
     udp_send 68 67 len s }"

primrec dhcp_tries :: "nat \<Rightarrow> poll list \<Rightarrow> 'b firmware \<Rightarrow> ((u32 \<times> u32) option \<times> poll list \<times> 'b firmware) option" where
  "dhcp_tries 0 ps s = Some (None, ps, s\<lparr>rx_callback := None\<rparr>)"
| "dhcp_tries (Suc n) ps s = do {
     let xid = next_xid (xid_state s);
     (sent, s) \<leftarrow> build_and_send (\<lambda>buf. dhcp_build_discover buf chaddr_etherbone xid) (s\<lparr>xid_state := xid\<rparr>);
     if \<not> sent then dhcp_tries n ps s
     else do {
       (got, ps, s) \<leftarrow> wait_for_reply ps (udp_set_ip 0xFFFFFFFF s);
       if \<not> got then dhcp_tries n ps s
       else do {
         offer \<leftarrow> dhcp_parse_offer (take (rx_msglen s) (rx_msgbuf s)) xid;
         case offer of
           None \<Rightarrow> dhcp_tries n ps s
         | Some (offered_ip, offered_server, offered_lease) \<Rightarrow> do {
             (sent, s) \<leftarrow> build_and_send (\<lambda>buf. dhcp_build_request buf chaddr_etherbone xid offered_ip offered_server) s;
             if \<not> sent then dhcp_tries n ps s
             else do {
               (got, ps, s) \<leftarrow> wait_for_reply ps (udp_set_ip 0xFFFFFFFF s);
               if \<not> got then dhcp_tries n ps s
               else do {
                 ack \<leftarrow> dhcp_parse_ack (take (rx_msglen s) (rx_msgbuf s)) xid;
                 case ack of
                   None \<Rightarrow> dhcp_tries n ps s
                 | Some (acked_ip, acked_lease) \<Rightarrow>
                     if acked_ip \<noteq> offered_ip then dhcp_tries n ps s
                     else Some (Some (acked_ip, if acked_lease \<noteq> 0 then acked_lease else 3600), ps,
                                s\<lparr>rx_callback := None\<rparr>) } } } } } }"

definition dhcp_run :: "poll list \<Rightarrow> 'b firmware \<Rightarrow> ((u32 \<times> u32) option \<times> poll list \<times> 'b firmware) option" where
  "dhcp_run ps s = dhcp_tries DHCP_MAX_TRIES ps (s\<lparr>rx_callback := Some Dhcp_rx\<rparr>)"

subsection \<open>Serving\<close>

text \<open>What \<^verbatim>\<open>main\<close> does with a lease before it serves, and one turn of its innermost loop per poll.\<close>

definition begin_serving :: "u32 \<Rightarrow> 'b firmware \<Rightarrow> 'b firmware option" where
  "begin_serving ip s =
     udp_announce_arp ((udp_set_ip ip (s\<lparr>eb_ip := ip\<rparr>))\<lparr>rx_callback := Some Eb_rx, bx_callback := Some Eb_rx\<rparr>)"

fun serve_polls :: "('b, 'z) bus_scheme \<Rightarrow> poll list \<Rightarrow> 'b firmware \<Rightarrow> 'b firmware option" where
  "serve_polls B [] s = Some s"
| "serve_polls B (p # ps) s = do {
     s \<leftarrow> udp_service p s;
     s \<leftarrow> eb_serve_pending B s;
     serve_polls B ps s }"

subsection \<open>No frame breaks the firmware\<close>

definition firmware_ok :: "'b firmware \<Rightarrow> bool" where
  "firmware_ok s \<longleftrightarrow> fw_ok s \<and> length (rx_msgbuf s) = DHCP_MIN_PACKET_LEN + 64 \<and> rx_msglen s \<le> DHCP_MIN_PACKET_LEN + 64"

definition poll_ok :: "poll \<Rightarrow> bool" where
  "poll_ok p \<longleftrightarrow> (case p of None \<Rightarrow> True | Some (rx, rxlen) \<Rightarrow> length rx = ETHMAC_SLOT_SIZE)"

lemma more_fields:
  "fw.more s' = fw.more s \<Longrightarrow> rx_msgbuf s' = rx_msgbuf s \<and> rx_msglen s' = rx_msglen s \<and> rx_got s' = rx_got s \<and>
    xid_state s' = xid_state s \<and> eb_ip s' = eb_ip s" for s s' :: "'b firmware"
  by (cases s; cases s') simp

lemma quiet_firmware: "firmware_ok s \<Longrightarrow> quiet_step s (Some s') \<Longrightarrow> firmware_ok s'"
  using quiet_fw [of s s'] more_fields [of s' s] by (simp add: firmware_ok_def)

lemma callbacks_ok: "firmware_ok s \<Longrightarrow> firmware_ok (run_callback cb src sp dp data s)"
proof (cases cb)
  case Dhcp_rx
  assume "firmware_ok s"
  with Dhcp_rx show ?thesis
    by (auto simp: run_callback_def dhcp_rx_callback_def firmware_ok_def fw_ok_def udp_ok_def Let_def)
next
  case Eb_rx
  assume "firmware_ok s"
  moreover have "fw.more (eb_rx_callback src sp dp data s) = fw.more s" by (simp add: eb_rx_callback_def Let_def)
  ultimately show ?thesis
    using Eb_rx callback_ok [of s src sp dp data] more_fields [of "eb_rx_callback src sp dp data s" s]
    by (simp add: run_callback_def firmware_ok_def)
qed

lemma udp_service_ok:
  assumes "firmware_ok s" "poll_ok p"
  shows "\<exists>s'. udp_service p s = Some s' \<and> firmware_ok s'"
proof (cases p)
  case (Some f)
  obtain rx rxlen where f: "f = (rx, rxlen)" by (rule prod.exhaust)
  have u: "udp_ok s" and l: "length rx = ETHMAC_SLOT_SIZE"
    using assms Some f by (simp_all add: firmware_ok_def fw_ok_def poll_ok_def)
  obtain call s1 where "process_frame rx rxlen s = Some (call, s1)" "quiet_step s (Some s1)"
    using process_frame_ok [OF u l, of rxlen] by blast
  then show ?thesis
    using Some f callbacks_ok [OF quiet_firmware [OF assms(1)]] quiet_firmware [OF assms(1)]
    by (auto simp: udp_service_def split: option.split)
qed (use assms in \<open>simp add: udp_service_def\<close>)

lemma serve_pending_ok:
  assumes "firmware_ok s"
  shows "\<exists>s'. eb_serve_pending B s = Some s' \<and> firmware_ok s'"
proof -
  obtain s' where "eb_serve_pending B s = Some s'" "fw_ok s'" "fw.more s' = fw.more s"
    using serve_total [of s B] assms by (auto simp: firmware_ok_def)
  with more_fields [of s' s] assms show ?thesis by (simp add: firmware_ok_def)
qed

lemma serve_polls_ok:
  assumes "firmware_ok s" "list_all poll_ok ps"
  shows "\<exists>s'. serve_polls B ps s = Some s' \<and> firmware_ok s'"
  using assms
proof (induction ps arbitrary: s)
  case (Cons p ps)
  then obtain s1 where s1: "udp_service p s = Some s1" "firmware_ok s1" using udp_service_ok [of s p] by auto
  then obtain s2 where "eb_serve_pending B s1 = Some s2" "firmware_ok s2" using serve_pending_ok by blast
  with Cons.IH [of s2] Cons.prems s1 show ?case by simp
qed simp

lemma list_all_tl: "list_all P xs \<Longrightarrow> list_all P (tl xs)"
  by (cases xs) simp_all

lemma wait_loop_ok:
  assumes "firmware_ok s" "list_all poll_ok ps"
  shows "\<exists>got ps' s'. wait_loop n ps s = Some (got, ps', s') \<and> firmware_ok s' \<and> list_all poll_ok ps'"
  using assms
proof (induction n arbitrary: ps s)
  case (Suc n)
  have "poll_ok (case ps of [] \<Rightarrow> None | p # _ \<Rightarrow> p)" using Suc.prems(2) by (cases ps) (simp_all add: poll_ok_def)
  then obtain s1 where "udp_service (case ps of [] \<Rightarrow> None | p # _ \<Rightarrow> p) s = Some s1" "firmware_ok s1"
    using udp_service_ok [OF Suc.prems(1)] by blast
  with Suc.IH [of s1 "tl ps"] list_all_tl [OF Suc.prems(2)] show ?case by auto
qed auto

lemma wait_for_reply_ok:
  assumes "firmware_ok s" "list_all poll_ok ps"
  shows "\<exists>got ps' s'. wait_for_reply ps (udp_set_ip ip s) = Some (got, ps', s') \<and> firmware_ok s' \<and> list_all poll_ok ps'"
  unfolding wait_for_reply_def
  using assms by (intro wait_loop_ok) (simp_all add: firmware_ok_def fw_ok_def udp_ok_def udp_set_ip_def)

text \<open>A builder that fills 300 bytes of whatever buffer it is given.\<close>

definition builds :: "(byte list \<Rightarrow> (byte list \<times> nat) option) \<Rightarrow> byte list \<Rightarrow> bool" where
  "builds build m \<longleftrightarrow> length m = 300 \<and> (\<forall>buf. 300 \<le> length buf \<longrightarrow> build buf = Some (m @ drop 300 buf, 300))"

lemma builds_discover: "builds (\<lambda>buf. dhcp_build_discover buf chaddr_etherbone xid)
    (message chaddr_etherbone xid (common_options chaddr_etherbone DHCP_MSG_DISCOVER))"
  using opts_length(1) [of chaddr_etherbone DHCP_MSG_DISCOVER]
  by (simp add: builds_def build_discover_eq message_def chaddr_etherbone_def)

lemma builds_request: "builds (\<lambda>buf. dhcp_build_request buf chaddr_etherbone xid ip server)
    (message chaddr_etherbone xid (request_options chaddr_etherbone ip server))"
  using opts_length(2) [of chaddr_etherbone ip server]
  by (simp add: builds_def build_request_eq message_def chaddr_etherbone_def)

lemma tx_buffer_length: "udp_ok s \<Longrightarrow> length (udp_get_tx_buffer s) = 2006"
  using slot_length [of s] by (simp add: udp_get_tx_buffer_def ETHMAC_SLOT_SIZE_def)

lemma build_and_send_ok:
  assumes "firmware_ok s" "builds build m"
  shows "\<exists>sent s'. build_and_send build s = Some (sent, s') \<and> firmware_ok s'"
proof -
  let ?s = "udp_set_ip 0 s"
  have ok: "firmware_ok ?s" using assms(1) by (simp add: firmware_ok_def fw_ok_def udp_ok_def udp_set_ip_def)
  then have u: "udp_ok ?s" by (simp add: firmware_ok_def fw_ok_def)
  let ?m = "m @ drop 300 (udp_get_tx_buffer ?s)"
  have b: "build (udp_get_tx_buffer ?s) = Some (?m, 300)" "length ?m = 2006"
    using assms(2) tx_buffer_length [OF u] by (simp_all add: builds_def)
  obtain slots where fill: "fill_tx_buffer ?m ?s = Some (?s\<lparr>tx_slots := slots\<rparr>)" "udp_ok (?s\<lparr>tx_slots := slots\<rparr>)"
    using fill_tx_buffer_ok [OF u, of ?m] b(2) by (auto simp: ETHMAC_SLOT_SIZE_def)
  have ok': "firmware_ok (?s\<lparr>tx_slots := slots\<rparr>)" using ok fill(2) by (simp add: firmware_ok_def fw_ok_def)
  obtain sent s' where "udp_send 68 67 300 (?s\<lparr>tx_slots := slots\<rparr>) = Some (sent, s')" "quiet_step (?s\<lparr>tx_slots := slots\<rparr>) (Some s')"
    using udp_send_quiet [OF fill(2)] by blast
  then show ?thesis using quiet_firmware [OF ok'] b(1) fill(1) by (simp add: build_and_send_def)
qed

lemma dhcp_tries_ok:
  assumes "firmware_ok s" "list_all poll_ok ps"
  shows "\<exists>r ps' s'. dhcp_tries n ps s = Some (r, ps', s') \<and> firmware_ok s' \<and> list_all poll_ok ps'"
  using assms
proof (induction n arbitrary: ps s)
  case 0
  then show ?case by (simp add: firmware_ok_def fw_ok_def udp_ok_def)
next
  case (Suc n)
  let ?xid = "next_xid (xid_state s)"
  have "firmware_ok (s\<lparr>xid_state := ?xid\<rparr>)" using Suc.prems(1) by (simp add: firmware_ok_def fw_ok_def udp_ok_def)
  from build_and_send_ok [OF this builds_discover [of ?xid]] obtain sent1 s1 where
    s1: "build_and_send (\<lambda>buf. dhcp_build_discover buf chaddr_etherbone ?xid) (s\<lparr>xid_state := ?xid\<rparr>) = Some (sent1, s1)" "firmware_ok s1"
    by blast
  obtain got1 ps1 s2 where s2: "wait_for_reply ps (udp_set_ip 0xFFFFFFFF s1) = Some (got1, ps1, s2)" "firmware_ok s2" "list_all poll_ok ps1"
    using wait_for_reply_ok [OF s1(2) Suc.prems(2), of "0xFFFFFFFF"] by blast
  obtain offer where offer: "dhcp_parse_offer (take (rx_msglen s2) (rx_msgbuf s2)) ?xid = Some offer"
    using parse_offer_total by blast
  note retry = Suc.IH [OF s1(2) Suc.prems(2)] Suc.IH [OF s2(2,3)]
  show ?case
  proof (cases "sent1 \<and> got1 \<and> offer \<noteq> None")
    case False
    then show ?thesis using s1(1) s2(1) offer retry by (cases offer) (auto simp: Let_def)
  next
    case True
    then obtain ip server lease where o: "offer = Some (ip, server, lease)" by auto
    obtain sent2 s3 where
      s3: "build_and_send (\<lambda>buf. dhcp_build_request buf chaddr_etherbone ?xid ip server) s2 = Some (sent2, s3)" "firmware_ok s3"
      using build_and_send_ok [OF s2(2) builds_request] by blast
    obtain got2 ps2 s4 where s4: "wait_for_reply ps1 (udp_set_ip 0xFFFFFFFF s3) = Some (got2, ps2, s4)" "firmware_ok s4" "list_all poll_ok ps2"
      using wait_for_reply_ok [OF s3(2) s2(3), of "0xFFFFFFFF"] by blast
    obtain ack where ack: "dhcp_parse_ack (take (rx_msglen s4) (rx_msgbuf s4)) ?xid = Some ack"
      using parse_ack_total by blast
    have "firmware_ok (s4\<lparr>rx_callback := None\<rparr>)" using s4(2) by (simp add: firmware_ok_def fw_ok_def udp_ok_def)
    then show ?thesis
      using True o s1(1) s2(1) offer s3(1) s4 ack Suc.IH [OF s3(2) s2(3)] Suc.IH [OF s4(2,3)]
      by (auto simp: Let_def split: option.splits)
  qed
qed


subsection \<open>A request is answered\<close>

lemma stash_request:
  assumes "\<not> eb_pending s" "length data \<le> EB_BUF_LEN" "data ! 0 = EB_MAGIC0" "data ! 1 = EB_MAGIC1"
  shows "eb_rx_callback src sp dp data s =
    s\<lparr>eb_cb_any := eb_cb_any s + 1, eb_cb_port := eb_cb_port s + 1, eb_dst_port := dp, eb_src_mac := take 6 (udp_last_src_mac s),
      eb_req := data @ drop (length data) (eb_req s), eb_req_len := length data, eb_src_ip := src, eb_src_port := sp, eb_pending := True\<rparr>"
  using assms by (simp add: eb_rx_callback_def EB_MAGIC0_def EB_MAGIC1_def)

lemma request_stashed:
  assumes ok: "firmware_ok s" "\<not> eb_pending s" "receiver (cached_ip h) s = Some Eb_rx"
    and h: "length (my_mac h) = 6" "cached_ip h = my_ip s \<or> cached_ip h = 0xFFFFFFFF \<or> cached_ip h = (my_ip s OR 0xff)"
    and req: "length req \<le> EB_BUF_LEN" "req ! 0 = EB_MAGIC0" "req ! 1 = EB_MAGIC1"
    and rx: "rx = eth_header D (my_mac h) 0x0800 @ udp_datagram h sp dp req @ R" "length D = 6" "length req + 42 \<le> rxlen" "rxlen \<le> ETHMAC_SLOT_SIZE"
  shows "\<exists>s1. udp_service (Some (rx, rxlen)) s = Some s1 \<and> firmware_ok s1 \<and> eb_pending s1 \<and> take (eb_req_len s1) (eb_req s1) = req \<and>
    eb_src_mac s1 = my_mac h \<and> eb_src_ip s1 = my_ip h \<and> eb_src_port s1 = sp \<and> eb_dst_port s1 = dp \<and> eb_resp s1 = eb_resp s \<and>
    bus_state s1 = bus_state s \<and> wire s1 = wire s \<and> my_mac s1 = my_mac s \<and> my_ip s1 = my_ip s"
proof -
  let ?s = "s\<lparr>udp_last_src_mac := my_mac h\<rparr>"
  have fw: "firmware_ok ?s" using ok(1) h(1) by (simp add: firmware_ok_def fw_ok_def udp_ok_def)
  have "udp_service (Some (rx, rxlen)) s = Some (eb_rx_callback (my_ip h) sp dp req ?s)"
    using process_frame_datagram [OF rx(2) h(1) rx(3,4) h(2), of sp dp R] ok(3)
    by (simp add: udp_service_def rx(1) run_callback_def)
  moreover have "firmware_ok (eb_rx_callback (my_ip h) sp dp req ?s)"
    using callbacks_ok [OF fw, of Eb_rx "my_ip h" sp dp req] by (simp add: run_callback_def)
  ultimately show ?thesis
    using stash_request [of ?s req "my_ip h" sp dp] ok(2) req h(1) by simp
qed

lemma serve_stashed:
  assumes ok: "firmware_ok s" "eb_pending s" "\<not> list_all (\<lambda>b. b = 0) (eb_src_mac s)"
    and req: "request_header hdr" "list_all fits rs" "length ys < 4"
      "take (eb_req_len s) (eb_req s) = hdr @ concat (map record_bytes rs) @ ys" "serve_records B rs (bus_state s) = (body, b')"
  shows "\<exists>s'. eb_serve_pending B s = Some s' \<and> firmware_ok s' \<and> \<not> eb_pending s' \<and> bus_state s' = b' \<and>
    (if body = [] then wire s' = wire s
     else \<exists>f. wire s' = wire s @ [f] \<and> take 6 f = eb_src_mac s \<and>
       (\<forall>(t :: ('c, 'y) udp_state_scheme) junk. process_udp (f @ junk) (length f) t =
         Some (map_option (\<lambda>cb. (cb, my_ip s, eb_dst_port s, eb_src_port s, reply_bytes body)) (receiver (eb_src_ip s) t),
           t\<lparr>udp_last_src_mac := my_mac s\<rparr>)))"
proof -
  have sizes: "length (eb_resp s) = EB_BUF_LEN + 16" "length (take (eb_req_len s) (eb_req s)) \<le> EB_BUF_LEN"
    using ok(1) by (auto simp: firmware_ok_def fw_ok_def)
  let ?n = "length (reply_bytes body)"
  obtain resp where h: "eb8008_handle B (take (eb_req_len s) (eb_req s)) (eb_resp s) (bus_state s) = Some (resp, ?n, b')"
      "take ?n resp = reply_bytes body"
    using handle_records [OF req(1-4) _ req(5), of "eb_resp s"] sizes by auto
  have b: "length resp = EB_BUF_LEN + 16" "?n \<le> EB_BUF_LEN + 16"
    using handle_bounded [of "take (eb_req_len s) (eb_req s)" "eb_resp s" B "bus_state s"] sizes h(1)
    by (auto simp: EB_BUF_LEN_def)
  obtain s' where s': "eb_serve_pending B s = Some s'" "firmware_ok s'" using serve_pending_ok [OF ok(1)] by blast
  show ?thesis
  proof (cases "body = []")
    case True
    then have "s' = s\<lparr>eb_resp := resp, bus_state := b', eb_pending := False\<rparr>"
      using serve_silent [OF ok(2), of B resp b'] h(1) s'(1) by (simp add: reply_bytes_def)
    with s' True show ?thesis by simp
  next
    case False
    then have n: "0 < ?n" by (simp add: reply_bytes_def)
    let ?u = "udp_set_peer (eb_src_ip s) (eb_src_mac s) s"
    have fw: "fw_ok s" using ok(1) by (simp add: firmware_ok_def)
    then have macs: "length (eb_src_mac s) = 6" "length (my_mac s) = 6" by (simp_all add: fw_ok_def udp_ok_def)
    from serve_replies [OF fw ok(2) n b(2,1) h(1) ok(3)] s'(1) obtain pad where
      w: "\<not> eb_pending s'" "bus_state s' = b'"
        "wire s' = wire s @ [eth_header (eb_src_mac s) (my_mac s) 0x0800 @ udp_datagram ?u (eb_dst_port s) (eb_src_port s) (reply_bytes body) @ pad]"
      unfolding h(2) by auto
    let ?f = "eth_header (eb_src_mac s) (my_mac s) 0x0800 @ udp_datagram ?u (eb_dst_port s) (eb_src_port s) (reply_bytes body) @ pad"
    have u: "my_mac ?u = my_mac s" "my_ip ?u = my_ip s" "cached_ip ?u = eb_src_ip s" by (simp_all add: udp_set_peer_def)
    have "process_udp (?f @ junk) (length ?f) t =
        Some (map_option (\<lambda>cb. (cb, my_ip s, eb_dst_port s, eb_src_port s, reply_bytes body)) (receiver (eb_src_ip s) t),
          t\<lparr>udp_last_src_mac := my_mac s\<rparr>)" for t :: "('c, 'y) udp_state_scheme" and junk
      using macs b(2) process_udp_datagram [of "eb_src_mac s" ?u "reply_bytes body" "length ?f" "0x0800" "eb_dst_port s" "eb_src_port s" "pad @ junk" t]
      by (simp add: u ETHMAC_SLOT_SIZE_def EB_BUF_LEN_def)
    moreover have "take 6 ?f = eb_src_mac s" using macs by (simp add: eth_header_def)
    ultimately show ?thesis using False s' w by simp
  qed
qed

lemma request_served:
  assumes ok: "firmware_ok s" "\<not> eb_pending s" "rx_callback s = Some Eb_rx" "bx_callback s = Some Eb_rx"
    and h: "length (my_mac h) = 6" "\<not> list_all (\<lambda>b. b = 0) (my_mac h)"
      "cached_ip h = my_ip s \<or> cached_ip h = 0xFFFFFFFF \<or> cached_ip h = (my_ip s OR 0xff)"
    and req: "request_header hdr" "list_all fits rs" "length ys < 4" "req = hdr @ concat (map record_bytes rs) @ ys"
      "length req \<le> EB_BUF_LEN" "serve_records B rs (bus_state s) = (body, b')"
    and rx: "rx = eth_header D (my_mac h) 0x0800 @ udp_datagram h sp dp req @ R" "length D = 6" "length req + 42 \<le> rxlen" "rxlen \<le> ETHMAC_SLOT_SIZE"
  shows "\<exists>s'. serve_polls B [Some (rx, rxlen)] s = Some s' \<and> firmware_ok s' \<and> \<not> eb_pending s' \<and> bus_state s' = b' \<and>
    (if body = [] then wire s' = wire s
     else \<exists>f. wire s' = wire s @ [f] \<and> take 6 f = my_mac h \<and>
       (\<forall>(t :: ('c, 'y) udp_state_scheme) junk. process_udp (f @ junk) (length f) t =
         Some (map_option (\<lambda>cb. (cb, my_ip s, dp, sp, reply_bytes body)) (receiver (my_ip h) t), t\<lparr>udp_last_src_mac := my_mac s\<rparr>)))"
proof -
  have m: "req ! 0 = EB_MAGIC0" "req ! 1 = EB_MAGIC1" using req(1,4) by (auto simp: request_header_def nth_append)
  have "receiver (cached_ip h) s = Some Eb_rx" using ok(3,4) h(3) by (auto simp: receiver_def)
  from request_stashed [OF ok(1,2) this h(1,3) req(5) m rx] obtain s1 where
    s1: "udp_service (Some (rx, rxlen)) s = Some s1" "firmware_ok s1" "eb_pending s1" "take (eb_req_len s1) (eb_req s1) = req"
      "eb_src_mac s1 = my_mac h" "eb_src_ip s1 = my_ip h" "eb_src_port s1 = sp" "eb_dst_port s1 = dp"
      "bus_state s1 = bus_state s" "wire s1 = wire s" "my_mac s1 = my_mac s" "my_ip s1 = my_ip s" by blast
  have r: "take (eb_req_len s1) (eb_req s1) = hdr @ concat (map record_bytes rs) @ ys"
      "serve_records B rs (bus_state s1) = (body, b')" "\<not> list_all (\<lambda>b. b = 0) (eb_src_mac s1)"
    using s1(4,5,9) req(4,6) h(2) by simp_all
  obtain s' where "eb_serve_pending B s1 = Some s'" "firmware_ok s' \<and> \<not> eb_pending s' \<and> bus_state s' = b' \<and>
    (if body = [] then wire s' = wire s
     else \<exists>f. wire s' = wire s @ [f] \<and> take 6 f = my_mac h \<and>
       (\<forall>(t :: ('c, 'y) udp_state_scheme) junk. process_udp (f @ junk) (length f) t =
         Some (map_option (\<lambda>cb. (cb, my_ip s, dp, sp, reply_bytes body)) (receiver (my_ip h) t), t\<lparr>udp_last_src_mac := my_mac s\<rparr>)))"
    using serve_stashed [OF s1(2,3) r(3) req(1-3) r(1,2)] unfolding s1(5-8,10-12) by blast
  then show ?thesis using s1(1) by simp
qed


text \<open>A board that serves a memory of words, and the request of \<open>demo_records\<close> from the station of \<open>demo_udp\<close>.\<close>

definition demo_fw :: "(u32 \<Rightarrow> u32) firmware" where
  "demo_fw = \<lparr>my_mac = [0x10, 0xe2, 0xd5, 0, 0, 2], my_ip = 0xC0A80150, cached_mac = replicate 6 0, cached_ip = 0,
     udp_last_src_mac = replicate 6 0, rx_callback = Some Eb_rx, bx_callback = Some Eb_rx, txslot = 0,
     tx_slots = replicate 2 (replicate 2048 0), wire = [], eb_pending = False, eb_src_ip = 0, eb_src_port = 0, eb_dst_port = 0,
     eb_src_mac = replicate 6 0, eb_req = replicate 1500 0, eb_req_len = 0, eb_resp = replicate 1516 0,
     eb_cb_any = 0, eb_cb_port = 0, eb_served = 0, bus_state = (\<lambda>_. 0), xid_state = 0x8008a5a5, rx_got = False,
     rx_msgbuf = replicate 364 0, rx_msglen = 0, eb_ip = 0xC0A80150\<rparr>"

definition demo_req :: "byte list" where
  "demo_req = header False @ concat (map record_bytes demo_records) @ []"

definition demo_rx :: "byte list" where
  "demo_rx = eth_header (replicate 6 0xFF) (my_mac demo_udp) 0x0800 @ udp_datagram demo_udp 1234 1234 demo_req @ replicate 1958 0"

lemma demo_fw_sel:
  "my_mac demo_fw = [0x10, 0xe2, 0xd5, 0, 0, 2]" "\<not> eb_pending demo_fw" "rx_callback demo_fw = Some Eb_rx"
  "bx_callback demo_fw = Some Eb_rx" "bus_state demo_fw = (\<lambda>_. 0)" "wire demo_fw = []" "my_ip demo_fw = 0xC0A80150"
  by (simp_all add: demo_fw_def)

lemma demo_fw_ok: "firmware_ok demo_fw"
  by (simp add: demo_fw_def firmware_ok_def fw_ok_def udp_ok_def list_all_iff ETHMAC_TX_SLOTS_def ETHMAC_SLOT_SIZE_def
      EB_BUF_LEN_def DHCP_MIN_PACKET_LEN_def)

lemma demo_req_length: "length demo_req = 48"
  by (simp add: demo_req_def demo_records_def record_bytes_def counted_def)

lemma demo_station: "length (my_mac demo_udp) = 6" "\<not> list_all (\<lambda>b. b = 0) (my_mac demo_udp)" "cached_ip demo_udp = 0xFFFFFFFF"
  by (simp_all add: demo_udp_def)

lemma demo_rx_length: "length demo_rx = ETHMAC_SLOT_SIZE"
  using demo_station by (simp add: demo_rx_def demo_req_length ETHMAC_SLOT_SIZE_def)

lemma demo_served:
  "serve_records mem_bus demo_records (\<lambda>_. 0) = (reply_record 2 3 @ words [8, 7], (\<lambda>_. 0)(16 := 7, 20 := 8, 16 := 9))"
  by (simp add: demo_records_def mem_bus_def Let_def flip: numeral_2_eq_2)



end
