(* ===== verification/Lease.thy ===== *)
theory Lease
  imports Firmware
begin

text \<open>
  The lease the firmware obtains: \<^verbatim>\<open>dhcp_run\<close> of \<^verbatim>\<open>src/firmware/main.c\<close> against a server that answers. The
  theorem joins the builders and the parser of the messages, the frames sent and received, and the
  polling for replies.
\<close>

text \<open>What a station's stack takes from a frame.\<close>

definition delivers :: "byte list \<Rightarrow> u32 \<Rightarrow> u32 \<Rightarrow> u16 \<Rightarrow> u16 \<Rightarrow> byte list \<Rightarrow> bool" where
  "delivers f dst src sp dp payload \<longleftrightarrow>
     (\<forall>t junk. \<exists>mac. process_udp (f @ junk) (length f) (t :: callback udp_state) =
        Some (map_option (\<lambda>cb. (cb, src, sp, dp, payload)) (receiver dst t), t\<lparr>udp_last_src_mac := mac\<rparr>))"

lemma build_and_send_sends:
  assumes "firmware_ok s" "builds build m" "\<not> list_all (\<lambda>b. b = 0) (cached_mac s)"
  shows "\<exists>slots k f. build_and_send build s = Some (True, s\<lparr>my_ip := 0, tx_slots := slots, txslot := k, wire := wire s @ [f]\<rparr>) \<and>
    firmware_ok (s\<lparr>my_ip := 0, tx_slots := slots, txslot := k, wire := wire s @ [f]\<rparr>) \<and> delivers f (cached_ip s) 0 68 67 m"
proof -
  let ?s = "udp_set_ip 0 s"
  have ok: "firmware_ok ?s" using assms(1) by (simp add: firmware_ok_def fw_ok_def udp_ok_def udp_set_ip_def)
  then have u: "udp_ok ?s" by (simp add: firmware_ok_def fw_ok_def)
  let ?m = "m @ drop 300 (udp_get_tx_buffer ?s)"
  have b: "build (udp_get_tx_buffer ?s) = Some (?m, 300)" "length ?m = 2006" "length m = 300"
    using assms(2) tx_buffer_length [OF u] by (simp_all add: builds_def)
  obtain slots where fill: "fill_tx_buffer ?m ?s = Some (?s\<lparr>tx_slots := slots\<rparr>)" "udp_ok (?s\<lparr>tx_slots := slots\<rparr>)"
      "take (length ?m) (udp_get_tx_buffer (?s\<lparr>tx_slots := slots\<rparr>)) = ?m"
    using fill_tx_buffer_ok [OF u, of ?m] b(2) by (auto simp: ETHMAC_SLOT_SIZE_def)
  let ?t = "?s\<lparr>tx_slots := slots\<rparr>"
  have "take (length m) (take (length ?m) (udp_get_tx_buffer ?t)) = m" unfolding fill(3) by simp
  then have buf: "take (length m) (udp_get_tx_buffer ?t) = m" using b(2,3) by (simp add: min_def)
  have peer: "\<not> list_all (\<lambda>b. b = 0) (cached_mac ?t)" "length m \<le> ETHMAC_SLOT_SIZE - 42"
    using assms(3) b(3) by (simp_all add: udp_set_ip_def ETHMAC_SLOT_SIZE_def)
  have macs: "length (cached_mac s) = 6" "length (my_mac ?t) = 6"
    using assms(1) by (simp_all add: firmware_ok_def fw_ok_def udp_ok_def udp_set_ip_def)
  obtain slots2 k pad where sent: "udp_send 68 67 300 ?t = Some (True, ?t\<lparr>tx_slots := slots2, txslot := k,
        wire := wire s @ [eth_header (cached_mac s) (my_mac ?t) 0x0800 @ udp_datagram ?t 68 67 m @ pad]\<rparr>)"
      "udp_ok (?t\<lparr>tx_slots := slots2, txslot := k,
        wire := wire s @ [eth_header (cached_mac s) (my_mac ?t) 0x0800 @ udp_datagram ?t 68 67 m @ pad]\<rparr>)"
    using udp_send_frame [OF fill(2) peer buf, of 68 67] unfolding Let_def b(3) by (auto simp: udp_set_ip_def)
  let ?f = "eth_header (cached_mac s) (my_mac ?t) 0x0800 @ udp_datagram ?t 68 67 m @ pad"
  let ?s' = "s\<lparr>my_ip := 0, tx_slots := slots2, txslot := k, wire := wire s @ [?f]\<rparr>"
  have eq: "?t\<lparr>tx_slots := slots2, txslot := k, wire := wire s @ [?f]\<rparr> = ?s'" by (simp add: udp_set_ip_def)
  have "process_udp (?f @ junk) (length ?f) t =
      Some (map_option (\<lambda>cb. (cb, 0, 68, 67, m)) (receiver (cached_ip s) t), t\<lparr>udp_last_src_mac := my_mac ?t\<rparr>)"
    for t :: "callback udp_state" and junk
    using process_udp_datagram [OF macs peer(2), of "length ?f" "0x0800" 68 67 "pad @ junk" t] macs by (simp add: udp_set_ip_def)
  then have "delivers ?f (cached_ip s) 0 68 67 m" unfolding delivers_def by blast
  moreover have "build_and_send build s = Some (True, ?s')" using b(1) fill(1) sent(1) unfolding eq by (simp add: build_and_send_def Let_def)
  moreover have "firmware_ok ?s'" using sent(2) assms(1) unfolding eq by (simp add: firmware_ok_def fw_ok_def)
  ultimately show ?thesis by blast
qed

subsection \<open>Waiting\<close>

lemma wait_loop_hit:
  assumes "i < n" "\<not> rx_got s" "udp_service (Some f) s = Some s'" "rx_got s'"
  shows "wait_loop n (replicate i None @ Some f # ps) s = Some (True, ps, s')"
  using assms
proof (induction i arbitrary: n)
  case 0
  then obtain m where "n = Suc m" by (cases n) auto
  with 0 show ?case by simp
next
  case (Suc i)
  then obtain m where "n = Suc m" "i < m" by (cases n) auto
  with Suc show ?case by (simp add: udp_service_def)
qed

lemma reply_received:
  assumes "rx_callback s = Some Dhcp_rx" "my_ip s = 0xFFFFFFFF" "length (my_mac h) = 6" "cached_ip h = 0xFFFFFFFF"
    and "length msg \<le> 364" "rx = eth_header D (my_mac h) 0x0800 @ udp_datagram h 67 68 msg @ R" "length D = 6"
    and "length msg + 42 \<le> rxlen" "rxlen \<le> ETHMAC_SLOT_SIZE"
  shows "udp_service (Some (rx, rxlen)) s =
    Some (s\<lparr>udp_last_src_mac := my_mac h, rx_msgbuf := msg @ drop (length msg) (rx_msgbuf s), rx_msglen := length msg, rx_got := True\<rparr>)"
  using process_frame_datagram [OF assms(7,3,8,9), of s 67 68 R] assms(1-6)
  by (simp add: udp_service_def receiver_def run_callback_def dhcp_rx_callback_def Let_def DHCP_MIN_PACKET_LEN_def)

lemma wait_for_reply_hit:
  assumes "firmware_ok s" "rx_callback s = Some Dhcp_rx" "length (my_mac h) = 6" "cached_ip h = 0xFFFFFFFF"
    and "length msg \<le> 364" "rx = eth_header D (my_mac h) 0x0800 @ udp_datagram h 67 68 msg @ R" "length D = 6"
    and "length msg + 42 \<le> rxlen" "rxlen \<le> ETHMAC_SLOT_SIZE" "i < DHCP_REPLY_TIMEOUT_LOOPS"
  shows "\<exists>s'. wait_for_reply (replicate i None @ Some (rx, rxlen) # ps) (udp_set_ip 0xFFFFFFFF s) = Some (True, ps, s') \<and>
    firmware_ok s' \<and> take (rx_msglen s') (rx_msgbuf s') = msg \<and> wire s' = wire s \<and> cached_mac s' = cached_mac s \<and>
    cached_ip s' = cached_ip s \<and> rx_callback s' = rx_callback s \<and> xid_state s' = xid_state s"
proof -
  let ?s = "(udp_set_ip 0xFFFFFFFF s)\<lparr>rx_got := False\<rparr>"
  let ?s' = "?s\<lparr>udp_last_src_mac := my_mac h, rx_msgbuf := msg @ drop (length msg) (rx_msgbuf s), rx_msglen := length msg, rx_got := True\<rparr>"
  have "udp_service (Some (rx, rxlen)) ?s = Some ?s'"
    using reply_received [of ?s h msg rx D R rxlen] assms by (simp add: udp_set_ip_def)
  from wait_loop_hit [OF assms(10) _ this]
  have "wait_for_reply (replicate i None @ Some (rx, rxlen) # ps) (udp_set_ip 0xFFFFFFFF s) = Some (True, ps, ?s')"
    by (simp add: wait_for_reply_def)
  moreover have "firmware_ok ?s'"
    using assms(1,3,5) by (simp add: firmware_ok_def fw_ok_def udp_ok_def udp_set_ip_def DHCP_MIN_PACKET_LEN_def)
  ultimately show ?thesis by (simp add: udp_set_ip_def)
qed

subsection \<open>The exchange\<close>


text \<open>A server at the station of \<open>demo_udp\<close> that names no lease time, heard after three and after no empty polls.\<close>

definition demo_reply :: "byte \<Rightarrow> byte list" where
  "demo_reply ty = demo_fixed (next_xid 0x8008a5a5) @
     concat (map item_bytes [Opt DHCP_OPT_MSG_TYPE [ty], Opt DHCP_OPT_SERVER_ID (be32 0xC0A80101)]) @ [DHCP_OPT_END]"

definition demo_reply_rx :: "byte \<Rightarrow> byte list" where
  "demo_reply_rx ty = eth_header (replicate 6 0xFF) (my_mac demo_udp) 0x0800 @ udp_datagram demo_udp 67 68 (demo_reply ty) @ []"

lemma demo_reply_parses:
  "parse_reply (demo_reply ty) (next_xid 0x8008a5a5) ty = Some (Some (0xC0A80132, 0xC0A80101, 0))" "length (demo_reply ty) = 250"
proof -
  let ?is = "[Opt DHCP_OPT_MSG_TYPE [ty], Opt DHCP_OPT_SERVER_ID (be32 0xC0A80101)]"
  have "list_all item_ok ?is" by (simp add: DHCP_OPT_MSG_TYPE_def DHCP_OPT_SERVER_ID_def DHCP_OPT_PAD_def DHCP_OPT_END_def)
  moreover have "meaning ?is no_options = \<lparr>msg_type = uint ty, got_server = 0xC0A80101, got_lease = 0\<rparr>"
    using get_be32_app [of 0 "[]" _ "[]"] by (simp add: DHCP_OPT_MSG_TYPE_def DHCP_OPT_SERVER_ID_def)
  ultimately show "parse_reply (demo_reply ty) (next_xid 0x8008a5a5) ty = Some (Some (0xC0A80132, 0xC0A80101, 0))"
    using parse_reply_meaning [OF demo_fixed_part, of ?is "[DHCP_OPT_END]"] by (simp add: demo_reply_def)
  show "length (demo_reply ty) = 250" by (simp add: demo_reply_def demo_fixed_def)
qed


end
