(* ===== verification/Eb_Server.thy ===== *)
theory Eb_Server
  imports Discovery
begin

text \<open>
  The broadcast Etherbone bridge, \<^verbatim>\<open>src/host/b8008net/eb_server.py\<close>: the broadcast address, the
  socket, the probe and the read of \<^verbatim>\<open>CommUDPBroadcast\<close>, and the process that serves them.

  The packet classes are LiteX's. \<open>eb_packets\<close> holds what the code uses of them: the bytes of an
  encoded probe (\<open>ep_probe\<close>) and of an encoded read request of some addresses under a return address
  (\<open>ep_read\<close>), the probe-reply flag of a datagram (\<open>ep_pr\<close>), and the return address and data of the
  last record of a datagram (\<open>ep_reply\<close>). Each may raise.
\<close>

record eb_packets =
  ep_probe :: "exn + byte list"
  ep_pr :: "byte list \<Rightarrow> exn + int"
  ep_read :: "int \<Rightarrow> int list \<Rightarrow> exn + byte list"
  ep_reply :: "byte list \<Rightarrow> exn + (int \<times> int list)"

text \<open>The fields of the communication object; \<open>has_socket\<close> is \<^verbatim>\<open>hasattr(self, "socket")\<close>.\<close>

record comm =
  server :: string
  port :: int
  timeout :: int
  has_socket :: bool
  read_counter :: int

type_synonym 'a comm_sx = "(os \<times> comm, 'a) sx"

definition get_comm :: "comm comm_sx" where
  "get_comm s = (Inr (snd s), s)"

definition mod_comm :: "(comm \<Rightarrow> comm) \<Rightarrow> unit comm_sx" where
  "mod_comm f s = (Inr (), fst s, f (snd s))"

subsection \<open>The broadcast address\<close>

definition broadcast_addr :: "(os, string) sx" where
  "broadcast_addr =
     sx_catch is_OSError
       (sx_bind local_ipv4_and_netmask (\<lambda>(ip, netmask). sx_lift (subnet_bcast ip netmask)))
       (\<lambda>_. sx_return ''255.255.255.255'')"

subsection \<open>The probe\<close>

lemma recvfrom_timeout_consumes:
  "recvfrom_timeout t w = (Inr x, w') \<Longrightarrow> length (inbox w') < length (inbox w)"
  by (auto simp: recvfrom_timeout_def sx_defs guard_def split: list.splits option.splits if_splits)

text \<open>The inner loop: whatever does not parse as a probe reply is skipped.\<close>

function probe_recv :: "eb_packets \<Rightarrow> int \<Rightarrow> (os, unit) sx" where
  "probe_recv E t w =
     (case recvfrom_timeout t w of
        (Inl e, w') \<Rightarrow> (Inl e, w')
      | (Inr (datas, addr), w') \<Rightarrow>
          (case ep_pr E datas of
             Inl e \<Rightarrow> if is_Exception e then probe_recv E t w' else (Inl e, w')
           | Inr pr \<Rightarrow> if pr = 1 then (Inr (), w') else probe_recv E t w'))"
  by pat_completeness auto
termination
  by (relation "measure (\<lambda>(E, t, w). length (inbox w))") (auto dest: recvfrom_timeout_consumes [OF sym])

declare probe_recv.simps [simp del]

text \<open>The retries: 1 after a reply, 0 when every attempt timed out.\<close>

fun probe_tries :: "eb_packets \<Rightarrow> byte list \<Rightarrow> string \<Rightarrow> int \<Rightarrow> int \<Rightarrow> nat \<Rightarrow> (os, int) sx" where
  "probe_tries E request ip prt t 0 = sx_return 0"
| "probe_tries E request ip prt t (Suc n) =
     sx_catch (\<lambda>e. e = SocketTimeout)
       (sx_bind (sendto request ip prt) (\<lambda>_. sx_bind (probe_recv E t) (\<lambda>_. sx_return 1)))
       (\<lambda>_. probe_tries E request ip prt t n)"

definition probe :: "eb_packets \<Rightarrow> string \<Rightarrow> int \<Rightarrow> bool \<Rightarrow> int comm_sx" where
  "probe E ip prt loose =
     sx_bind get_comm (\<lambda>c.
       sx_bind (on_os (sx_lift (ep_probe E))) (\<lambda>bytes.
         sx_bind (on_os (probe_tries E (bytes @ replicate 4 0) ip prt (timeout c) 3)) (\<lambda>r.
           if r = 1 \<or> loose then sx_return r else sx_raise ConnectionRefusedError)))"

subsection \<open>Opening\<close>

text \<open>The attribute is set as soon as the socket exists; the calls after it may still raise.\<close>

definition comm_open :: "eb_packets \<Rightarrow> bool \<Rightarrow> unit comm_sx" where
  "comm_open E do_probe =
     sx_bind get_comm (\<lambda>c.
       if has_socket c then sx_return ()
       else sx_bind (on_os new_socket) (\<lambda>_.
         sx_bind (mod_comm (\<lambda>c. c\<lparr>has_socket := True\<rparr>)) (\<lambda>_.
           sx_bind (on_os guard) (\<lambda>_.
             sx_bind (on_os guard) (\<lambda>_.
               if do_probe
               then sx_bind (probe E (server c) (port c) False) (\<lambda>_. sx_return ())
               else sx_return ())))))"

subsection \<open>Reading\<close>

text \<open>
  The inner loop of a read: the data of the first reply that carries the current counter, \<open>None\<close> on
  a timeout. Echoes, noise and replies to earlier requests are skipped.
\<close>

function read_recv :: "eb_packets \<Rightarrow> int \<Rightarrow> int \<Rightarrow> (os, int list option) sx" where
  "read_recv E counter t w =
     (case recvfrom_timeout t w of
        (Inl e, w') \<Rightarrow> if e = SocketTimeout then (Inr None, w') else (Inl e, w')
      | (Inr (datas, addr), w') \<Rightarrow>
          (case ep_reply E datas of
             Inl e \<Rightarrow> if is_Exception e then read_recv E counter t w' else (Inl e, w')
           | Inr (base, values) \<Rightarrow>
               if base \<noteq> counter then read_recv E counter t w' else (Inr (Some values), w')))"
  by pat_completeness auto
termination
  by (relation "measure (\<lambda>(E, c, t, w). length (inbox w))")
    (auto dest: recvfrom_timeout_consumes [OF sym])

declare read_recv.simps [simp del]

fun read_tries :: "eb_packets \<Rightarrow> int list \<Rightarrow> nat \<Rightarrow> (int list) comm_sx" where
  "read_tries E addrs 0 = sx_raise SocketTimeout"
| "read_tries E addrs (Suc n) =
     sx_bind (mod_comm (\<lambda>c. c\<lparr>read_counter := read_counter c + 1\<rparr>)) (\<lambda>_.
       sx_bind get_comm (\<lambda>c.
         sx_bind (on_os (sx_lift (ep_read E (read_counter c) addrs))) (\<lambda>bytes.
           sx_bind (on_os (sendto bytes (server c) (port c))) (\<lambda>_.
             sx_bind (on_os (read_recv E (read_counter c) (timeout c))) (\<lambda>got.
               case got of
                 None \<Rightarrow> read_tries E addrs n
               | Some values \<Rightarrow> sx_return values)))))"

datatype read_value = Word int | Words "int list"

definition word_addrs :: "int \<Rightarrow> nat \<Rightarrow> int list" where
  "word_addrs addr n = map (\<lambda>j. addr + 4 * int j) [0..<n]"

definition comm_read :: "eb_packets \<Rightarrow> int \<Rightarrow> nat option \<Rightarrow> string \<Rightarrow> read_value comm_sx" where
  "comm_read E addr len burst =
     (if burst \<noteq> ''incr'' then sx_raise AssertionError
      else sx_bind (read_tries E (word_addrs addr (case len of None \<Rightarrow> 1 | Some n \<Rightarrow> n)) 10) (\<lambda>values.
        case len of
          Some _ \<Rightarrow> sx_return (Words values)
        | None \<Rightarrow> (case values of [] \<Rightarrow> sx_raise IndexError | v # _ \<Rightarrow> sx_return (Word v))))"

subsection \<open>The process\<close>

text \<open>
  The TCP front is LiteX's \<^verbatim>\<open>RemoteServer\<close>: its \<^verbatim>\<open>open\<close>, given that of the communication object, and
  its \<^verbatim>\<open>start\<close>. After them the main thread sleeps until it is interrupted; \<open>None\<close> is never returning.
\<close>

record remote_server =
  rs_open :: "string \<Rightarrow> int \<Rightarrow> unit comm_sx \<Rightarrow> unit comm_sx"
  rs_start :: "int \<Rightarrow> unit comm_sx"

record eb_args =
  bind_ip :: string
  bind_port :: int
  udp_port :: int

definition eb_defaults :: eb_args where
  "eb_defaults = \<lparr>bind_ip = ''localhost'', bind_port = 1234, udp_port = 1234\<rparr>"

partial_function (option) serve_loop :: "os \<Rightarrow> ((exn + unit) \<times> os) option" where
  "serve_loop w =
     (case sleep 100000000 w of
        (Inl e, w') \<Rightarrow> Some (Inl e, w')
      | (Inr _, w') \<Rightarrow> serve_loop w')"

definition serve :: "os \<Rightarrow> ((exn + unit) \<times> os) option" where
  "serve w =
     (case serve_loop w of
        None \<Rightarrow> None
      | Some (Inl e, w') \<Rightarrow> Some (if e = KeyboardInterrupt then Inr () else Inl e, w')
      | Some (Inr u, w') \<Rightarrow> Some (Inr u, w'))"

definition eb_main ::
    "eb_packets \<Rightarrow> remote_server \<Rightarrow> int \<Rightarrow> eb_args \<Rightarrow> os \<Rightarrow> ((exn + unit) \<times> os) option" where
  "eb_main E R tmo args w =
     (case broadcast_addr w of
        (Inl e, w1) \<Rightarrow> Some (Inl e, w1)
      | (Inr addr, w1) \<Rightarrow>
          (case sx_bind (rs_open R (bind_ip args) (bind_port args) (comm_open E True)) (\<lambda>_. rs_start R 4)
                  (w1, \<lparr>server = addr, port = udp_port args, timeout = tmo, has_socket = False, read_counter = 0\<rparr>) of
             (Inl e, w2, _) \<Rightarrow> Some (Inl e, w2)
           | (Inr _, w2, _) \<Rightarrow> serve w2))"

subsection \<open>Freshness\<close>

text \<open>The datagrams still to be received, their contents only.\<close>

fun contents :: "(int \<times> byte list \<times> string) list \<Rightarrow> byte list set" where
  "contents [] = {}"
| "contents ((d, data, addr) # ms) = insert data (contents ms)"

definition payloads :: "os \<Rightarrow> byte list set" where
  "payloads w = contents (inbox w)"

lemma recvfrom_timeout_frame:
  assumes "recvfrom_timeout t w = (r, w')"
  shows "sent w' = sent w \<and> payloads w' \<subseteq> payloads w \<and> (\<forall>data addr. r = Inr (data, addr) \<longrightarrow> data \<in> payloads w)"
  using assms
  by (auto simp: recvfrom_timeout_def payloads_def sx_defs guard_def
      split: list.splits option.splits if_splits)

lemma read_recv_frame:
  assumes "read_recv E k t w = (r, w')"
  shows "sent w' = sent w \<and> payloads w' \<subseteq> payloads w \<and>
    (\<forall>vs. r = Inr (Some vs) \<longrightarrow> (\<exists>data \<in> payloads w. ep_reply E data = Inr (k, vs)))"
  using assms
proof (induction E k t w rule: read_recv.induct)
  case (1 E k t w)
  obtain r1 w1 where rcv: "recvfrom_timeout t w = (r1, w1)" by (rule prod.exhaust)
  note frame = recvfrom_timeout_frame [OF rcv]
  consider (stop) "w' = w1" "\<forall>vs. r \<noteq> Inr (Some vs)"
    | (reply) data addr vs where "w' = w1" "r = Inr (Some vs)" "r1 = Inr (data, addr)" "ep_reply E data = Inr (k, vs)"
    | (skip) data addr where "r1 = Inr (data, addr)" "read_recv E k t w1 = (r, w')"
        "(\<exists>e. ep_reply E data = Inl e \<and> is_Exception e) \<or> (\<exists>b vs. ep_reply E data = Inr (b, vs) \<and> b \<noteq> k)"
    using 1(3) rcv
    by (subst (asm) read_recv.simps) (auto split: sum.splits if_splits prod.splits)
  then show ?case
  proof cases
    case stop
    then show ?thesis using frame by simp
  next
    case reply
    then show ?thesis using frame by auto
  next
    case skip
    from skip(3) have "sent w' = sent w1 \<and> payloads w' \<subseteq> payloads w1 \<and>
        (\<forall>vs. r = Inr (Some vs) \<longrightarrow> (\<exists>data \<in> payloads w1. ep_reply E data = Inr (k, vs)))"
    proof (elim disjE exE conjE)
      fix e assume "ep_reply E data = Inl e" "is_Exception e"
      from 1(1) [OF rcv [symmetric] skip(1) refl this skip(2)] show ?thesis .
    next
      fix b vs assume "ep_reply E data = Inr (b, vs)" "b \<noteq> k"
      from 1(2) [OF rcv [symmetric] skip(1) refl this(1) refl this(2) skip(2)] show ?thesis .
    qed
    then show ?thesis using frame by (metis subset_iff)
  qed
qed

lemma read_tries_Suc:
  "read_tries E addrs (Suc n) (w, c) =
     (let c' = c\<lparr>read_counter := read_counter c + 1\<rparr> in
      case ep_read E (read_counter c') addrs of
        Inl e \<Rightarrow> (Inl e, w, c')
      | Inr bytes \<Rightarrow>
          (case sendto bytes (server c) (port c) w of
             (Inl e, w1) \<Rightarrow> (Inl e, w1, c')
           | (Inr _, w1) \<Rightarrow>
               (case read_recv E (read_counter c') (timeout c) w1 of
                  (Inl e, w2) \<Rightarrow> (Inl e, w2, c')
                | (Inr None, w2) \<Rightarrow> read_tries E addrs n (w2, c')
                | (Inr (Some v), w2) \<Rightarrow> (Inr v, w2, c'))))"
  by (simp add: sx_bind_def mod_comm_def get_comm_def on_os_def sx_lift_def sx_return_def Let_def
      split: prod.splits sum.splits option.splits)

lemma read_tries_fresh:
  assumes "read_tries E addrs n (w, c) = (Inr vs, w', c')"
  shows "\<exists>k. 1 \<le> k \<and> k \<le> n \<and> c' = c\<lparr>read_counter := read_counter c + int k\<rparr> \<and>
    length (sent w') = length (sent w) + k \<and>
    (\<exists>data \<in> payloads w. ep_reply E data = Inr (read_counter c', vs))"
  using assms
proof (induction n arbitrary: w c)
  case (Suc n)
  let ?c = "c\<lparr>read_counter := read_counter c + 1\<rparr>"
  from Suc.prems obtain bytes w1 r w2 where send: "sendto bytes (server c) (port c) w = (Inr (), w1)"
    and rcv: "read_recv E (read_counter c + 1) (timeout c) w1 = (r, w2)"
    and got: "r = Inr None \<and> read_tries E addrs n (w2, ?c) = (Inr vs, w', c') \<or>
      r = Inr (Some vs) \<and> w' = w2 \<and> c' = ?c"
    by (auto simp: read_tries_Suc Let_def simp del: read_tries.simps
        split: prod.splits sum.splits option.splits)
  have w1: "length (sent w1) = Suc (length (sent w))" "payloads w1 = payloads w"
    using send by (auto simp: sendto_def payloads_def sx_defs guard_def split: list.splits option.splits)
  note frame = read_recv_frame [OF rcv]
  consider (again) "read_tries E addrs n (w2, ?c) = (Inr vs, w', c')"
    | (answered) "r = Inr (Some vs)" "w' = w2" "c' = ?c"
    using got by blast
  then show ?case
  proof cases
    case again
    obtain k where k: "1 \<le> k" "k \<le> n" "c' = ?c\<lparr>read_counter := read_counter ?c + int k\<rparr>"
        "length (sent w') = length (sent w2) + k" "\<exists>data \<in> payloads w2. ep_reply E data = Inr (read_counter c', vs)"
      using Suc.IH [OF again] by blast
    then have "\<exists>data \<in> payloads w. ep_reply E data = Inr (read_counter c', vs)"
      using frame w1(2) by blast
    then show ?thesis using k frame w1(1) by (intro exI [of _ "Suc k"]) auto
  next
    case answered
    then show ?thesis using frame w1 by (intro exI [of _ 1]) auto
  qed
qed (simp add: sx_raise_def)

text \<open>
  C15. A read never returns a stale answer, whatever the network delivers and whichever call raises:
  when it returns, it has sent between one and ten requests, each under a counter value of its own,
  and the words it returns are those of a received datagram that carries the last of these values,
  which is above every value used before.
\<close>

theorem read_fresh:
  assumes "comm_read E addr len burst (w, c) = (Inr v, w', c')"
  shows "\<exists>k vs. 1 \<le> k \<and> k \<le> 10 \<and> c' = c\<lparr>read_counter := read_counter c + int k\<rparr> \<and>
    length (sent w') = length (sent w) + k \<and>
    (\<exists>data \<in> payloads w. ep_reply E data = Inr (read_counter c + int k, vs)) \<and>
    v = (case len of None \<Rightarrow> Word (hd vs) | Some _ \<Rightarrow> Words vs) \<and> (len = None \<longrightarrow> vs \<noteq> [])"
proof -
  obtain vs s where r: "read_tries E (word_addrs addr (case len of None \<Rightarrow> 1 | Some n \<Rightarrow> n)) 10 (w, c) = (Inr vs, s)"
    and t: "(case len of Some _ \<Rightarrow> sx_return (Words vs)
      | None \<Rightarrow> (case vs of [] \<Rightarrow> sx_raise IndexError | v # _ \<Rightarrow> sx_return (Word v))) s = (Inr v, w', c')"
    using assms by (auto simp: comm_read_def sx_bind_Inr sx_raise_def split: if_splits)
  from t have v: "s = (w', c')" "v = (case len of None \<Rightarrow> Word (hd vs) | Some _ \<Rightarrow> Words vs)"
      "len = None \<longrightarrow> vs \<noteq> []"
    by (cases len; cases vs; simp add: sx_return_def sx_raise_def)+
  obtain k where k: "1 \<le> k" "k \<le> 10" "c' = c\<lparr>read_counter := read_counter c + int k\<rparr>"
      "length (sent w') = length (sent w) + k" "\<exists>data \<in> payloads w. ep_reply E data = Inr (read_counter c', vs)"
    using read_tries_fresh [OF r [unfolded v(1)]] by blast
  from k(5) have "\<exists>data \<in> payloads w. ep_reply E data = Inr (read_counter c + int k, vs)" by (simp add: k(3))
  with k(1-4) v(2,3) show ?thesis by blast
qed

text \<open>A small codec: a request is its counter, a reply its counter and the words.\<close>

definition demo_packets :: eb_packets where
  "demo_packets =
     \<lparr>ep_probe = Inr [0x4e, 0x6f], ep_pr = (\<lambda>data. if data = [1] then Inr 1 else Inl ValueError),
      ep_read = (\<lambda>k addrs. Inr [of_int k]),
      ep_reply = (\<lambda>data. case data of
          b # v # vs \<Rightarrow> Inr (uint b, map uint (v # vs))
        | _ \<Rightarrow> Inl IndexError)\<rparr>"

definition demo_comm :: comm where
  "demo_comm = \<lparr>server = ''192.168.1.255'', port = 1234, timeout = 1000000, has_socket = True, read_counter = 6\<rparr>"

text \<open>The echo of the first request, silence, then the late reply to it before that to the second.\<close>

definition late_os :: os where
  "late_os = blank_os\<lparr>inbox :=
     [(5, [7], ''192.168.1.10''), (1500000, [7, 1], ''192.168.1.50''), (10, [8, 2], ''192.168.1.50'')]\<rparr>"

lemma late_read:
  "\<exists>w'. comm_read demo_packets 0 None ''incr'' (late_os, demo_comm) =
     (Inr (Word 2), w', demo_comm\<lparr>read_counter := 8\<rparr>)"
proof -
  have ten: "(10 :: nat) = Suc (Suc 8)" by simp
  show ?thesis
    unfolding comm_read_def ten read_tries.simps(2)
    by (simp add: sx_bind_def mod_comm_def get_comm_def on_os_def sx_lift_def sendto_def sx_modify_def
        sx_return_def read_recv.simps recvfrom_timeout_def late_os_def blank_os_def demo_comm_def
        demo_packets_def)
qed

theorem read_fresh_witness:
  "\<exists>w' k. comm_read demo_packets 0 None ''incr'' (late_os, demo_comm) =
      (Inr (Word 2), w', demo_comm\<lparr>read_counter := 8\<rparr>) \<and> length (sent w') = length (sent late_os) + k \<and> k \<le> 10"
proof -
  obtain w' where run: "comm_read demo_packets 0 None ''incr'' (late_os, demo_comm) =
      (Inr (Word 2), w', demo_comm\<lparr>read_counter := 8\<rparr>)" using late_read by blast
  from read_fresh [OF this] run show ?thesis by blast
qed

subsection \<open>Attempts\<close>

text \<open>
  When no call raises, a request is repeated each time \<open>t\<close> passes without a datagram, so the datagram
  that comes \<open>d\<close> after the one before it is received \<open>(d - 1) div t\<close> attempts later. \<open>arrivals\<close> numbers
  the datagrams with the attempt that receives them.
\<close>

fun arrivals :: "int \<Rightarrow> nat \<Rightarrow> (int \<times> byte list \<times> string) list \<Rightarrow> (nat \<times> byte list) list" where
  "arrivals t a [] = []"
| "arrivals t a ((d, data, addr) # ms) =
     (let b = a + nat ((d - 1) div t) in (b, data) # arrivals t b ms)"

definition packets_ok :: "eb_packets \<Rightarrow> bool" where
  "packets_ok E \<longleftrightarrow>
     (\<forall>data e. ep_reply E data = Inl e \<longrightarrow> is_Exception e) \<and> (\<forall>data e. ep_pr E data = Inl e \<longrightarrow> is_Exception e) \<and>
     (\<forall>k addrs. \<exists>bytes. ep_read E k addrs = Inr bytes) \<and> (\<exists>bytes. ep_probe E = Inr bytes)"

lemma arrivals_later:
  assumes "0 < t" "t < d"
  shows "arrivals t a ((d, data, addr) # ms) = arrivals t (Suc a) ((d - t, data, addr) # ms)"
proof -
  have "(d - 1) div t = (d - t - 1) div t + 1" using assms div_add_self2 [of t "d - t - 1"] by simp
  moreover have "0 \<le> (d - t - 1) div t" using assms by (simp add: pos_imp_zdiv_nonneg_iff)
  ultimately show ?thesis by (simp add: nat_add_distrib)
qed

lemma arrivals_now: "d \<le> t \<Longrightarrow> 0 < t \<Longrightarrow> arrivals t a ((d, data, addr) # ms) = (a, data) # arrivals t a ms"
proof -
  assume "d \<le> t" "0 < t"
  then have "(d - 1) div t \<le> 0" using zdiv_mono1 [of "d - 1" "t - 1" t] by (simp add: div_pos_pos_trivial)
  then show ?thesis by simp
qed

text \<open>The first datagram among \<open>ms\<close> received by attempt \<open>m\<close> that satisfies \<open>P\<close>.\<close>

definition first_by :: "(nat \<Rightarrow> byte list \<Rightarrow> bool) \<Rightarrow> nat \<Rightarrow> (nat \<times> byte list) list \<Rightarrow> (nat \<times> byte list) option" where
  "first_by P m as = find (\<lambda>(a, data). P a data) (takeWhile (\<lambda>(a, data). a \<le> m) as)"

lemma arrivals_above: "first_by P a (arrivals t (Suc a) ms) = None"
  by (cases ms rule: contents.cases) (simp_all add: first_by_def)

lemma first_by_Cons:
  "a \<le> m \<Longrightarrow> first_by P m ((a, data) # as) = (if P a data then Some (a, data) else first_by P m as)"
  by (simp add: first_by_def)

lemma recvfrom_timeout_calm:
  "raises w = [] \<Longrightarrow> inbox w = [] \<Longrightarrow> recvfrom_timeout t w = (Inl SocketTimeout, w\<lparr>clock := clock w + t\<rparr>)"
  "raises w = [] \<Longrightarrow> inbox w = (d, data, addr) # ms \<Longrightarrow> d \<le> t \<Longrightarrow>
   recvfrom_timeout t w = (Inr (data, addr), w\<lparr>clock := clock w + max 0 d, inbox := ms\<rparr>)"
  "raises w = [] \<Longrightarrow> inbox w = (d, data, addr) # ms \<Longrightarrow> t < d \<Longrightarrow>
   recvfrom_timeout t w = (Inl SocketTimeout, w\<lparr>clock := clock w + t, inbox := (d - t, data, addr) # ms\<rparr>)"
  by (simp_all add: recvfrom_timeout_def sx_bind_def)

lemma sendto_calm: "raises w = [] \<Longrightarrow> sendto data a p w = (Inr (), w\<lparr>sent := sent w @ [(data, a, p)]\<rparr>)"
  by (simp add: sendto_def sx_bind_def sx_modify_def)

text \<open>The datagram that answers the request of attempt \<open>a\<close> of a read that started at counter \<open>k\<close>.\<close>

definition answers :: "eb_packets \<Rightarrow> int \<Rightarrow> nat \<Rightarrow> byte list \<Rightarrow> bool" where
  "answers E k a data \<longleftrightarrow> (case ep_reply E data of Inl _ \<Rightarrow> False | Inr (base, _) \<Rightarrow> base = k + int a)"

definition request :: "eb_packets \<Rightarrow> comm \<Rightarrow> int list \<Rightarrow> int \<Rightarrow> byte list \<times> string \<times> int" where
  "request E c addrs k = (projr (ep_read E k addrs), server c, port c)"

text \<open>
  A read by its arrivals: what it returns, and how many requests it makes, from \<open>a\<close> made so far and
  at most \<open>m\<close> in all.
\<close>

definition read_ref :: "eb_packets \<Rightarrow> int \<Rightarrow> nat \<Rightarrow> (nat \<times> byte list) list \<Rightarrow> (exn + int list) \<times> nat" where
  "read_ref E k m as =
     (case first_by (answers E k) m as of
        None \<Rightarrow> (Inl SocketTimeout, m)
      | Some (a, data) \<Rightarrow> (Inr (snd (projr (ep_reply E data))), a))"

definition matches_ref ::
    "eb_packets \<Rightarrow> int list \<Rightarrow> int \<Rightarrow> nat \<Rightarrow> (exn + int list) \<times> os \<times> comm \<Rightarrow> os \<Rightarrow> comm \<Rightarrow> (exn + int list) \<times> nat \<Rightarrow> bool" where
  "matches_ref E addrs k a res w c ref \<longleftrightarrow>
     (case (res, ref) of ((r, w', c'), (r', b)) \<Rightarrow>
        r = r' \<and> c' = c\<lparr>read_counter := k + int b\<rparr> \<and>
        sent w' = sent w @ map (\<lambda>j. request E c addrs (k + int j)) [Suc a..<Suc b])"

text \<open>One attempt: the first datagram that satisfies \<open>P\<close>, and the datagrams left.\<close>

fun attempt ::
    "(byte list \<Rightarrow> bool) \<Rightarrow> int \<Rightarrow> (int \<times> byte list \<times> string) list \<Rightarrow>
     byte list option \<times> (int \<times> byte list \<times> string) list" where
  "attempt P t [] = (None, [])"
| "attempt P t ((d, data, addr) # ms) =
     (if t < d then (None, (d - t, data, addr) # ms)
      else if P data then (Some data, ms)
      else attempt P t ms)"

lemma first_by_attempt:
  assumes "0 < t" "a \<le> m"
  shows "first_by P m (arrivals t a ms) =
    (case attempt (P a) t ms of
       (Some data, _) \<Rightarrow> Some (a, data)
     | (None, ms') \<Rightarrow> first_by P m (arrivals t (Suc a) ms'))"
proof (induction ms rule: contents.induct)
  case (2 d data addr ms)
  show ?case
  proof (cases "t < d")
    case True
    then show ?thesis by (simp add: arrivals_later [OF assms(1) True] del: arrivals.simps)
  next
    case False
    then show ?thesis
      using 2 assms by (simp add: arrivals_now first_by_Cons del: arrivals.simps)
  qed
qed (simp add: first_by_def)

lemma read_recv_calm:
  assumes "packets_ok E" "raises w = []" "attempt (answers E k a) t (inbox w) = (got, ms)"
  shows "\<exists>w'. read_recv E (k + int a) t w = (Inr (map_option (\<lambda>data. snd (projr (ep_reply E data))) got), w') \<and>
    raises w' = [] \<and> inbox w' = ms \<and> sent w' = sent w"
  using assms(2,3)
proof (induction "inbox w" arbitrary: w rule: contents.induct)
  case 1
  then show ?case by (auto simp: read_recv.simps recvfrom_timeout_calm)
next
  case (2 d data addr rest)
  note rcv = recvfrom_timeout_calm(2,3) [OF 2(3) 2(2) [symmetric], of t]
  let ?w = "w\<lparr>clock := clock w + max 0 d, inbox := rest\<rparr>"
  show ?case
  proof (cases "t < d \<or> answers E k a data")
    case True
    then show ?thesis
      using 2(3,4) rcv
      by (auto simp: 2(2) [symmetric] read_recv.simps answers_def split: sum.splits if_splits)
  next
    case False
    have "read_recv E (k + int a) t w = read_recv E (k + int a) t ?w"
      using False rcv(1) assms(1)
      by (auto simp: read_recv.simps [of E _ _ w] answers_def packets_ok_def split: sum.splits)
    with 2(1) [of ?w] 2(3,4) False show ?thesis by (simp add: 2(2) [symmetric])
  qed
qed

lemma arrivals_ge: "(b, data) \<in> set (arrivals t a ms) \<Longrightarrow> a \<le> b"
  by (induction t a ms rule: arrivals.induct) (auto simp: Let_def dest: le_trans [rotated])

lemma first_by_ge: "first_by P m (arrivals t a ms) = Some (b, data) \<Longrightarrow> a \<le> b"
  by (auto simp: first_by_def find_Some_iff dest!: nth_mem set_takeWhileD dest: arrivals_ge)

lemma read_ref_ge: "a \<le> m \<Longrightarrow> a \<le> snd (read_ref E k m (arrivals t (Suc a) ms))"
  by (auto simp: read_ref_def split: option.splits dest!: first_by_ge)

lemma read_tries_ref:
  assumes "packets_ok E" "0 < timeout c" "raises w = []" "read_counter c = k + int a"
  shows "matches_ref E addrs k a (read_tries E addrs n (w, c)) w c
    (read_ref E k (a + n) (arrivals (timeout c) (Suc a) (inbox w)))"
  using assms(2-4)
proof (induction n arbitrary: w c a)
  case 0
  then show ?case by (simp add: read_ref_def arrivals_above matches_ref_def sx_raise_def)
next
  case (Suc n)
  let ?k = "k + int (Suc a)" and ?t = "timeout c"
  let ?c = "c\<lparr>read_counter := ?k\<rparr>" and ?w = "w\<lparr>sent := sent w @ [request E c addrs ?k]\<rparr>"
  obtain got ms where att: "attempt (answers E k (Suc a)) ?t (inbox w) = (got, ms)" by (rule prod.exhaust)
  obtain bytes where enc: "ep_read E ?k addrs = Inr bytes"
    using assms(1) unfolding packets_ok_def by blast
  obtain w1 where rcv: "read_recv E ?k ?t ?w = (Inr (map_option (\<lambda>data. snd (projr (ep_reply E data))) got), w1)"
      and w1: "raises w1 = []" "inbox w1 = ms" "sent w1 = sent ?w"
    using read_recv_calm [OF assms(1), of ?w k "Suc a" ?t got ms] att Suc.prems(2) by auto
  have next_k: "read_counter c + 1 = ?k" using Suc.prems(3) by simp
  have step: "read_tries E addrs (Suc n) (w, c) =
      (case got of None \<Rightarrow> read_tries E addrs n (w1, ?c) | Some data \<Rightarrow> (Inr (snd (projr (ep_reply E data))), w1, ?c))"
    using enc rcv Suc.prems(2) next_k
    by (simp add: read_tries_Suc Let_def sendto_calm request_def del: read_tries.simps of_nat_Suc
        split: option.splits)
  have ref: "read_ref E k (a + Suc n) (arrivals ?t (Suc a) (inbox w)) =
      (case got of None \<Rightarrow> read_ref E k (Suc a + n) (arrivals ?t (Suc (Suc a)) ms)
       | Some data \<Rightarrow> (Inr (snd (projr (ep_reply E data))), Suc a))"
    using first_by_attempt [OF Suc.prems(1), of "Suc a" "Suc a + n" "answers E k" "inbox w"] att
    by (simp add: read_ref_def split: option.splits)
  show ?case
  proof (cases got)
    case None
    have "matches_ref E addrs k (Suc a) (read_tries E addrs n (w1, ?c)) w1 ?c
        (read_ref E k (Suc a + n) (arrivals ?t (Suc (Suc a)) ms))"
      using Suc.IH [of ?c w1 "Suc a"] Suc.prems(1) w1 by simp
    moreover have "Suc (Suc a) \<le> Suc (snd (read_ref E k (Suc a + n) (arrivals ?t (Suc (Suc a)) ms)))"
      by (simp add: read_ref_ge)
    ultimately show ?thesis
      unfolding step ref None
      by (auto simp: matches_ref_def request_def w1(3) upt_conv_Cons simp del: upt_Suc split: prod.splits)
  next
    case (Some data)
    then show ?thesis unfolding step ref by (simp add: matches_ref_def request_def w1(3))
  qed
qed

text \<open>
  C14. The read is exactly its specification: when no call raises, \<^verbatim>\<open>read\<close> returns the words of the first
  datagram that answers the attempt it arrives in, echoes, noise and late replies to earlier attempts
  skipped; it has then sent one request per attempt, each with the next counter value. When none of
  the ten attempts is answered it raises \<^verbatim>\<open>socket.timeout\<close> after exactly ten requests.
\<close>

theorem read_reference:
  assumes "packets_ok E" and "0 < timeout c" and "raises w = []" and "addrs = word_addrs addr n"
    and "read_ref E (read_counter c) 10 (arrivals (timeout c) 1 (inbox w)) = (r, b)"
  shows "\<exists>w'. comm_read E addr (Some n) ''incr'' (w, c) =
      (case r of Inl e \<Rightarrow> Inl e | Inr values \<Rightarrow> Inr (Words values), w', c\<lparr>read_counter := read_counter c + int b\<rparr>) \<and>
    sent w' = sent w @ map (\<lambda>j. request E c addrs (read_counter c + int j)) [1..<Suc b]"
proof -
  have "matches_ref E addrs (read_counter c) 0 (read_tries E addrs 10 (w, c)) w c (r, b)"
    using read_tries_ref [OF assms(1-3), of "read_counter c" 0 addrs 10] assms(5) by simp
  then obtain w' where "read_tries E addrs 10 (w, c) = (r, w', c\<lparr>read_counter := read_counter c + int b\<rparr>)"
      "sent w' = sent w @ map (\<lambda>j. request E c addrs (read_counter c + int j)) [1..<Suc b]"
    by (auto simp: matches_ref_def split: prod.splits simp del: upt_Suc)
  then show ?thesis
    using assms(4) by (auto simp: comm_read_def sx_bind_def sx_return_def split: sum.splits simp del: upt_Suc)
qed

lemma demo_packets_ok: "packets_ok demo_packets"
  by (auto simp: packets_ok_def demo_packets_def split: list.splits if_splits)

theorem read_reference_witness:
  "\<exists>w'. comm_read demo_packets 0x100 (Some 1) ''incr'' (late_os, demo_comm) =
      (Inr (Words [2]), w', demo_comm\<lparr>read_counter := 8\<rparr>) \<and>
    sent w' = [([7], ''192.168.1.255'', 1234), ([8], ''192.168.1.255'', 1234)]"
proof -
  have c: "0 < timeout demo_comm" "raises late_os = []" by (simp_all add: demo_comm_def late_os_def blank_os_def)
  have "read_ref demo_packets (read_counter demo_comm) 10 (arrivals (timeout demo_comm) 1 (inbox late_os)) =
      (Inr [2], 2)"
    by (simp add: read_ref_def first_by_def answers_def demo_comm_def late_os_def blank_os_def demo_packets_def)
  from read_reference [OF demo_packets_ok c refl this, of "0x100" 1] show ?thesis
    by (simp add: request_def demo_comm_def demo_packets_def late_os_def blank_os_def upt_rec)
qed

subsection \<open>The probe and its attempts\<close>

definition is_reply :: "eb_packets \<Rightarrow> nat \<Rightarrow> byte list \<Rightarrow> bool" where
  "is_reply E a data \<longleftrightarrow> ep_pr E data = Inr 1"

lemma probe_recv_calm:
  assumes "packets_ok E" "raises w = []" "attempt (is_reply E a) t (inbox w) = (got, ms)"
  shows "\<exists>w'. probe_recv E t w = (case got of None \<Rightarrow> Inl SocketTimeout | Some _ \<Rightarrow> Inr (), w') \<and>
    raises w' = [] \<and> inbox w' = ms \<and> sent w' = sent w"
  using assms(2,3)
proof (induction "inbox w" arbitrary: w rule: contents.induct)
  case 1
  then show ?case by (auto simp: probe_recv.simps recvfrom_timeout_calm)
next
  case (2 d data addr rest)
  note rcv = recvfrom_timeout_calm(2,3) [OF 2(3) 2(2) [symmetric], of t]
  let ?w = "w\<lparr>clock := clock w + max 0 d, inbox := rest\<rparr>"
  show ?case
  proof (cases "t < d \<or> is_reply E a data")
    case True
    then show ?thesis
      using 2(3,4) rcv
      by (auto simp: 2(2) [symmetric] probe_recv.simps is_reply_def split: sum.splits if_splits)
  next
    case False
    have "probe_recv E t w = probe_recv E t ?w"
      using False rcv(1) assms(1)
      by (auto simp: probe_recv.simps [of E _ w] is_reply_def packets_ok_def split: sum.splits)
    with 2(1) [of ?w] 2(3,4) False show ?thesis by (simp add: 2(2) [symmetric])
  qed
qed

lemma probe_tries_ref:
  assumes "packets_ok E" "0 < t" "raises w = []"
  shows "\<exists>w'. probe_tries E bytes ip prt t n w =
      (Inr (case first_by (is_reply E) (a + n) (arrivals t (Suc a) (inbox w)) of None \<Rightarrow> 0 | Some _ \<Rightarrow> 1), w') \<and>
    sent w' = sent w @ replicate
      ((case first_by (is_reply E) (a + n) (arrivals t (Suc a) (inbox w)) of None \<Rightarrow> a + n | Some (b, _) \<Rightarrow> b) - a)
      (bytes, ip, prt)"
  using assms(3)
proof (induction n arbitrary: w a)
  case 0
  then show ?case by (simp add: arrivals_above sx_return_def)
next
  case (Suc n)
  let ?w = "w\<lparr>sent := sent w @ [(bytes, ip, prt)]\<rparr>"
  obtain got ms where att: "attempt (is_reply E (Suc a)) t (inbox w) = (got, ms)" by (rule prod.exhaust)
  obtain w1 where rcv: "probe_recv E t ?w = (case got of None \<Rightarrow> Inl SocketTimeout | Some _ \<Rightarrow> Inr (), w1)"
      and w1: "raises w1 = []" "inbox w1 = ms" "sent w1 = sent ?w"
    using probe_recv_calm [OF assms(1), of ?w "Suc a" t got ms] att Suc.prems by auto
  have step: "probe_tries E bytes ip prt t (Suc n) w =
      (case got of None \<Rightarrow> probe_tries E bytes ip prt t n w1 | Some _ \<Rightarrow> (Inr 1, w1))"
    using rcv Suc.prems by (simp add: sx_catch_def sx_bind_def sendto_calm sx_return_def split: option.splits)
  have ref: "first_by (is_reply E) (a + Suc n) (arrivals t (Suc a) (inbox w)) =
      (case got of None \<Rightarrow> first_by (is_reply E) (Suc a + n) (arrivals t (Suc (Suc a)) ms)
       | Some data \<Rightarrow> Some (Suc a, data))"
    using first_by_attempt [OF assms(2), of "Suc a" "Suc a + n" "is_reply E" "inbox w"] att
    by (simp split: option.splits)
  show ?case
  proof (cases got)
    case None
    have "Suc a \<le> (case first_by (is_reply E) (Suc a + n) (arrivals t (Suc (Suc a)) ms) of
        None \<Rightarrow> Suc a + n | Some (b, _) \<Rightarrow> b)"
      by (auto split: option.splits dest!: first_by_ge)
    then show ?thesis
      using Suc.IH [OF w1(1), of "Suc a"] unfolding step ref None
      by (auto simp: w1 Suc_diff_le [symmetric] split: option.splits simp flip: replicate_Suc)
  next
    case (Some data)
    then show ?thesis unfolding step ref by (simp add: w1(3))
  qed
qed

text \<open>
  The probe is exactly its specification: when no call raises, \<^verbatim>\<open>probe\<close> returns 1 at the first
  probe reply that arrives within three attempts, having skipped its own echo and all noise and sent
  one request per attempt; otherwise it has sent exactly three, and returns 0 when \<^verbatim>\<open>loose\<close> and raises
  \<^verbatim>\<open>ConnectionRefusedError\<close> when not.
\<close>

theorem probe_reference:
  assumes "packets_ok E" and "0 < timeout c" and "raises w = []" and "ep_probe E = Inr bytes"
    and "found = first_by (is_reply E) 3 (arrivals (timeout c) 1 (inbox w))"
  shows "\<exists>w'. probe E ip prt loose (w, c) =
      (case found of Some _ \<Rightarrow> Inr 1 | None \<Rightarrow> if loose then Inr 0 else Inl ConnectionRefusedError, w', c) \<and>
    sent w' = sent w @ replicate (case found of Some (a, _) \<Rightarrow> a | None \<Rightarrow> 3) (bytes @ [0, 0, 0, 0], ip, prt)"
  using probe_tries_ref [OF assms(1-3), of "bytes @ [0, 0, 0, 0]" ip prt 3 0] assms(4,5)
  by (auto simp: probe_def sx_bind_def get_comm_def on_os_def sx_lift_def sx_return_def sx_raise_def numeral_eq_Suc
      split: option.splits)

definition answered_os :: os where
  "answered_os = blank_os\<lparr>inbox :=
     [(5, [0x4e, 0x6f], ''192.168.1.10''), (1500000, [1], ''192.168.1.50'')]\<rparr>"

theorem probe_reference_witness:
  "\<exists>w' v'. probe demo_packets ''192.168.1.255'' 1234 False (answered_os, demo_comm) = (Inr 1, w', demo_comm) \<and>
     sent w' = replicate 2 ([0x4e, 0x6f, 0, 0, 0, 0], ''192.168.1.255'', 1234) \<and>
     probe demo_packets ''192.168.1.255'' 1234 False (blank_os, demo_comm) =
       (Inl ConnectionRefusedError, v', demo_comm)"
proof -
  have c: "0 < timeout demo_comm" "raises answered_os = []" "raises blank_os = []" "ep_probe demo_packets = Inr [0x4e, 0x6f]"
    by (simp_all add: demo_comm_def answered_os_def blank_os_def demo_packets_def)
  have f: "Some (2, [1]) = first_by (is_reply demo_packets) 3 (arrivals (timeout demo_comm) 1 (inbox answered_os))"
      "None = first_by (is_reply demo_packets) 3 (arrivals (timeout demo_comm) 1 (inbox blank_os))"
    by (simp_all add: first_by_def is_reply_def demo_comm_def answered_os_def blank_os_def demo_packets_def)
  from probe_reference [OF demo_packets_ok c(1,2,4) f(1), of "''192.168.1.255''" 1234 False]
    probe_reference [OF demo_packets_ok c(1,3,4) f(2), of "''192.168.1.255''" 1234 False]
  show ?thesis by (auto simp: answered_os_def blank_os_def)
qed

subsection \<open>Serving\<close>

lemma sleep_step:
  "sleep t w = (case raises w of [] \<Rightarrow> (Inr (), w\<lparr>clock := clock w + max 0 t\<rparr>)
     | None # rs \<Rightarrow> (Inr (), w\<lparr>raises := rs, clock := clock w + max 0 t\<rparr>)
     | Some e # rs \<Rightarrow> (Inl e, w\<lparr>raises := rs\<rparr>))"
  by (auto simp: sleep_def sx_defs guard_def split: list.splits option.splits)

lemma serve_loop_raises:
  assumes "serve_loop w = Some y"
  shows "\<exists>e. Some e \<in> set (raises w)"
proof (rule serve_loop.raw_induct [OF _ assms])
  fix f w y
  assume IH: "\<And>w y. f w = Some y \<Longrightarrow> \<exists>e. Some e \<in> set (raises w)"
    and run: "(case sleep 100000000 w of (Inl e, w') \<Rightarrow> Some (Inl e, w') | (Inr _, w') \<Rightarrow> f w') = Some y"
  show "\<exists>e. Some e \<in> set (raises w)"
    using run IH [of "snd (sleep 100000000 w)" y]
    by (auto simp: sleep_step split: list.splits option.splits)
qed

lemma serve_loop_quiet:
  "raises w = replicate n None @ Some e # rs \<Longrightarrow>
   serve_loop w = Some (Inl e, w\<lparr>raises := rs, clock := clock w + 100000000 * int n\<rparr>)"
  by (induction n arbitrary: w) (simp_all add: serve_loop.simps sleep_step algebra_simps)

text \<open>
  The bridge serves until it is interrupted: the main thread returns, without an error, exactly
  when a \<^verbatim>\<open>KeyboardInterrupt\<close> is the first thing to break its sleep, after a multiple of 100 s; anything
  else that breaks it is passed on, and when nothing ever does the process never returns.
\<close>

theorem serve_until_interrupted:
  "serve w =
     (case dropWhile (\<lambda>x. x = None) (raises w) of
        Some e # rs \<Rightarrow>
          Some (if e = KeyboardInterrupt then Inr () else Inl e,
                w\<lparr>raises := rs, clock := clock w + 100000000 * int (length (takeWhile (\<lambda>x. x = None) (raises w)))\<rparr>)
      | _ \<Rightarrow> None)"
proof (cases "dropWhile (\<lambda>x. x = None) (raises w)")
  case Nil
  then have "\<forall>e. Some e \<notin> set (raises w)" by (auto simp: dropWhile_eq_Nil_conv)
  then have "serve_loop w = None" using serve_loop_raises [of w] by (cases "serve_loop w") auto
  then show ?thesis unfolding serve_def Nil by simp
next
  case (Cons x rs)
  then obtain e where x: "x = Some e" using hd_dropWhile [of "\<lambda>x. x = None" "raises w"] by fastforce
  let ?n = "length (takeWhile (\<lambda>x. x = None) (raises w))"
  have "takeWhile (\<lambda>x. x = None) (raises w) = replicate ?n None"
    by (rule replicate_eqI) (auto dest: set_takeWhileD)
  then have "raises w = replicate ?n None @ Some e # rs"
    using takeWhile_dropWhile_id [of "\<lambda>x. x = None" "raises w"] Cons x by metis
  from serve_loop_quiet [OF this] show ?thesis unfolding serve_def Cons x by simp
qed

end
