(* ===== verification/Remote_Read.thy ===== *)
theory Remote_Read
  imports Eb_Server Firmware
begin

text \<open>
  Reading the board's memory from the host, end to end: \<^verbatim>\<open>CommUDPBroadcast.read\<close> of
  \<^verbatim>\<open>src/host/b8008net/eb_server.py\<close> against the firmware's Etherbone server.

  The locale \<open>litex_codec\<close> is the interface between the two sides, the dialect of LiteX's packet
  classes that \<^verbatim>\<open>src/firmware/eb8008.c\<close> is written for: how a read request is encoded, and how the reply
  to it is decoded.
\<close>

definition read_record :: "byte \<times> byte \<Rightarrow> int \<Rightarrow> int list \<Rightarrow> eb_record" where
  "read_record fl k addrs =
     \<lparr>rec_flags = fl, write_base = 0, write_data = [], ret_addr = word_of_int k, read_addrs = map word_of_int addrs\<rparr>"

definition word_int :: "int \<Rightarrow> bool" where
  "word_int x \<longleftrightarrow> 0 \<le> x \<and> x < 2 ^ 32"

locale litex_codec =
  fixes E :: eb_packets
  assumes total: "packets_ok E"
    and read_bytes: "word_int k \<Longrightarrow> list_all word_int addrs \<Longrightarrow> length addrs < 256 \<Longrightarrow>
      \<exists>hdr fl. request_header hdr \<and> ep_read E k addrs = Inr (hdr @ record_bytes (read_record fl k addrs))"
    and reply_words: "vs \<noteq> [] \<Longrightarrow> length vs < 256 \<Longrightarrow>
      ep_reply E (header False @ reply_record (length vs) r @ words vs) = Inr (uint r, map uint vs)"
begin

text \<open>The request of a read and the reply of the server to it.\<close>

lemma read_served:
  assumes "word_int k" "list_all word_int addrs" "addrs \<noteq> []" "length addrs < 256"
    and "ep_read E k addrs = Inr req" "read_all B (map word_of_int addrs) b = (vs, b')"
  shows "\<exists>hdr rs body. request_header hdr \<and> list_all fits rs \<and> req = hdr @ concat (map record_bytes rs) @ [] \<and>
    length req = 16 + 4 * length addrs \<and> serve_records B rs b = (body, b') \<and> body \<noteq> [] \<and>
    ep_reply E (reply_bytes body) = Inr (k, map uint vs)"
proof -
  obtain hdr fl where r: "request_header hdr" "req = hdr @ record_bytes (read_record fl k addrs)"
    using read_bytes [OF assms(1,2,4)] assms(5) by auto
  let ?rs = "[read_record fl k addrs]" and ?body = "reply_record (length vs) (word_of_int k) @ words vs"
  have n: "length vs = length addrs" using read_all_length [of B "map word_of_int addrs" b] assms(6) by simp
  then have ne: "vs \<noteq> []" using assms(3) by auto
  have "serve_records B ?rs b = (?body, b')"
    using assms(3,6) by (simp add: read_record_def)
  moreover have "ep_reply E (reply_bytes ?body) = Inr (k, map uint vs)"
    using reply_words [of vs "word_of_int k"] assms(1,4) n ne
    by (auto simp: reply_bytes_def word_int_def uint_word_of_int_eq take_bit_eq_mod)
  moreover have "list_all fits ?rs" using assms(4) by (simp add: fits_def read_record_def)
  moreover have "length req = 16 + 4 * length addrs"
    using r assms(3) by (simp add: request_header_def record_bytes_def read_record_def counted_def)
  moreover have "req = hdr @ concat (map record_bytes ?rs) @ []" "?body \<noteq> []" using r(2) by simp_all
  ultimately show ?thesis using r(1) by blast
qed

end

subsection \<open>A codec\<close>

text \<open>The dialect written out.\<close>

definition probe_header :: "byte list" where
  "probe_header = [EB_MAGIC0, EB_MAGIC1, 0x10 OR EB_PF, 0x44, 0, 0, 0, 0]"

definition plain_packets :: eb_packets where
  "plain_packets =
     \<lparr>ep_probe = Inr probe_header,
      ep_pr = (\<lambda>data. if 8 \<le> length data \<and> data ! 0 = EB_MAGIC0 \<and> data ! 1 = EB_MAGIC1
        then Inr (if data ! 2 AND EB_PR \<noteq> 0 then 1 else 0) else Inl ValueError),
      ep_read = (\<lambda>k addrs. Inr (header False @ record_bytes (read_record (0, 0x0F) k addrs))),
      ep_reply = (\<lambda>data. if 16 \<le> length data \<and> 16 + 4 * unat (data ! 10) \<le> length data \<and> data ! 10 \<noteq> 0
        then Inr (uint (the (get_be32 data 12)), map (\<lambda>i. uint (the (get_be32 data (16 + 4 * i)))) [0..<unat (data ! 10)])
        else Inl ValueError)\<rparr>"

lemma get_words: "i < length vs \<Longrightarrow> get_be32 (xs @ words vs) (length xs + 4 * i) = Some (vs ! i)"
proof (induction vs arbitrary: xs i)
  case (Cons v vs)
  show ?case
  proof (cases i)
    case 0
    then show ?thesis using get_be32_app [of "length xs" xs v "words vs"] by simp
  next
    case (Suc j)
    then show ?thesis using Cons.IH [of j "xs @ be32 v"] Cons.prems by (simp add: ac_simps)
  qed
qed simp

lemma plain_reply:
  assumes "vs \<noteq> []" "length vs < 256"
  shows "ep_reply plain_packets (header False @ reply_record (length vs) r @ words vs) = Inr (uint r, map uint vs)"
proof -
  let ?xs = "header False @ reply_record (length vs) r"
  let ?data = "?xs @ words vs"
  have n: "unat (of_nat (length vs) :: byte) = length vs" using assms(2) by (simp add: unat_of_nat)
  have c: "?data ! 10 = of_nat (length vs)" by (simp add: header_def reply_record_def nth_append)
  have "get_be32 ?data 12 = Some r"
    using get_be32_app [of 12 "header False @ [0, 0x0F, of_nat (length vs), 0]" r "words vs"] by (simp add: reply_record_def)
  moreover have "map (\<lambda>i. uint (the (get_be32 ?data (16 + 4 * i)))) [0..<length vs] = map uint vs"
    using get_words [of _ vs ?xs] by (intro nth_equalityI) simp_all
  moreover have "(of_nat (length vs) :: byte) \<noteq> 0" using n assms(1) by auto
  ultimately show ?thesis using n c by (simp add: plain_packets_def)
qed

interpretation plain: litex_codec plain_packets
proof
  show "packets_ok plain_packets" by (simp add: packets_ok_def plain_packets_def)
  show "\<exists>hdr fl. request_header hdr \<and> ep_read plain_packets k addrs = Inr (hdr @ record_bytes (read_record fl k addrs))" for k addrs
    by (intro exI [of _ "header False"] exI [of _ "(0, 0x0F)"])
      (simp add: plain_packets_def request_header_def header_def EB_PF_def)
  show "ep_reply plain_packets (header False @ reply_record (length vs) r @ words vs) = Inr (uint r, map uint vs)"
    if "vs \<noteq> []" "length vs < 256" for vs r
    using that by (rule plain_reply)
qed

subsection \<open>A read of the board\<close>

lemma attempt_hit:
  "list_all (\<lambda>(d, data, a). d \<le> t \<and> \<not> P data) noise \<Longrightarrow> d \<le> t \<Longrightarrow> P data \<Longrightarrow>
   attempt P t (noise @ (d, data, a) # ms) = (Some data, ms)"
  by (induction noise) auto

lemma read_gets:
  assumes "packets_ok E" "raises w = []" "inbox w = noise @ (d, reply, from_ip) # ms"
    and "list_all (\<lambda>(d, data, a). d \<le> timeout c \<and> \<not> answers E (read_counter c) 1 data) noise" "d \<le> timeout c"
    and "ep_read E (read_counter c + 1) (word_addrs addr n) = Inr req" "ep_reply E reply = Inr (read_counter c + 1, vs)"
  shows "\<exists>w'. comm_read E addr (Some n) ''incr'' (w, c) = (Inr (Words vs), w', c\<lparr>read_counter := read_counter c + 1\<rparr>) \<and>
    sent w' = sent w @ [(req, server c, port c)] \<and> inbox w' = ms"
proof -
  let ?w = "w\<lparr>sent := sent w @ [(req, server c, port c)]\<rparr>"
  have "attempt (answers E (read_counter c) 1) (timeout c) (inbox ?w) = (Some reply, ms)"
    using assms(3-5,7) by (simp add: attempt_hit answers_def)
  from read_recv_calm [OF assms(1) _ this] assms(2,7) obtain w' where
    "read_recv E (read_counter c + 1) (timeout c) ?w = (Inr (Some vs), w')" "inbox w' = ms" "sent w' = sent ?w"
    by auto
  then have "read_tries E (word_addrs addr n) 10 (w, c) = (Inr vs, w', c\<lparr>read_counter := read_counter c + 1\<rparr>)"
    using assms(2,6) read_tries_Suc [of E "word_addrs addr n" 9 w c] by (simp add: Let_def sendto_calm)
  then have "comm_read E addr (Some n) ''incr'' (w, c) = (Inr (Words vs), w', c\<lparr>read_counter := read_counter c + 1\<rparr>)"
    by (simp add: comm_read_def sx_bind_def sx_return_def)
  then show ?thesis using \<open>inbox w' = ms\<close> \<open>sent w' = sent ?w\<close> by simp
qed

text \<open>
  C1. A read of \<open>n\<close> words of the board, end to end. When the frame with the request of \<^verbatim>\<open>CommUDPBroadcast.read\<close>
  reaches a board that serves and has no request pending, one turn of the firmware's main loop puts one frame
  on the wire, for the station that asked, whose datagram is the reply; and when that datagram reaches the
  host within its timeout, after any number of datagrams that do not answer the request, the read returns,
  after this one request, exactly the words that the board's bus gives at the addresses \<open>addr, addr + 4, \<dots>\<close>, in their order.
\<close>

theorem remote_read:
  assumes E: "litex_codec E"
    and n: "0 < n" "n < 256" "word_int (read_counter c + 1)" "list_all word_int (word_addrs addr n)"
    and board: "firmware_ok s" "\<not> eb_pending s" "rx_callback s = Some Eb_rx" "bx_callback s = Some Eb_rx"
      "read_all B (map word_of_int (word_addrs addr n)) (bus_state s) = (vs, b')"
    and station: "length (my_mac h) = 6" "\<not> list_all (\<lambda>b. b = 0) (my_mac h)"
      "cached_ip h = my_ip s \<or> cached_ip h = 0xFFFFFFFF \<or> cached_ip h = (my_ip s OR 0xff)"
    and req: "ep_read E (read_counter c + 1) (word_addrs addr n) = Inr req"
    and rx: "rx = eth_header D (my_mac h) 0x0800 @ udp_datagram h sp dp req @ R" "length D = 6" "4 * n + 58 \<le> rxlen" "rxlen \<le> ETHMAC_SLOT_SIZE"
  shows "\<exists>s' f reply. serve_polls B [Some (rx, rxlen)] s = Some s' \<and> firmware_ok s' \<and> \<not> eb_pending s' \<and> bus_state s' = b' \<and>
    wire s' = wire s @ [f] \<and> take 6 f = my_mac h \<and>
    (\<forall>(t :: ('c, 'y) udp_state_scheme) junk. process_udp (f @ junk) (length f) t =
       Some (map_option (\<lambda>cb. (cb, my_ip s, dp, sp, reply)) (receiver (my_ip h) t), t\<lparr>udp_last_src_mac := my_mac s\<rparr>)) \<and>
    (\<forall>w noise d from_ip ms. raises w = [] \<longrightarrow> inbox w = noise @ (d, reply, from_ip) # ms \<longrightarrow>
       list_all (\<lambda>(d, data, a). d \<le> timeout c \<and> \<not> answers E (read_counter c) 1 data) noise \<longrightarrow> d \<le> timeout c \<longrightarrow>
       (\<exists>w'. comm_read E addr (Some n) ''incr'' (w, c) =
            (Inr (Words (map uint vs)), w', c\<lparr>read_counter := read_counter c + 1\<rparr>) \<and>
          sent w' = sent w @ [(req, server c, port c)] \<and> inbox w' = ms))"
proof -
  have len: "length (word_addrs addr n) = n" by (simp add: word_addrs_def)
  then have "word_addrs addr n \<noteq> []" "length (word_addrs addr n) < 256" using n(1,2) by auto
  from litex_codec.read_served [OF E n(3,4) this req board(5)]
  obtain hdr rs body where r: "request_header hdr" "list_all fits rs" "req = hdr @ concat (map record_bytes rs) @ []"
      "length req = 16 + 4 * length (word_addrs addr n)" "serve_records B rs (bus_state s) = (body, b')" "body \<noteq> []"
      "ep_reply E (reply_bytes body) = Inr (read_counter c + 1, map uint vs)"
    by blast
  have "length req \<le> EB_BUF_LEN" "length req + 42 \<le> rxlen" using r(4) n(2) rx(3) len by (simp_all add: EB_BUF_LEN_def)
  from request_served [OF board(1-4) station r(1,2) _ r(3) this(1) r(5) rx(1,2) this(2) rx(4), where ?'c = 'c and ?'y = 'y] r(6)
  obtain s' f where b: "serve_polls B [Some (rx, rxlen)] s = Some s'" "firmware_ok s'" "\<not> eb_pending s'" "bus_state s' = b'"
      "wire s' = wire s @ [f]" "take 6 f = my_mac h"
      "\<forall>(t :: ('c, 'y) udp_state_scheme) junk. process_udp (f @ junk) (length f) t =
        Some (map_option (\<lambda>cb. (cb, my_ip s, dp, sp, reply_bytes body)) (receiver (my_ip h) t), t\<lparr>udp_last_src_mac := my_mac s\<rparr>)"
    by auto
  with read_gets [OF litex_codec.total [OF E] _ _ _ _ req r(7)] show ?thesis by blast
qed

text \<open>A read of two words of the board of \<open>demo_fw\<close>, whose reply comes after a datagram that is no reply.\<close>

definition read_req :: "byte list" where
  "read_req = header False @ record_bytes (read_record (0, 0x0F) 7 [16, 20])"

definition read_rx :: "byte list" where
  "read_rx = eth_header (replicate 6 0xFF) (my_mac demo_udp) 0x0800 @ udp_datagram demo_udp 1234 1234 read_req @ replicate 1982 0"

lemma demo_addrs: "word_addrs 16 2 = [16, 20]"
  by (simp add: word_addrs_def numeral_2_eq_2)

lemma demo_read_req: "ep_read plain_packets (read_counter demo_comm + 1) (word_addrs 16 2) = Inr read_req"
  by (simp add: plain_packets_def demo_addrs read_req_def demo_comm_def)

theorem remote_read_witness:
  "\<exists>s' reply. serve_polls mem_bus [Some (read_rx, 2048)] demo_fw = Some s' \<and>
    (\<forall>w. raises w = [] \<longrightarrow> inbox w = [(0, [1], ''10.0.0.9''), (0, reply, ''10.0.0.7'')] \<longrightarrow>
      (\<exists>w'. comm_read plain_packets 16 (Some 2) ''incr'' (w, demo_comm) = (Inr (Words [0, 0]), w', demo_comm\<lparr>read_counter := 7\<rparr>)))"
proof -
  have n: "0 < (2 :: nat)" "2 < (256 :: nat)" "word_int (read_counter demo_comm + 1)" "list_all word_int (word_addrs 16 2)"
    by (simp_all add: demo_addrs word_int_def demo_comm_def)
  have b: "read_all mem_bus (map word_of_int (word_addrs 16 2)) (bus_state demo_fw) = ([0, 0], \<lambda>_. 0)"
    by (simp add: demo_addrs demo_fw_sel mem_bus_def)
  have dst: "cached_ip demo_udp = my_ip demo_fw \<or> cached_ip demo_udp = 0xFFFFFFFF \<or> cached_ip demo_udp = (my_ip demo_fw OR 0xff)"
    by (simp add: demo_station)
  have len: "length (replicate 6 0xFF :: byte list) = 6" "4 * 2 + 58 \<le> (2048 :: nat)" "2048 \<le> ETHMAC_SLOT_SIZE"
    by (simp_all add: ETHMAC_SLOT_SIZE_def)
  from remote_read [OF plain.litex_codec_axioms n demo_fw_ok demo_fw_sel(2,3,4) b demo_station(1,2) dst demo_read_req read_rx_def len,
      where ?'c = unit and ?'y = unit]
  obtain s' reply where s: "serve_polls mem_bus [Some (read_rx, 2048)] demo_fw = Some s'"
    and r: "\<forall>w noise d from_ip ms. raises w = [] \<longrightarrow> inbox w = noise @ (d, reply, from_ip) # ms \<longrightarrow>
       list_all (\<lambda>(d, data, a). d \<le> timeout demo_comm \<and> \<not> answers plain_packets (read_counter demo_comm) 1 data) noise \<longrightarrow>
       d \<le> timeout demo_comm \<longrightarrow>
       (\<exists>w'. comm_read plain_packets 16 (Some 2) ''incr'' (w, demo_comm) =
            (Inr (Words (map uint [0 :: u32, 0])), w', demo_comm\<lparr>read_counter := read_counter demo_comm + 1\<rparr>) \<and>
          sent w' = sent w @ [(read_req, server demo_comm, port demo_comm)] \<and> inbox w' = ms)"
    by blast
  have "list_all (\<lambda>(d, data, a). d \<le> timeout demo_comm \<and> \<not> answers plain_packets (read_counter demo_comm) 1 data)
      [(0, [1], ''10.0.0.9'')]" "0 \<le> timeout demo_comm"
    by (simp_all add: demo_comm_def answers_def plain_packets_def)
  with r [rule_format, of _ "[(0, [1], ''10.0.0.9'')]" 0 "''10.0.0.7''" "[]"] s show ?thesis
    by (fastforce simp: demo_comm_def)
qed

end
