(* ===== verification/Crg.thy ===== *)
theory Crg
  imports Prelude
begin

text \<open>
  Clocks and resets: \<^verbatim>\<open>_CRG\<close> of \<^verbatim>\<open>src/soc/versa_soc.py\<close>.

  The module is a netlist of three clock domains that matter here: \<^verbatim>\<open>por\<close> (the board's oscillator), \<^verbatim>\<open>sys\<close>
  and \<^verbatim>\<open>b8008\<close>. Nothing is known of the phases of the clocks, so a run is any sequence of the events of
  \<open>crg_event\<close>: an edge of one of the clocks, a change of an input, a change of what the PLL's loop does.
  Between events the combinational part settles (\<open>settle\<close>).

  Migen's \<^verbatim>\<open>AsyncResetSynchronizer\<close> and the ECP5's PLL are not part of the repository. They are the
  parameter \<open>crg_parts\<close>; the locale \<open>reset_parts\<close> states what the module relies on: a reset that is
  asserted at once, without a clock, and released by the second edge of its domain's clock after the
  input is released; a PLL that is not locked while it is held in reset. \<open>ff_parts\<close> is
  the two flip-flop synchronizer, and interprets the locale.
\<close>

subsection \<open>The parts\<close>

text \<open>
  \<open>ars_async x\<close> is the synchronizer's state once its asynchronous input has the level \<open>x\<close>, \<open>ars_clk x\<close>
  that after an edge of its clock at that level, \<open>ars_rst\<close> the reset it drives. \<open>pll_lock r l\<close> is the PLL's \<^verbatim>\<open>locked\<close>
  with the input \<^verbatim>\<open>reset = r\<close> and a loop that is settled (\<open>l\<close>) or not.
\<close>

record 'r crg_parts =
  ars_rst :: "'r \<Rightarrow> bool"
  ars_async :: "bool \<Rightarrow> 'r \<Rightarrow> 'r"
  ars_clk :: "bool \<Rightarrow> 'r \<Rightarrow> 'r"
  pll_lock :: "bool \<Rightarrow> bool \<Rightarrow> bool"

locale reset_parts =
  fixes A :: "'r crg_parts"
  assumes async_assert: "ars_rst A (ars_async A True r)"
    and async_idle: "ars_async A False r = r"
    and clk_assert: "ars_rst A (ars_clk A True r)"
    and second_edge: "\<not> ars_rst A (ars_clk A False (ars_clk A False r))"
    and reset_unlocks: "\<not> pll_lock A True l"
    and locks: "pll_lock A False l = l"

text \<open>Two flip-flops that the input presets, the second one driving the reset.\<close>

definition ff_parts :: "(bool \<times> bool) crg_parts" where
  "ff_parts =
     \<lparr>ars_rst = snd, ars_async = (\<lambda>x r. if x then (True, True) else r), ars_clk = (\<lambda>x (f, g). if x then (True, True) else (False, f)),
      pll_lock = (\<lambda>r l. \<not> r \<and> l)\<rparr>"

interpretation ff: reset_parts ff_parts
  by unfold_locales (auto simp: ff_parts_def)

subsection \<open>The module\<close>

text \<open>
  The registers and inputs of the module. \<open>crg_rst\<close> and \<open>crg_reset\<close> are \<^verbatim>\<open>self.rst\<close> and \<^verbatim>\<open>self.reset\<close>; \<open>pll_loop\<close> is
  the state of the PLL's loop.
\<close>

record 'r crg =
  por_count :: "16 word"
  rst_n :: bool
  crg_rst :: bool
  crg_reset :: bool
  pll_loop :: bool
  sys_sync :: 'r
  b8008_sync :: 'r

definition por_done :: "'r crg \<Rightarrow> bool" where
  "por_done s \<longleftrightarrow> por_count s = 0"

definition pll_reset :: "'r crg \<Rightarrow> bool" where
  "pll_reset s \<longleftrightarrow> \<not> por_done s \<or> \<not> rst_n s \<or> crg_rst s"

definition pll_locked :: "'r crg_parts \<Rightarrow> 'r crg \<Rightarrow> bool" where
  "pll_locked A s = pll_lock A (pll_reset s) (pll_loop s)"

definition sys_rst :: "'r crg_parts \<Rightarrow> 'r crg \<Rightarrow> bool" where
  "sys_rst A s = ars_rst A (sys_sync s)"

definition b8008_rst :: "'r crg_parts \<Rightarrow> 'r crg \<Rightarrow> bool" where
  "b8008_rst A s = ars_rst A (b8008_sync s)"

definition sys_rst_gate :: "'r crg_parts \<Rightarrow> 'r crg \<Rightarrow> bool" where
  "sys_rst_gate A s \<longleftrightarrow> \<not> pll_locked A s \<or> crg_reset s"

definition b8008_rst_gate :: "'r crg_parts \<Rightarrow> 'r crg \<Rightarrow> bool" where
  "b8008_rst_gate A s \<longleftrightarrow> \<not> pll_locked A s \<or> crg_reset s \<or> sys_rst A s"

text \<open>The gate of \<^verbatim>\<open>cd_b8008\<close> reads the reset of \<^verbatim>\<open>cd_sys\<close>, so that one settles first.\<close>

definition settle :: "'r crg_parts \<Rightarrow> 'r crg \<Rightarrow> 'r crg" where
  "settle A s =
     (let s1 = s\<lparr>sys_sync := ars_async A (sys_rst_gate A s) (sys_sync s)\<rparr>
      in s1\<lparr>b8008_sync := ars_async A (b8008_rst_gate A s1) (b8008_sync s1)\<rparr>)"

datatype crg_event = Por_clk | Sys_clk | B8008_clk | Set_rst_n bool | Set_rst bool | Set_reset bool | Set_loop bool

fun crg_update :: "'r crg_parts \<Rightarrow> crg_event \<Rightarrow> 'r crg \<Rightarrow> 'r crg" where
  "crg_update A Por_clk s = (if \<not> por_done s then s\<lparr>por_count := por_count s - 1\<rparr> else s)"
| "crg_update A Sys_clk s = s\<lparr>sys_sync := ars_clk A (sys_rst_gate A s) (sys_sync s)\<rparr>"
| "crg_update A B8008_clk s = s\<lparr>b8008_sync := ars_clk A (b8008_rst_gate A s) (b8008_sync s)\<rparr>"
| "crg_update A (Set_rst_n b) s = s\<lparr>rst_n := b\<rparr>"
| "crg_update A (Set_rst b) s = s\<lparr>crg_rst := b\<rparr>"
| "crg_update A (Set_reset b) s = s\<lparr>crg_reset := b\<rparr>"
| "crg_update A (Set_loop b) s = s\<lparr>pll_loop := b\<rparr>"

definition crg_step :: "'r crg_parts \<Rightarrow> crg_event \<Rightarrow> 'r crg \<Rightarrow> 'r crg" where
  "crg_step A e s = settle A (crg_update A e s)"

text \<open>Power on: the counter has its reset value; the synchronizers come up in any state.\<close>

definition power_on :: "'r crg_parts \<Rightarrow> bool \<Rightarrow> bool \<Rightarrow> bool \<Rightarrow> bool \<Rightarrow> 'r \<Rightarrow> 'r \<Rightarrow> 'r crg" where
  "power_on A n r z l a b = settle A
     \<lparr>por_count = 2 ^ 16 - 1, rst_n = n, crg_rst = r, crg_reset = z, pll_loop = l, sys_sync = a, b8008_sync = b\<rparr>"

definition crg_run :: "'r crg_parts \<Rightarrow> crg_event list \<Rightarrow> 'r crg \<Rightarrow> 'r crg" where
  "crg_run A es s = fold (crg_step A) es s"

inductive crg_reachable :: "'r crg_parts \<Rightarrow> 'r crg \<Rightarrow> bool" for A where
  on: "crg_reachable A (power_on A n r z l a b)"
| step: "crg_reachable A s \<Longrightarrow> crg_reachable A (crg_step A e s)"

lemma crg_run_simps [simp]:
  "crg_run A [] s = s" "crg_run A (e # es) s = crg_run A es (crg_step A e s)" "crg_run A (es @ fs) s = crg_run A fs (crg_run A es s)"
  by (simp_all add: crg_run_def)

subsection \<open>Settled states\<close>

text \<open>What the combinational part enforces after every event.\<close>

definition settled :: "'r crg_parts \<Rightarrow> 'r crg \<Rightarrow> bool" where
  "settled A s \<longleftrightarrow> (sys_rst_gate A s \<longrightarrow> sys_rst A s) \<and> (b8008_rst_gate A s \<longrightarrow> b8008_rst A s)"

lemma settle_fields [simp]:
  "por_count (settle A s) = por_count s" "rst_n (settle A s) = rst_n s" "crg_rst (settle A s) = crg_rst s"
  "crg_reset (settle A s) = crg_reset s" "pll_loop (settle A s) = pll_loop s"
  by (simp_all add: settle_def Let_def)

lemmas crg_wires = por_done_def pll_reset_def pll_locked_def sys_rst_def b8008_rst_def sys_rst_gate_def b8008_rst_gate_def

lemma settle_sync:
  "sys_sync (settle A s) = ars_async A (sys_rst_gate A (settle A s)) (sys_sync s)"
  "b8008_sync (settle A s) = ars_async A (b8008_rst_gate A (settle A s)) (b8008_sync s)"
  by (simp_all add: settle_def crg_wires Let_def)

text \<open>The inputs of a board that may run, and runs in which only clocks tick.\<close>

definition inputs_up :: "'r crg \<Rightarrow> bool" where
  "inputs_up s \<longleftrightarrow> rst_n s \<and> \<not> crg_rst s \<and> \<not> crg_reset s \<and> pll_loop s"

fun is_clock :: "crg_event \<Rightarrow> bool" where
  "is_clock Por_clk = True" | "is_clock Sys_clk = True" | "is_clock B8008_clk = True" | "is_clock _ = False"

lemma step_por: "unat (por_count (crg_step A e s)) = unat (por_count s) - (if e = Por_clk then 1 else 0)"
  by (cases e) (auto simp: crg_step_def por_done_def unat_minus_one)

lemma run_por: "unat (por_count (crg_run A es s)) = unat (por_count s) - count_list es Por_clk"
  by (induction es arbitrary: s) (simp_all add: step_por)

lemma step_inputs: "is_clock e \<Longrightarrow> inputs_up (crg_step A e s) = inputs_up s"
  by (cases e) (simp_all add: crg_step_def inputs_up_def)

lemma run_inputs: "list_all is_clock es \<Longrightarrow> inputs_up (crg_run A es s) = inputs_up s"
  by (induction es arbitrary: s) (simp_all add: step_inputs)

lemma por_done_unat: "por_done s \<longleftrightarrow> unat (por_count s) = 0"
  by (simp add: por_done_def word_unat_eq_iff)

lemma step_done: "por_done s \<Longrightarrow> por_done (crg_step A e s)"
  using step_por [of A e s] by (simp add: por_done_unat)

context reset_parts
begin

lemma settle_settled: "settled A (settle A s)"
  by (auto simp: settled_def settle_def crg_wires async_assert Let_def)

lemma step_settled: "settled A (crg_step A e s)"
  by (simp add: crg_step_def settle_settled)

lemma reachable_settled: "crg_reachable A s \<Longrightarrow> settled A s"
  by (induction rule: crg_reachable.induct) (simp_all add: power_on_def settle_settled step_settled)

lemma locked_iff: "pll_locked A s \<longleftrightarrow> por_done s \<and> rst_n s \<and> \<not> crg_rst s \<and> pll_loop s"
  using reset_unlocks locks by (cases "pll_reset s") (auto simp: pll_locked_def pll_reset_def)

text \<open>The order of the releases.\<close>

lemma ordered:
  assumes "settled A s" "\<not> b8008_rst A s"
  shows "\<not> sys_rst A s" "pll_locked A s" "por_done s" "rst_n s" "\<not> crg_rst s" "\<not> crg_reset s"
  using assms by (auto simp: settled_def b8008_rst_gate_def locked_iff)

text \<open>A synchronizer that an event does not clock keeps its reset asserted.\<close>

lemma release_step:
  assumes "settled A s" "b8008_rst A s" "\<not> b8008_rst A (crg_step A e s)"
  shows "e = B8008_clk \<and> \<not> sys_rst A s"
proof -
  have "\<not> b8008_rst_gate A (settle A (crg_update A e s))"
    using assms(3) step_settled [of e s] by (auto simp: settled_def crg_step_def)
  then have "\<not> ars_rst A (b8008_sync (crg_update A e s))"
    using assms(3) by (simp add: crg_step_def b8008_rst_def settle_sync async_idle)
  then have "e = B8008_clk \<and> \<not> b8008_rst_gate A s"
    using assms(2) clk_assert by (cases e) (auto simp: b8008_rst_def split: if_splits)
  then show ?thesis by (simp add: b8008_rst_gate_def)
qed

text \<open>While the gate of a domain is idle, its synchronizer counts the edges of the domain's clock.\<close>

abbreviation shift :: "'r \<Rightarrow> 'r" where
  "shift \<equiv> ars_clk A False"

lemma up_step:
  assumes "inputs_up s" "por_done s" "is_clock e"
  shows "sys_sync (crg_step A e s) = (if e = Sys_clk then shift (sys_sync s) else sys_sync s)"
    and "sys_sync s = shift (shift r) \<Longrightarrow>
      b8008_sync (crg_step A e s) = (if e = B8008_clk then shift (b8008_sync s) else b8008_sync s)"
proof -
  have "inputs_up (crg_step A e s)" "por_done (crg_step A e s)" using assms by (simp_all add: step_inputs step_done)
  then have g: "\<not> sys_rst_gate A (crg_step A e s)" "\<not> sys_rst_gate A s"
    using assms(1,2) by (simp_all add: sys_rst_gate_def inputs_up_def locked_iff)
  then show sys: "sys_sync (crg_step A e s) = (if e = Sys_clk then shift (sys_sync s) else sys_sync s)"
    using assms(3) by (cases e) (simp_all add: crg_step_def settle_sync async_idle)
  show "b8008_sync (crg_step A e s) = (if e = B8008_clk then shift (b8008_sync s) else b8008_sync s)"
    if "sys_sync s = shift (shift r)"
  proof -
    have "\<not> b8008_rst_gate A (crg_step A e s)" "\<not> b8008_rst_gate A s"
      using g sys second_edge that by (simp_all add: sys_rst_gate_def b8008_rst_gate_def sys_rst_def)
    then show ?thesis using assms(3) by (cases e) (simp_all add: crg_step_def settle_sync async_idle)
  qed
qed

lemma sys_edges:
  "inputs_up s \<Longrightarrow> por_done s \<Longrightarrow> list_all is_clock es \<Longrightarrow>
   sys_sync (crg_run A es s) = (shift ^^ count_list es Sys_clk) (sys_sync s)"
  by (induction es arbitrary: s) (simp_all add: up_step(1) step_inputs step_done funpow_swap1)

lemma b8008_edges:
  "inputs_up s \<Longrightarrow> por_done s \<Longrightarrow> list_all is_clock es \<Longrightarrow> sys_sync s = shift (shift r) \<Longrightarrow>
   b8008_sync (crg_run A es s) = (shift ^^ count_list es B8008_clk) (b8008_sync s)"
proof (induction es arbitrary: s r)
  case (Cons e es)
  obtain r' where "sys_sync (crg_step A e s) = shift (shift r')"
    using Cons.prems up_step(1) [of s e] by (cases "e = Sys_clk") auto
  then show ?case
    using Cons.IH [of "crg_step A e s"] Cons.prems up_step(2) [OF Cons.prems(1,2) _ Cons.prems(4), of e]
    by (simp add: step_inputs step_done funpow_swap1)
qed simp

lemma two_edges: "2 \<le> n \<Longrightarrow> \<exists>r'. (shift ^^ n) r = shift (shift r')"
  by (auto simp: le_iff_add)

lemma held: "settled A s \<Longrightarrow> \<not> por_done s \<Longrightarrow> sys_rst A s \<and> b8008_rst A s"
  by (auto simp: settled_def sys_rst_gate_def b8008_rst_gate_def locked_iff)

lemma run_reachable: "crg_reachable A s \<Longrightarrow> crg_reachable A (crg_run A es s)"
  by (induction es arbitrary: s) (auto intro: crg_reachable.step)

lemma comes_up:
  assumes "inputs_up s" "por_done s" "list_all is_clock (es @ fs)"
    and "2 \<le> count_list es Sys_clk" "2 \<le> count_list fs B8008_clk"
  shows "\<not> sys_rst A (crg_run A (es @ fs) s)" "\<not> b8008_rst A (crg_run A (es @ fs) s)"
proof -
  let ?s = "crg_run A es s"
  obtain r where r: "sys_sync ?s = shift (shift r)"
    using sys_edges [OF assms(1,2), of es] assms(3) two_edges [OF assms(4), of "sys_sync s"] by auto
  have up: "inputs_up ?s" "por_done ?s"
    using assms(1-3) run_por [of A es s] by (simp_all add: run_inputs por_done_unat)
  obtain b where "b8008_sync (crg_run A fs ?s) = shift (shift b)"
    using b8008_edges [OF up _ r, of fs] assms(3) two_edges [OF assms(5), of "b8008_sync ?s"] by auto
  moreover obtain a where "sys_sync (crg_run A (es @ fs) s) = shift (shift a)"
    using sys_edges [OF assms(1-3)] two_edges [of "count_list (es @ fs) Sys_clk" "sys_sync s"] assms(4) by auto
  ultimately show "\<not> sys_rst A (crg_run A (es @ fs) s)" "\<not> b8008_rst A (crg_run A (es @ fs) s)"
    by (simp_all add: sys_rst_def b8008_rst_def second_edge)
qed

end

subsection \<open>The order and the end of the reset\<close>

text \<open>
  C8. The order of the resets. In every reachable state in which the 8008 is out of reset, so is the \<^verbatim>\<open>sys\<close> domain,
  the PLL is locked, the power-on counter has run out and the reset button is not pressed; in particular
  pressing the button puts both domains into reset at once. And the 8008 leaves its reset only at an
  edge of its own clock, in a state in which the \<^verbatim>\<open>sys\<close> domain was out of reset already.
\<close>

theorem reset_order:
  assumes "reset_parts A" "crg_reachable A s"
  shows "(\<not> b8008_rst A s \<longrightarrow> \<not> sys_rst A s \<and> pll_locked A s \<and> por_done s \<and> rst_n s) \<and>
    sys_rst A (crg_step A (Set_rst_n False) s) \<and> b8008_rst A (crg_step A (Set_rst_n False) s) \<and>
    (b8008_rst A s \<longrightarrow> \<not> b8008_rst A (crg_step A e s) \<longrightarrow> e = B8008_clk \<and> \<not> sys_rst A s)"
proof -
  have st: "settled A s" using assms by (rule reset_parts.reachable_settled)
  have "settled A (crg_step A (Set_rst_n False) s)" "\<not> pll_locked A (crg_step A (Set_rst_n False) s)"
    using assms(1) by (simp_all add: reset_parts.settle_settled reset_parts.locked_iff crg_step_def)
  then have "sys_rst A (crg_step A (Set_rst_n False) s) \<and> b8008_rst A (crg_step A (Set_rst_n False) s)"
    by (simp add: settled_def sys_rst_gate_def b8008_rst_gate_def)
  with reset_parts.ordered [OF assms(1) st] reset_parts.release_step [OF assms(1) st] show ?thesis by blast
qed

theorem reset_order_witness:
  "let s = crg_run ff_parts [Sys_clk, Sys_clk, B8008_clk] (power_on ff_parts True False False True (False, False) (False, False))
   in b8008_rst ff_parts s \<and> sys_rst ff_parts (crg_step ff_parts (Set_rst_n False) s)"
proof -
  let ?s = "crg_run ff_parts [Sys_clk, Sys_clk, B8008_clk] (power_on ff_parts True False False True (False, False) (False, False))"
  have "crg_reachable ff_parts ?s" by (intro ff.run_reachable crg_reachable.on)
  moreover have "\<not> por_done ?s" by (simp add: power_on_def crg_step_def por_done_def)
  ultimately show ?thesis
    using reset_order [OF ff.reset_parts_axioms, of ?s B8008_clk] unfolding Let_def by blast
qed

text \<open>
  C22. The power-on reset ends. After power on, until the 65535th edge of the oscillator and whatever else
  happens, both domains are in reset; and when the button is not pressed and the PLL's loop settles, then
  after 65535 edges of the oscillator, two of the \<^verbatim>\<open>sys\<close> clock and two of the 8008's, in any interleaving with
  further edges of any of the clocks, both are out of reset.
\<close>

theorem power_up:
  assumes "reset_parts A"
  shows "(count_list es Por_clk < 65535 \<longrightarrow>
      sys_rst A (crg_run A es (power_on A n r z l a b)) \<and> b8008_rst A (crg_run A es (power_on A n r z l a b))) \<and>
    (list_all is_clock (es @ fs @ gs) \<longrightarrow> 65535 \<le> count_list es Por_clk \<longrightarrow> 2 \<le> count_list fs Sys_clk \<longrightarrow> 2 \<le> count_list gs B8008_clk \<longrightarrow>
      \<not> sys_rst A (crg_run A (es @ fs @ gs) (power_on A True False False True a b)) \<and>
      \<not> b8008_rst A (crg_run A (es @ fs @ gs) (power_on A True False False True a b)))"
proof (intro conjI impI)
  let ?s = "crg_run A es (power_on A True False False True a b)"
  have c: "unat (por_count (power_on A n r z l a b)) = 65535" for n r z l
    by (simp add: power_on_def)
  {
    assume "count_list es Por_clk < 65535"
    then have "\<not> por_done (crg_run A es (power_on A n r z l a b))" by (simp add: por_done_unat run_por c)
    moreover have "settled A (crg_run A es (power_on A n r z l a b))"
      by (intro reset_parts.reachable_settled [OF assms] reset_parts.run_reachable [OF assms] crg_reachable.on)
    ultimately show "sys_rst A (crg_run A es (power_on A n r z l a b))" "b8008_rst A (crg_run A es (power_on A n r z l a b))"
      using reset_parts.held [OF assms] by blast+
  next
    assume h: "list_all is_clock (es @ fs @ gs)" "65535 \<le> count_list es Por_clk" "2 \<le> count_list fs Sys_clk" "2 \<le> count_list gs B8008_clk"
    have "inputs_up ?s" using h(1) by (simp add: run_inputs) (simp add: power_on_def inputs_up_def)
    moreover have "por_done ?s" using h(2) by (simp add: por_done_unat run_por c)
    ultimately show "\<not> sys_rst A (crg_run A (es @ fs @ gs) (power_on A True False False True a b))"
        "\<not> b8008_rst A (crg_run A (es @ fs @ gs) (power_on A True False False True a b))"
      using reset_parts.comes_up [OF assms, of ?s fs gs] h by simp_all
  }
qed

theorem power_up_witness:
  "let s = power_on ff_parts True False False True (False, False) (False, False)
   in sys_rst ff_parts (crg_run ff_parts (replicate 65534 Por_clk) s) \<and>
     \<not> b8008_rst ff_parts (crg_run ff_parts (replicate 65535 Por_clk @ [Sys_clk, Sys_clk] @ [B8008_clk, B8008_clk]) s)"
proof -
  have c: "count_list (replicate k Por_clk) Por_clk = k" "list_all is_clock (replicate k Por_clk)" for k
    by (induction k) simp_all
  show ?thesis
    using power_up [OF ff.reset_parts_axioms, of "replicate 65534 Por_clk" True False False True "(False, False)" "(False, False)" "[]" "[]"]
      power_up [OF ff.reset_parts_axioms, of "replicate 65535 Por_clk" True False False True "(False, False)" "(False, False)"
        "[Sys_clk, Sys_clk]" "[B8008_clk, B8008_clk]"] c [of 65534] c [of 65535]
    by (simp only: Let_def) simp
qed

end
