(* ===== verification/Rom.thy ===== *)
theory Rom
  imports Csv
begin

text \<open>
  The image of the 8008's program memory: \<^verbatim>\<open>load_mem_file\<close> of \<^verbatim>\<open>src/soc/b8008_integration.py\<close>, on top of
  Python's \<^verbatim>\<open>int(s, 16)\<close>.
\<close>

subsection \<open>Hexadecimal numbers\<close>

text \<open>
  The digits of \<^verbatim>\<open>int(s, 16)\<close>: single underscores may stand between digits. The flag says that the last
  character was a digit.
\<close>

fun hex_digits :: "nat \<Rightarrow> bool \<Rightarrow> string \<Rightarrow> nat option" where
  "hex_digits acc d [] = (if d then Some acc else None)"
| "hex_digits acc d (c # cs) =
     (if c = CHR ''_'' then (if d then hex_digits acc False cs else None)
      else case digit_val c of None \<Rightarrow> None | Some v \<Rightarrow> hex_digits (acc * 16 + v) True cs)"

text \<open>After the prefix one underscore may stand too.\<close>

definition hex_unsigned :: "string \<Rightarrow> nat option" where
  "hex_unsigned s =
     (case s of
        c # x # cs \<Rightarrow>
          if c = CHR ''0'' \<and> (x = CHR ''x'' \<or> x = CHR ''X'')
          then hex_digits 0 False (case cs of [] \<Rightarrow> [] | c' # cs' \<Rightarrow> if c' = CHR ''_'' then cs' else cs)
          else hex_digits 0 False s
      | _ \<Rightarrow> hex_digits 0 False s)"

definition int_16 :: "string \<Rightarrow> exn + int" where
  "int_16 s =
     (let t = strip s;
          r = (case t of
                 [] \<Rightarrow> None
               | c # cs \<Rightarrow>
                   if c = CHR ''-'' then map_option (\<lambda>n. - int n) (hex_unsigned cs)
                   else if c = CHR ''+'' then map_option int (hex_unsigned cs)
                   else map_option int (hex_unsigned t))
      in case r of None \<Rightarrow> Inl ValueError | Some v \<Rightarrow> Inr v)"

subsection \<open>The file\<close>

fun mem_values :: "string list \<Rightarrow> exn + int list" where
  "mem_values [] = Inr []"
| "mem_values (l # ls) =
     (if strip l = [] then mem_values ls
      else case int_16 (strip l) of
        Inl e \<Rightarrow> Inl e
      | Inr v \<Rightarrow> (case mem_values ls of Inl e \<Rightarrow> Inl e | Inr vs \<Rightarrow> Inr (v # vs)))"

definition load_mem_file :: "string \<Rightarrow> (os, int list) sx" where
  "load_mem_file path = sx_bind (read_text path) (\<lambda>t. sx_lift (mem_values (text_lines t)))"

text \<open>What the memory is initialised with: \<^verbatim>\<open>rom_init or [0] * 4096\<close>.\<close>

definition rom_contents :: "int list option \<Rightarrow> int list" where
  "rom_contents rom_init = (case rom_init of None \<Rightarrow> replicate 4096 0 | Some vs \<Rightarrow> if vs = [] then replicate 4096 0 else vs)"

subsection \<open>Reading an image back\<close>

text \<open>
  A line of an image: a byte in two hexadecimal digits or nothing, between blanks. \<open>digits\<close> are the digits
  in use, lower or upper case.
\<close>

definition hex_char :: "bool \<Rightarrow> nat \<Rightarrow> char" where
  "hex_char upper k = char_of (if k < 10 then 48 + k else if upper then 55 + k else 87 + k)"

definition hex_byte :: "bool \<Rightarrow> byte \<Rightarrow> string" where
  "hex_byte upper b = [hex_char upper (unat b div 16), hex_char upper (unat b mod 16)]"

definition blank :: "string \<Rightarrow> bool" where
  "blank s \<longleftrightarrow> list_all (\<lambda>c. c = CHR '' '' \<or> c = CHR 0x09) s"

definition mem_line :: "bool \<Rightarrow> string \<times> byte option \<times> string \<Rightarrow> string" where
  "mem_line upper = (\<lambda>(l, b, r). l @ (case b of None \<Rightarrow> [] | Some b \<Rightarrow> hex_byte upper b) @ r @ [CHR 0x0A])"

definition mem_image :: "bool \<Rightarrow> (string \<times> byte option \<times> string) list \<Rightarrow> string" where
  "mem_image upper ls = concat (map (mem_line upper) ls)"

lemma hex_char_digit: "k < 16 \<Longrightarrow> digit_val (hex_char u k) = Some k"
  by (auto simp: hex_char_def digit_val_def Let_def)

lemma hex_char_space: "k < 16 \<Longrightarrow> \<not> py_space (hex_char u k)"
  by (auto simp: hex_char_def py_space_def Let_def)

lemma hex_char_other:
  assumes "k < 16"
  shows "hex_char u k \<noteq> CHR ''_''" "hex_char u k \<noteq> CHR ''x''" "hex_char u k \<noteq> CHR ''X''" "hex_char u k \<noteq> CHR ''+''"
    "hex_char u k \<noteq> CHR ''-''" "hex_char u k \<noteq> CHR 0x0A" "hex_char u k \<noteq> CHR 0x0D"
  using hex_char_digit [OF assms, of u] by (auto simp: digit_val_def)

lemma hex_halves: "unat (b :: byte) div 16 < 16" "unat b mod 16 < 16"
  using unsigned_less [of b, where ?'a = nat] by (simp_all add: less_mult_imp_div_less)

lemma hex_byte_nonempty [simp]: "hex_byte u b \<noteq> []"
  by (simp add: hex_byte_def)

lemma strip_hex_byte: "strip (hex_byte u b) = hex_byte u b"
  by (rule strip_idle) (simp add: hex_byte_def hex_char_space hex_halves)

lemma hex_byte_value: "int_16 (hex_byte u b) = Inr (uint b)"
proof -
  have "hex_digits 0 False (hex_byte u b) = Some (unat b)"
    by (simp add: hex_byte_def hex_char_digit hex_char_other hex_halves)
  then have "hex_unsigned (hex_byte u b) = Some (unat b)"
    by (simp add: hex_unsigned_def hex_byte_def hex_char_other hex_halves)
  then show ?thesis unfolding int_16_def strip_hex_byte by (simp add: hex_byte_def hex_char_other hex_halves)
qed

lemma spaces: "py_space CHR '' ''" "py_space CHR 0x09" "py_space CHR 0x0A"
  by (simp_all add: py_space_def)

lemma blank_space: "blank s \<Longrightarrow> list_all py_space s"
  by (induction s) (auto simp: blank_def spaces)

lemma drop_spaces: "list_all py_space l \<Longrightarrow> dropWhile py_space (l @ s) = dropWhile py_space s"
  by (induction l) simp_all

lemma strip_around:
  assumes "list_all py_space l" "list_all py_space r"
  shows "strip (l @ s @ r) = strip s"
proof (cases "list_all py_space s")
  case True
  have "dropWhile py_space s = []" "dropWhile py_space r = []" using True assms by (simp_all add: list_all_iff)
  with True assms show ?thesis by (simp add: strip_def drop_spaces del: dropWhile_eq_Nil_conv)
next
  case False
  then have "dropWhile py_space (s @ r) = dropWhile py_space s @ r" by (auto simp: dropWhile_append list_all_iff)
  then show ?thesis using assms by (simp add: strip_def drop_spaces)
qed

definition mem_bytes :: "(string \<times> byte option \<times> string) list \<Rightarrow> byte list" where
  "mem_bytes ls = List.map_filter (\<lambda>(l, b, r). b) ls"

lemma mem_line_strip: "blank l \<Longrightarrow> blank r \<Longrightarrow> strip (mem_line u (l, b, r)) = (case b of None \<Rightarrow> [] | Some b \<Rightarrow> hex_byte u b)"
proof -
  assume "blank l" "blank r"
  then have "list_all py_space l" "list_all py_space (r @ [CHR 0x0A])" by (simp_all add: blank_space spaces)
  from strip_around [OF this, of "case b of None \<Rightarrow> [] | Some b \<Rightarrow> hex_byte u b"] show ?thesis
    by (cases b) (simp_all add: mem_line_def strip_hex_byte strip_def [of "[]"])
qed

lemma no_newline:
  "blank s \<Longrightarrow> CHR 0x0A \<notin> set s \<and> CHR 0x0D \<notin> set s"
  "CHR 0x0A \<notin> set (hex_byte u b) \<and> CHR 0x0D \<notin> set (hex_byte u b)"
  by (induction s) (auto simp: blank_def hex_byte_def hex_char_other [symmetric] hex_halves)

lemma mem_image_lines:
  "list_all (\<lambda>(l, b, r). blank l \<and> blank r) ls \<Longrightarrow>
   CHR 0x0D \<notin> set (mem_image u ls) \<and> text_lines (mem_image u ls) = map (mem_line u) ls"
proof (induction ls)
  case (Cons x ls)
  obtain l b r where x: "x = (l, b, r)" by (cases x)
  let ?s = "l @ (case b of None \<Rightarrow> [] | Some b \<Rightarrow> hex_byte u b) @ r"
  have "CHR 0x0A \<notin> set ?s" "CHR 0x0D \<notin> set ?s"
    using Cons.prems x no_newline by (simp_all split: option.splits)
  then show ?case
    using Cons text_lines_line [of ?s "mem_image u ls"] by (simp add: x mem_image_def mem_line_def)
qed (simp add: mem_image_def)

lemma two_bytes: "mem_values [hex_byte u a @ '' '' @ hex_byte u b] = Inl ValueError"
proof -
  let ?s = "hex_byte u a @ '' '' @ hex_byte u b"
  have "strip ?s = ?s" by (rule strip_idle) (simp add: hex_byte_def hex_char_space hex_halves)
  moreover have "hex_digits 0 False ?s = None"
    by (simp add: hex_byte_def hex_char_digit hex_char_other hex_halves) (simp add: digit_val_def)
  then have "hex_unsigned ?s = None"
    by (simp add: hex_unsigned_def hex_byte_def hex_char_other hex_halves)
  ultimately show ?thesis by (simp add: int_16_def hex_byte_def hex_char_other hex_halves)
qed

lemma load_mem_image:
  assumes "raises w = []" "files w path = Some (mem_image u ls)" "list_all (\<lambda>(l, b, r). blank l \<and> blank r) ls"
  shows "load_mem_file path w = (Inr (map uint (mem_bytes ls)), w)"
proof -
  have "mem_values (map (mem_line u) ls) = Inr (map uint (mem_bytes ls))"
    using assms(3)
  proof (induction ls)
    case (Cons x ls)
    then show ?case
      by (cases x; cases "fst (snd x)")
        (auto simp: mem_line_strip mem_bytes_def map_filter_simps hex_byte_value split: option.splits)
  qed (simp add: mem_bytes_def map_filter_simps)
  then show ?thesis
    using assms mem_image_lines [OF assms(3), of u]
    by (simp add: load_mem_file_def sx_bind_def read_text_def guard_def sx_lift_def univ_newlines_idle)
qed



end
