(* ===== verification/Soc.thy ===== *)
theory Soc
  imports Rom
begin

text \<open>
  The elaboration of the system on chip, first part: the library calls, and \<^verbatim>\<open>add_etherbone_dynamic_ip\<close> of
  \<^verbatim>\<open>src/soc/versa_soc.py\<close>, with its guards and the regions of the MAC. The target itself is the theory \<open>Base_Soc\<close>.

  Elaborating is calling LiteX, LiteEth and Migen, which are not part of the repository. The model is the
  sequence of these calls, with their arguments (\<open>soc_call\<close>): the state is the list of the calls made so
  far, next to the operating system. The library is a parameter (\<open>litex\<close>): any call may raise, depending
  on the calls before it, and the attributes that the sources read of its objects are its fields.
\<close>

subsection \<open>The library calls\<close>

type_synonym freq = nat

text \<open>An address argument: a text, or a Migen value as a function of the register it is computed from.\<close>

datatype ip_arg = Static string | Dynamic "u32 \<Rightarrow> u32"

datatype kwval = KStr string | KNum nat | KBool bool

text \<open>
  What the sources read of a PHY: the names of its clock domains, the frequencies, whether both domains have the
  same clock signal, and whether it is a simulation model. Frequencies are in hertz.
\<close>

record phy =
  eth_rx_name :: string
  eth_tx_name :: string
  rx_clk_freq :: freq
  tx_clk_freq :: freq
  one_clock :: bool
  phy_model :: bool

record soc_region =
  region_origin :: nat
  region_size :: nat
  read_only :: bool

text \<open>The arguments of \<^verbatim>\<open>add_etherbone\<close> and of its copy.\<close>

record etherbone_args =
  eb_name :: string
  eb_phy :: "phy option"
  eb_phy_cd :: "string option"
  data_width :: nat
  mac_address :: nat
  ip_address :: ip_arg
  arp_entries :: nat
  udp_port :: int
  buffer_depth :: nat
  with_ip_broadcast :: bool
  with_timing_constraints :: bool
  with_ethmac :: bool
  ethmac_address :: nat
  ethmac_local_ip :: string
  ethmac_remote_ip :: string
  with_igmp :: bool
  igmp_groups :: "string list option"
  igmp_interval :: nat

text \<open>A pad group of the platform: its name, and the sites of each of its signals.\<close>

type_synonym pads = "string \<times> (string \<times> string list) list"

record udp_core =
  core_mac :: nat
  core_ip :: ip_arg
  core_clk_freq :: freq
  core_arp_entries :: nat
  core_dw :: nat
  core_ip_broadcast :: bool
  core_sys_datapath :: bool
  core_igmp :: "bool \<times> string list option \<times> nat"
  core_interface :: string
  core_endianness :: string

text \<open>
  The calls. \<open>Add_module\<close> is \<^verbatim>\<open>add_module\<close> or the assignment of a module to an attribute; \<open>Period_of\<close> has the frequency
  whose period is declared; the messages of \<open>Log_error\<close> are without their colours and values.
\<close>

datatype soc_call =
    Log_error string
  | Check_if_exists string
  | Udp_ip_core udp_core
  | Rename_domains string string string
  | Add_module string
  | Sys_clock_domain string
  | Etherbone_core int nat string
  | Add_master string
  | Period_of string freq
  | False_path "string list"
  | Add_region string "nat option" nat
  | Add_slave string soc_region
  | Irq_add string
  | Add_constant string
  | Ip_constants string string
  | Mac_constants string nat
  | Platform string string
  | Add_extension pads
  | Request string
  | Pll_clkin string freq
  | Pll_clkout string freq bool
  | Instance_of string "(string \<times> string) list"
  | Reset_sync string
  | Soc_core freq "string \<Rightarrow> kwval option"
  | Phy_rgmii nat nat
  | Csr_storage string nat nat
  | Add_ethernet
  | Add_etherbone etherbone_args
  | Memory_of nat nat "int list"
  | Rom_port string
  | Console_bridge freq
  | Multi_reg string string string
  | Add_source string
  | Route string string
  | Builder
  | Build string

record litex =
  lib_raises :: "soc_call list \<Rightarrow> soc_call \<Rightarrow> exn option"
  bus_origin :: "soc_call list \<Rightarrow> string \<Rightarrow> nat"
  clk_freq :: "soc_call list \<Rightarrow> freq"
  rx_slots :: nat
  tx_slots :: nat
  slot_size :: nat
  cpu_endianness :: string
  mem_map_ethmac :: "nat option"
  irq_enabled :: bool
  rgmii :: phy

type_synonym 'a soc_sx = "(os \<times> soc_call list, 'a) sx"

definition lib :: "litex \<Rightarrow> soc_call \<Rightarrow> unit soc_sx" where
  "lib L c s =
     (case lib_raises L (snd s) c of
        Some e \<Rightarrow> (Inl e, s)
      | None \<Rightarrow> (Inr (), fst s, snd s @ [c]))"

primrec libs :: "litex \<Rightarrow> soc_call list \<Rightarrow> unit soc_sx" where
  "libs L [] = sx_return ()"
| "libs L (c # cs) = sx_bind (lib L c) (\<lambda>_. libs L cs)"

definition origin_of :: "litex \<Rightarrow> string \<Rightarrow> nat soc_sx" where
  "origin_of L name s = (Inr (bus_origin L (snd s) name), s)"

text \<open>The error of the SoC builder: a message in the log, then the exception.\<close>

definition soc_error :: "litex \<Rightarrow> string \<Rightarrow> 'a soc_sx" where
  "soc_error L msg = sx_bind (lib L (Log_error msg)) (\<lambda>_. sx_raise SoCError)"

subsection \<open>Etherbone with a dynamic address\<close>

definition etherbone_defaults :: etherbone_args where
  "etherbone_defaults =
     \<lparr>eb_name = ''etherbone'', eb_phy = None, eb_phy_cd = None, data_width = 8, mac_address = 0x10e2d5000000,
      ip_address = Static ''192.168.1.50'', arp_entries = 1, udp_port = 1234, buffer_depth = 16, with_ip_broadcast = True,
      with_timing_constraints = True, with_ethmac = False, ethmac_address = 0x10e2d5000001, ethmac_local_ip = ''192.168.1.51'',
      ethmac_remote_ip = ''192.168.1.100'', with_igmp = False, igmp_groups = None, igmp_interval = 10\<rparr>"

definition sys_datapath :: "etherbone_args \<Rightarrow> bool" where
  "sys_datapath a \<longleftrightarrow> data_width a = 32"

definition the_core :: "litex \<Rightarrow> etherbone_args \<Rightarrow> freq \<Rightarrow> udp_core" where
  "the_core L a f =
     \<lparr>core_mac = mac_address a, core_ip = ip_address a, core_clk_freq = f, core_arp_entries = arp_entries a, core_dw = data_width a,
      core_ip_broadcast = with_ip_broadcast a, core_sys_datapath = sys_datapath a,
      core_igmp = (with_igmp a, igmp_groups a, igmp_interval a),
      core_interface = (if with_ethmac a then ''hybrid'' else ''crossbar''),
      core_endianness = (if with_ethmac a then cpu_endianness L else ''big'')\<rparr>"

text \<open>The UDP/IP core, in the clock domains of the PHY unless its datapath is in \<^verbatim>\<open>sys\<close>.\<close>

definition etherbone_core :: "litex \<Rightarrow> etherbone_args \<Rightarrow> phy \<Rightarrow> unit soc_sx" where
  "etherbone_core L a p =
     sx_bind (lib L (Check_if_exists (eb_name a @ ''_ethcore''))) (\<lambda>_.
       sx_bind (\<lambda>s. lib L (Udp_ip_core (the_core L a (clk_freq L (snd s)))) s) (\<lambda>_.
         sx_bind
           (if sys_datapath a then sx_return ()
            else let tx = (case eb_phy_cd a of None \<Rightarrow> eth_tx_name p | Some cd \<Rightarrow> cd @ ''_tx'');
                     rx = (case eb_phy_cd a of None \<Rightarrow> eth_rx_name p | Some cd \<Rightarrow> cd @ ''_rx'')
                 in lib L (Rename_domains tx rx (if with_ethmac a then ''sys'' else rx)))
           (\<lambda>_. lib L (Add_module (''ethcore_'' @ eb_name a)))))"

definition etherbone_frontend :: "litex \<Rightarrow> etherbone_args \<Rightarrow> unit soc_sx" where
  "etherbone_frontend L a =
     sx_bind (if sys_datapath a then sx_return () else lib L (Sys_clock_domain (eb_name a))) (\<lambda>_.
       libs L
         [Check_if_exists (eb_name a),
          Etherbone_core (udp_port a) (buffer_depth a) (if sys_datapath a then ''sys'' else eb_name a),
          Add_module (eb_name a),
          Add_master (eb_name a)])"

definition etherbone_timing :: "litex \<Rightarrow> etherbone_args \<Rightarrow> phy \<Rightarrow> unit soc_sx" where
  "etherbone_timing L a p =
     (if \<not> with_timing_constraints a \<or> phy_model p then sx_return ()
      else sx_bind (lib L (Period_of (eth_rx_name p) (rx_clk_freq p))) (\<lambda>_.
        if \<not> one_clock p
        then libs L [Period_of (eth_tx_name p) (tx_clk_freq p), False_path [''sys'', eth_rx_name p, eth_tx_name p]]
        else lib L (False_path [''sys'', eth_rx_name p])))"

definition same_ip :: "ip_arg \<Rightarrow> string \<Rightarrow> bool" where
  "same_ip ip local = (case ip of Static s \<Rightarrow> s = local | Dynamic _ \<Rightarrow> False)"

text \<open>The CPU's side of the MAC: its receive slots, read-only, then its transmit slots.\<close>

definition ethmac_regions :: "litex \<Rightarrow> unit soc_sx" where
  "ethmac_regions L =
     (let rx = rx_slots L * slot_size L; tx = tx_slots L * slot_size L in
      sx_bind (lib L (Add_region ''ethmac'' (mem_map_ethmac L) (rx + tx))) (\<lambda>_.
        sx_bind (origin_of L ''ethmac'') (\<lambda>o1.
          sx_bind (lib L (Add_slave ''ethmac_rx'' \<lparr>region_origin = o1 + 0, region_size = rx, read_only = True\<rparr>)) (\<lambda>_.
            sx_bind (origin_of L ''ethmac'') (\<lambda>o2.
              lib L (Add_slave ''ethmac_tx'' \<lparr>region_origin = o2 + rx, region_size = tx, read_only = False\<rparr>))))))"

definition etherbone_ethmac :: "litex \<Rightarrow> etherbone_args \<Rightarrow> unit soc_sx" where
  "etherbone_ethmac L a =
     (if mac_address a = ethmac_address a then soc_error L ''Etherbone mac_address and ethmac_address must differ.''
      else if same_ip (ip_address a) (ethmac_local_ip a) then soc_error L ''Etherbone ip_address and ethmac_local_ip must differ.''
      else sx_bind (lib L (Check_if_exists ''ethmac'')) (\<lambda>_.
        sx_bind (ethmac_regions L) (\<lambda>_.
          sx_bind (if irq_enabled L then lib L (Irq_add ''ethmac'') else sx_return ()) (\<lambda>_.
            libs L
              [Add_constant ''ETH_PHY_NO_RESET'',
               Ip_constants ''LOCALIP'' (ethmac_local_ip a),
               Ip_constants ''REMOTEIP'' (ethmac_remote_ip a),
               Mac_constants ''MACADDR'' (ethmac_address a)]))))"

definition add_etherbone_dynamic_ip :: "litex \<Rightarrow> etherbone_args \<Rightarrow> unit soc_sx" where
  "add_etherbone_dynamic_ip L a =
     (case eb_phy a of
        None \<Rightarrow> soc_error L ''Etherbone requires phy.''
      | Some p \<Rightarrow>
          if data_width a \<notin> {8, 32, 64} then soc_error L ''Etherbone data_width: must be 8, 32 or 64.''
          else sx_bind (etherbone_core L a p) (\<lambda>_.
            sx_bind (etherbone_frontend L a) (\<lambda>_.
              sx_bind (etherbone_timing L a p) (\<lambda>_.
                if with_ethmac a then etherbone_ethmac L a else sx_return ()))))"

subsection \<open>What a completed elaboration has called\<close>

lemma lib_Inr: "lib L c s = (Inr x, s') \<longleftrightarrow> lib_raises L (snd s) c = None \<and> s' = (fst s, snd s @ [c])"
  by (auto simp: lib_def split: option.splits)

text \<open>The calls made so far, counted by a weight, and a computation that adds \<open>n\<close> to the count when it completes.\<close>

definition tally :: "(soc_call \<Rightarrow> nat) \<Rightarrow> soc_call list \<Rightarrow> nat" where
  "tally f cs = sum_list (map f cs)"

definition adds :: "(soc_call \<Rightarrow> nat) \<Rightarrow> nat \<Rightarrow> 'a soc_sx \<Rightarrow> bool" where
  "adds f n m \<longleftrightarrow> (\<forall>s x s'. m s = (Inr x, s') \<longrightarrow> fst s' = fst s \<and> tally f (snd s') = tally f (snd s) + n)"

lemma adds_return: "adds f 0 (sx_return x)"
  by (simp add: adds_def)

lemma adds_lib: "f c = n \<Longrightarrow> adds f n (lib L c)"
  by (auto simp: adds_def lib_Inr tally_def)

lemma adds_bind: "adds f a m \<Longrightarrow> (\<And>x. adds f b (g x)) \<Longrightarrow> adds f (a + b) (sx_bind m g)"
  unfolding adds_def by (fastforce simp: sx_bind_def split: prod.splits sum.splits)

lemmas adds_first = adds_bind [where b = 0, simplified]
lemmas adds_second = adds_bind [where a = 0, simplified]

lemma adds_libs: "tally f cs = n \<Longrightarrow> adds f n (libs L cs)"
proof (induction cs arbitrary: n)
  case (Cons c cs)
  then show ?case using adds_bind [OF adds_lib [OF refl], of f "tally f cs" "\<lambda>_. libs L cs" c L] by (simp add: tally_def)
qed (simp add: adds_return tally_def)

lemma adds_error: "adds f n (soc_error L msg)"
  by (auto simp: adds_def soc_error_def sx_bind_def split: prod.splits sum.splits)

lemma adds_origin: "adds f 0 (origin_of L name)"
  by (simp add: adds_def origin_of_def)

lemma tally_zero: "tally f cs = 0 \<longleftrightarrow> list_all (\<lambda>c. f c = 0) cs"
  by (auto simp: tally_def list_all_iff)

text \<open>The calls of \<^verbatim>\<open>add_etherbone_dynamic_ip\<close> other than the core itself.\<close>

fun eb_call :: "soc_call \<Rightarrow> bool" where
  "eb_call (Check_if_exists n) = True"
| "eb_call (Rename_domains t r s) = True"
| "eb_call (Add_module n) = True"
| "eb_call (Sys_clock_domain n) = True"
| "eb_call (Etherbone_core p d cd) = True"
| "eb_call (Add_master n) = True"
| "eb_call (Period_of n f) = True"
| "eb_call (False_path ds) = True"
| "eb_call (Add_region n org k) = True"
| "eb_call (Add_slave n r) = True"
| "eb_call (Irq_add n) = True"
| "eb_call (Add_constant n) = True"
| "eb_call (Ip_constants n v) = True"
| "eb_call (Mac_constants n v) = True"
| "eb_call _ = False"

lemma etherbone_adds:
  assumes "\<And>c. eb_call c \<Longrightarrow> f c = 0" "\<And>k. f (Udp_ip_core (the_core L a k)) = n"
  shows "adds f n (add_etherbone_dynamic_ip L a)"
proof -
  have z: "adds f 0 (lib L c)" if "eb_call c" for c using assms(1) [OF that] by (rule adds_lib)
  have zs: "adds f 0 (libs L cs)" if "list_all eb_call cs" for cs
    using that assms(1) by (intro adds_libs) (auto simp: tally_zero list_all_iff)
  have u: "adds f n (\<lambda>s. lib L (Udp_ip_core (the_core L a (clk_freq L (snd s)))) s)"
    using assms(2) by (auto simp: adds_def lib_Inr tally_def)
  have "adds f n (etherbone_core L a p)" for p
    unfolding etherbone_core_def by (intro adds_second [OF z] adds_first [OF u] adds_second [where b = 0]) (auto simp: z adds_return Let_def)
  moreover have "adds f 0 (etherbone_frontend L a)"
    unfolding etherbone_frontend_def by (intro adds_second zs) (auto simp: z adds_return)
  moreover have "adds f 0 (etherbone_timing L a p)" for p
    unfolding etherbone_timing_def by (auto simp del: libs.simps intro!: adds_second z zs adds_return)
  moreover have "adds f 0 (etherbone_ethmac L a)"
    unfolding etherbone_ethmac_def ethmac_regions_def Let_def
    by (auto simp del: libs.simps intro!: adds_second z zs adds_return adds_origin adds_error)
  ultimately show ?thesis
    unfolding add_etherbone_dynamic_ip_def
    by (auto intro!: adds_error adds_first adds_return split: option.split)
qed

text \<open>A computation over a library that never raises.\<close>

definition quiet_litex :: "litex \<Rightarrow> bool" where
  "quiet_litex L \<longleftrightarrow> (\<forall>cs c. lib_raises L cs c = None)"

definition completes :: "'a soc_sx \<Rightarrow> bool" where
  "completes m \<longleftrightarrow> (\<forall>s. \<exists>x cs. m s = (Inr x, fst s, snd s @ cs))"

lemma completes_unit: "completes m \<Longrightarrow> \<exists>cs. m s = (Inr (), fst s, snd s @ cs)"
  unfolding completes_def by (metis old.unit.exhaust)

lemma completes_bind:
  assumes "completes m" "\<And>x. completes (f x)"
  shows "completes (sx_bind m f)"
  unfolding completes_def
proof
  fix s
  obtain x cs where m: "m s = (Inr x, fst s, snd s @ cs)" using assms(1) unfolding completes_def by blast
  obtain y ds where "f x (fst s, snd s @ cs) = (Inr y, fst s, snd s @ cs @ ds)"
    using assms(2) [of x] unfolding completes_def by (metis append.assoc fst_conv snd_conv)
  with m show "\<exists>y cs. sx_bind m f s = (Inr y, fst s, snd s @ cs)" by (auto simp: sx_bind_def)
qed

lemma completes_return: "completes (sx_return x)"
  by (simp add: completes_def)

lemma completes_lib: "quiet_litex L \<Longrightarrow> completes (lib L c)"
  by (simp add: completes_def lib_def quiet_litex_def)

lemma completes_libs: "quiet_litex L \<Longrightarrow> completes (libs L cs)"
  by (induction cs) (simp_all add: completes_return completes_bind completes_lib)

lemma completes_origin: "completes (origin_of L name)"
  by (simp add: completes_def origin_of_def)

lemmas completes_rules = completes_return completes_lib completes_libs completes_origin completes_bind

subsection \<open>Which arguments are accepted\<close>

definition etherbone_valid :: "etherbone_args \<Rightarrow> bool" where
  "etherbone_valid a \<longleftrightarrow> eb_phy a \<noteq> None \<and> data_width a \<in> {8, 32, 64} \<and>
     (with_ethmac a \<longrightarrow> mac_address a \<noteq> ethmac_address a \<and> \<not> same_ip (ip_address a) (ethmac_local_ip a))"

lemma soc_error_raises: "fst (soc_error L msg s) \<noteq> Inr x"
  by (auto simp: soc_error_def sx_bind_def sx_raise_def split: prod.splits sum.splits)

lemma soc_error_never: "soc_error L msg s = (Inr x, s') \<Longrightarrow> False"
  using soc_error_raises [of L msg s x] by simp

lemma soc_error_quiet: "quiet_litex L \<Longrightarrow> soc_error L msg s = (Inl SoCError, fst s, snd s @ [Log_error msg])"
  by (simp add: soc_error_def sx_bind_def sx_raise_def lib_def quiet_litex_def)

lemma ethmac_completes:
  "quiet_litex L \<Longrightarrow> mac_address a \<noteq> ethmac_address a \<Longrightarrow> \<not> same_ip (ip_address a) (ethmac_local_ip a) \<Longrightarrow>
   completes (etherbone_ethmac L a)"
  by (simp add: etherbone_ethmac_def ethmac_regions_def Let_def completes_rules)

lemma udp_core_completes: "quiet_litex L \<Longrightarrow> completes (\<lambda>s. lib L (Udp_ip_core (the_core L a (clk_freq L (snd s)))) s)"
  by (simp add: completes_def lib_def quiet_litex_def)

text \<open>The part before the CPU's MAC.\<close>

definition etherbone_stack :: "litex \<Rightarrow> etherbone_args \<Rightarrow> phy \<Rightarrow> unit soc_sx" where
  "etherbone_stack L a p = sx_bind (etherbone_core L a p) (\<lambda>_. sx_bind (etherbone_frontend L a) (\<lambda>_. etherbone_timing L a p))"

lemma stack_completes: "quiet_litex L \<Longrightarrow> completes (etherbone_stack L a p)"
  by (simp add: etherbone_stack_def etherbone_core_def etherbone_frontend_def etherbone_timing_def Let_def completes_rules udp_core_completes)

lemma etherbone_phases:
  "eb_phy a = Some p \<Longrightarrow> data_width a \<in> {8, 32, 64} \<Longrightarrow>
   add_etherbone_dynamic_ip L a = sx_bind (etherbone_stack L a p) (\<lambda>_. if with_ethmac a then etherbone_ethmac L a else sx_return ())"
  by (simp add: add_etherbone_dynamic_ip_def etherbone_stack_def sx_bind_assoc)

lemma etherbone_completes:
  assumes "quiet_litex L" "etherbone_valid a"
  shows "completes (add_etherbone_dynamic_ip L a)"
proof -
  obtain p where p: "eb_phy a = Some p" "data_width a \<in> {8, 32, 64}" using assms(2) by (auto simp: etherbone_valid_def)
  have "completes (if with_ethmac a then etherbone_ethmac L a else sx_return ())"
    using assms by (simp add: etherbone_valid_def ethmac_completes completes_return)
  then show ?thesis unfolding etherbone_phases [OF p] by (intro completes_bind stack_completes assms(1))
qed

lemma etherbone_refused: "\<not> etherbone_valid a \<Longrightarrow> add_etherbone_dynamic_ip L a s = (Inr x, s') \<Longrightarrow> False"
  by (auto simp: add_etherbone_dynamic_ip_def etherbone_valid_def etherbone_ethmac_def sx_bind_def [of _ "\<lambda>_. sx_bind _ _"]
      sx_bind_def [of _ "\<lambda>_. if _ then _ else _"] dest!: soc_error_never split: option.splits prod.splits sum.splits if_splits)

lemma etherbone_rejects:
  assumes "quiet_litex L" "\<not> etherbone_valid a"
  shows "\<exists>cs msg. add_etherbone_dynamic_ip L a s = (Inl SoCError, fst s, snd s @ cs @ [Log_error msg]) \<and>
    (eb_phy a = None \<or> data_width a \<notin> {8, 32, 64} \<longrightarrow> cs = [])"
proof (cases "\<exists>p. eb_phy a = Some p \<and> data_width a \<in> {8, 32, 64}")
  case True
  then obtain p where p: "eb_phy a = Some p" "data_width a \<in> {8, 32, 64}" by blast
  then have "with_ethmac a" "mac_address a = ethmac_address a \<or> same_ip (ip_address a) (ethmac_local_ip a)"
    using assms(2) by (auto simp: etherbone_valid_def)
  then obtain msg where "etherbone_ethmac L a = soc_error L msg" "with_ethmac a"
    by (cases "mac_address a = ethmac_address a") (simp_all add: etherbone_ethmac_def)
  moreover obtain cs where "etherbone_stack L a p s = (Inr (), fst s, snd s @ cs)"
    using completes_unit [OF stack_completes [OF assms(1)]] by blast
  ultimately show ?thesis using p assms(1) by (auto simp: etherbone_phases [OF p] sx_bind_def soc_error_quiet)
next
  case False
  then obtain msg where "add_etherbone_dynamic_ip L a = soc_error L msg"
    by (cases "eb_phy a") (auto simp: add_etherbone_dynamic_ip_def)
  then show ?thesis using assms(1) by (auto simp: soc_error_quiet)
qed

text \<open>
  C39. The guards of \<^verbatim>\<open>add_etherbone_dynamic_ip\<close>. Over any library, a call that returns had a PHY, a data width of 8, 32
  or 64 and, with the CPU's MAC, two different hardware addresses and not the CPU's address as a static one; over a
  library that does not raise the call returns for all these arguments, and for all others it
  raises a \<^verbatim>\<open>SoCError\<close>, after logging an error, and before any call at all when there is no PHY or the width is wrong.
\<close>

theorem etherbone_guards:
  "(fst (add_etherbone_dynamic_ip L a s) = Inr () \<longrightarrow> etherbone_valid a) \<and>
   (quiet_litex L \<longrightarrow>
      (if etherbone_valid a then \<exists>cs. add_etherbone_dynamic_ip L a s = (Inr (), fst s, snd s @ cs)
       else \<exists>cs msg. add_etherbone_dynamic_ip L a s = (Inl SoCError, fst s, snd s @ cs @ [Log_error msg]) \<and>
         (eb_phy a = None \<or> data_width a \<notin> {8, 32, 64} \<longrightarrow> cs = [])))"
proof -
  have "etherbone_valid a" if "fst (add_etherbone_dynamic_ip L a s) = Inr ()"
    using that etherbone_refused [of a L s "()"] by (metis prod.collapse)
  then show ?thesis
    using completes_unit [OF etherbone_completes, of L a s] etherbone_rejects [of L a s] by auto
qed

text \<open>A library that does nothing, and a PHY.\<close>

definition idle_phy :: phy where
  "idle_phy = \<lparr>eth_rx_name = ''eth_rx'', eth_tx_name = ''eth_tx'', rx_clk_freq = 125000000, tx_clk_freq = 125000000,
     one_clock = False, phy_model = False\<rparr>"

definition idle_litex :: litex where
  "idle_litex = \<lparr>lib_raises = (\<lambda>_ _. None), bus_origin = (\<lambda>_ _. 0x80000000), clk_freq = (\<lambda>_. 60000000), rx_slots = 2, tx_slots = 2,
     slot_size = 2048, cpu_endianness = ''little'', mem_map_ethmac = None, irq_enabled = True, rgmii = idle_phy\<rparr>"

lemma idle_litex_quiet: "quiet_litex idle_litex"
  by (simp add: quiet_litex_def idle_litex_def)

theorem etherbone_guards_witness:
  "fst (add_etherbone_dynamic_ip idle_litex (etherbone_defaults\<lparr>eb_phy := Some idle_phy, with_ethmac := True\<rparr>) (blank_os, [])) = Inr () \<and>
   fst (add_etherbone_dynamic_ip idle_litex (etherbone_defaults\<lparr>eb_phy := Some idle_phy, with_ethmac := True, ethmac_local_ip := ''192.168.1.50''\<rparr>) (blank_os, []))
     = Inl SoCError"
proof -
  let ?a = "etherbone_defaults\<lparr>eb_phy := Some idle_phy, with_ethmac := True\<rparr>"
  have "etherbone_valid ?a" "\<not> etherbone_valid (?a\<lparr>ethmac_local_ip := ''192.168.1.50''\<rparr>)"
    by (simp_all add: etherbone_valid_def etherbone_defaults_def same_ip_def)
  then show ?thesis
    using etherbone_guards [of idle_litex ?a "(blank_os, [])"] etherbone_guards [of idle_litex "?a\<lparr>ethmac_local_ip := ''192.168.1.50''\<rparr>" "(blank_os, [])"]
      idle_litex_quiet by auto
qed

subsection \<open>The slots of the MAC\<close>

text \<open>Where the firmware finds its slots, from the base address of the region and the constants of the SoC.\<close>

definition rx_slot_addr :: "litex \<Rightarrow> nat \<Rightarrow> nat \<Rightarrow> nat" where
  "rx_slot_addr L base i = base + slot_size L * i"

definition tx_slot_addr :: "litex \<Rightarrow> nat \<Rightarrow> nat \<Rightarrow> nat" where
  "tx_slot_addr L base i = base + slot_size L * (rx_slots L + i)"

definition in_region :: "soc_region \<Rightarrow> nat \<Rightarrow> nat \<Rightarrow> bool" where
  "in_region r a n \<longleftrightarrow> region_origin r \<le> a \<and> a + n \<le> region_origin r + region_size r"

definition extends :: "'a soc_sx \<Rightarrow> bool" where
  "extends m \<longleftrightarrow> (\<forall>s. \<exists>cs. snd (snd (m s)) = snd s @ cs)"

lemma extends_bind:
  assumes "extends m" "\<And>x. extends (f x)"
  shows "extends (sx_bind m f)"
  unfolding extends_def
proof
  fix s
  obtain r w cs where m: "m s = (r, w, snd s @ cs)" using assms(1) unfolding extends_def by (metis prod.collapse)
  show "\<exists>cs. snd (snd (sx_bind m f s)) = snd s @ cs"
  proof (cases r)
    case (Inr x)
    obtain ds where "snd (snd (f x (w, snd s @ cs))) = snd s @ cs @ ds"
      using assms(2) [of x] unfolding extends_def by (metis append.assoc snd_conv)
    with m Inr show ?thesis by (simp add: sx_bind_def)
  qed (simp add: m sx_bind_def)
qed

lemma extends_return: "extends (sx_return x)"
  by (simp add: extends_def sx_return_def)

lemma extends_lib: "extends (lib L c)"
  by (auto simp: extends_def lib_def split: option.splits)

lemma extends_libs: "extends (libs L cs)"
  by (induction cs) (simp_all add: extends_return extends_bind extends_lib)

text \<open>The documented law of the bus: the origin of a region that has been added does not change any more.\<close>

definition stable_origin :: "litex \<Rightarrow> bool" where
  "stable_origin L \<longleftrightarrow>
     (\<forall>cs ds org n. Add_region ''ethmac'' org n \<in> set cs \<longrightarrow> bus_origin L (cs @ ds) ''ethmac'' = bus_origin L cs ''ethmac'')"

definition rx_region :: "litex \<Rightarrow> nat \<Rightarrow> soc_region" where
  "rx_region L base = \<lparr>region_origin = base, region_size = rx_slots L * slot_size L, read_only = True\<rparr>"

definition tx_region :: "litex \<Rightarrow> nat \<Rightarrow> soc_region" where
  "tx_region L base = \<lparr>region_origin = base + rx_slots L * slot_size L, region_size = tx_slots L * slot_size L, read_only = False\<rparr>"

definition mac_region :: "litex \<Rightarrow> soc_call" where
  "mac_region L = Add_region ''ethmac'' (mem_map_ethmac L) (rx_slots L * slot_size L + tx_slots L * slot_size L)"

lemma origin_kept:
  assumes "stable_origin L"
  shows "bus_origin L (cs @ mac_region L # ds) ''ethmac'' = bus_origin L (cs @ [mac_region L]) ''ethmac''"
proof -
  have "Add_region ''ethmac'' (mem_map_ethmac L) (rx_slots L * slot_size L + tx_slots L * slot_size L) \<in> set (cs @ [mac_region L])"
    by (simp add: mac_region_def)
  then have "bus_origin L ((cs @ [mac_region L]) @ ds) ''ethmac'' = bus_origin L (cs @ [mac_region L]) ''ethmac''"
    using assms unfolding stable_origin_def by blast
  then show ?thesis by simp
qed

lemma regions_added:
  assumes "stable_origin L" "ethmac_regions L s = (Inr (), s')"
  defines "base \<equiv> bus_origin L (snd s @ [mac_region L]) ''ethmac''"
  shows "snd s' = snd s @ [mac_region L, Add_slave ''ethmac_rx'' (rx_region L base), Add_slave ''ethmac_tx'' (tx_region L base)]"
proof -
  have "bus_origin L (snd s @ [mac_region L, c]) ''ethmac'' = base" for c
    unfolding base_def by (rule origin_kept [OF assms(1)])
  moreover have "bus_origin L (snd s @ [mac_region L]) ''ethmac'' = base" by (simp add: base_def)
  ultimately show ?thesis using assms(2)
    unfolding ethmac_regions_def Let_def mac_region_def [symmetric]
    by (auto simp: sx_bind_def lib_Inr lib_def origin_of_def rx_region_def tx_region_def split: prod.splits sum.splits option.splits)
qed

definition ethmac_constants :: "litex \<Rightarrow> etherbone_args \<Rightarrow> unit soc_sx" where
  "ethmac_constants L a = sx_bind (if irq_enabled L then lib L (Irq_add ''ethmac'') else sx_return ()) (\<lambda>_.
     libs L [Add_constant ''ETH_PHY_NO_RESET'', Ip_constants ''LOCALIP'' (ethmac_local_ip a), Ip_constants ''REMOTEIP'' (ethmac_remote_ip a),
       Mac_constants ''MACADDR'' (ethmac_address a)])"

lemma ethmac_calls:
  assumes "etherbone_ethmac L a t = (Inr (), s')"
  shows "\<exists>u v. ethmac_regions L u = (Inr (), v) \<and> (\<exists>cs. snd s' = snd v @ cs)"
proof -
  have "\<not> (mac_address a = ethmac_address a \<or> same_ip (ip_address a) (ethmac_local_ip a))"
    using assms by (auto simp: etherbone_ethmac_def dest: soc_error_never split: if_splits)
  then have "sx_bind (lib L (Check_if_exists ''ethmac'')) (\<lambda>_. sx_bind (ethmac_regions L) (\<lambda>_. ethmac_constants L a)) t = (Inr (), s')"
    using assms by (simp add: etherbone_ethmac_def ethmac_constants_def)
  then obtain u v where u: "ethmac_regions L u = (Inr (), v)" "ethmac_constants L a v = (Inr (), s')"
    by (auto simp: sx_bind_def split: prod.splits sum.splits)
  moreover have "extends (ethmac_constants L a)"
    unfolding ethmac_constants_def by (intro extends_bind extends_libs) (simp_all add: extends_lib extends_return)
  ultimately show ?thesis unfolding extends_def by (metis snd_conv)
qed

text \<open>
  C23. The firmware's buffers are the hardware's. After \<^verbatim>\<open>add_etherbone_dynamic_ip\<close> with the CPU's MAC has returned, the bus has
  two slaves that cover the MAC's region without overlap, a read-only one and a writable one; every receive slot, where
  \<^verbatim>\<open>src/firmware/udp.c\<close> looks for it, lies within the first, and every transmit slot within the second.
\<close>

theorem ethmac_slots:
  assumes "stable_origin L" "with_ethmac a" "add_etherbone_dynamic_ip L a s = (Inr (), s')"
  shows "let base = bus_origin L (snd s') ''ethmac'' in
    \<exists>rx tx. {Add_region ''ethmac'' (mem_map_ethmac L) (region_size rx + region_size tx), Add_slave ''ethmac_rx'' rx, Add_slave ''ethmac_tx'' tx}
      \<subseteq> set (snd s') \<and> read_only rx \<and> \<not> read_only tx \<and>
    region_origin rx = base \<and> region_origin tx = base + region_size rx \<and>
    (\<forall>i < rx_slots L. in_region rx (rx_slot_addr L base i) (slot_size L)) \<and>
    (\<forall>i < tx_slots L. in_region tx (tx_slot_addr L base i) (slot_size L))"
proof -
  obtain t where e: "etherbone_ethmac L a t = (Inr (), s')"
    using assms(2,3)
    by (auto simp: add_etherbone_dynamic_ip_def sx_bind_def dest: soc_error_never split: option.splits prod.splits sum.splits if_splits)
  from ethmac_calls [OF e] obtain u v cs where u: "ethmac_regions L u = (Inr (), v)" and rest: "snd s' = snd v @ cs"
    by blast
  define base where "base = bus_origin L (snd u @ [mac_region L]) ''ethmac''"
  have v: "snd v = snd u @ [mac_region L, Add_slave ''ethmac_rx'' (rx_region L base), Add_slave ''ethmac_tx'' (tx_region L base)]"
    unfolding base_def by (rule regions_added [OF assms(1) u])
  have b: "bus_origin L (snd s') ''ethmac'' = base" using rest v origin_kept [OF assms(1)] by (simp add: base_def)
  have fit: "k * i + k \<le> n * k" if "i < n" for i n k :: nat
    using mult_le_mono1 [of "Suc i" n k] that by (simp add: algebra_simps)
  have "in_region (rx_region L base) (rx_slot_addr L base i) (slot_size L)" if "i < rx_slots L" for i
    using fit [OF that] by (simp add: in_region_def rx_region_def rx_slot_addr_def)
  moreover have "in_region (tx_region L base) (tx_slot_addr L base i) (slot_size L)" if "i < tx_slots L" for i
    using fit [OF that, of "slot_size L"] by (simp add: in_region_def tx_region_def tx_slot_addr_def algebra_simps)
  ultimately show ?thesis
    using rest v unfolding b Let_def
    by (intro exI [of _ "rx_region L base"] exI [of _ "tx_region L base"]) (auto simp: rx_region_def tx_region_def mac_region_def)
qed

theorem ethmac_slots_witness:
  "let (r, w, cs) = add_etherbone_dynamic_ip idle_litex (etherbone_defaults\<lparr>eb_phy := Some idle_phy, with_ethmac := True\<rparr>) (blank_os, [])
   in r = Inr () \<and> (\<exists>tx. Add_slave ''ethmac_tx'' tx \<in> set cs \<and> in_region tx (0x80000000 + 2048 * (2 + 1)) 2048)"
proof -
  let ?a = "etherbone_defaults\<lparr>eb_phy := Some idle_phy, with_ethmac := True\<rparr>"
  have "stable_origin idle_litex" by (simp add: stable_origin_def idle_litex_def)
  moreover have "with_ethmac ?a" by simp
  moreover have "etherbone_valid ?a" by (simp add: etherbone_valid_def etherbone_defaults_def same_ip_def)
  then obtain cs where cs: "add_etherbone_dynamic_ip idle_litex ?a (blank_os, []) = (Inr (), blank_os, cs)"
    using completes_unit [OF etherbone_completes [OF idle_litex_quiet], of ?a "(blank_os, [])"] by auto
  ultimately obtain tx where "Add_slave ''ethmac_tx'' tx \<in> set cs"
      "\<forall>i < tx_slots idle_litex. in_region tx (tx_slot_addr idle_litex (bus_origin idle_litex cs ''ethmac'') i) (slot_size idle_litex)"
    using ethmac_slots [of idle_litex ?a "(blank_os, [])"] unfolding Let_def by fastforce
  then have "Add_slave ''ethmac_tx'' tx \<in> set cs \<and> in_region tx (0x80000000 + 2048 * (2 + 1)) 2048"
    by (auto simp: tx_slot_addr_def idle_litex_def dest: spec [of _ 1])
  then show ?thesis using cs by auto
qed

end
