(* ===== verification/Base_Soc.thy ===== *)
theory Base_Soc
  imports Soc
begin

text \<open>
  The target: \<^verbatim>\<open>_EbIP\<close>, the pads, \<^verbatim>\<open>_CRG\<close>'s elaboration, \<^verbatim>\<open>BaseSoC\<close> and \<^verbatim>\<open>main\<close> of \<^verbatim>\<open>src/soc/versa_soc.py\<close>, and
  \<^verbatim>\<open>B8008Core\<close> of \<^verbatim>\<open>src/soc/b8008_integration.py\<close>, over the calls of the theory \<open>Soc\<close>. The argument parser is
  LiteX's; what it returns is an argument of \<open>soc_main\<close>. How the netlist of \<^verbatim>\<open>_CRG\<close> behaves is the theory \<open>Crg\<close>.
\<close>

subsection \<open>Pads and parts\<close>

definition debug_serial_io :: pads where
  "debug_serial_io = (''debug_serial'', [(''tx'', [''B19'']), (''rx'', [''B12''])])"

definition b8008_dbg_io :: pads where
  "b8008_dbg_io =
     (''b8008_dbg'',
      [(''d'', [''E9'', ''D9'', ''B8'', ''C8'', ''D8'', ''E8'', ''C7'', ''C6'']),
       (''s0'', [''D7'']), (''s1'', [''B11'']), (''s2'', [''B6'']), (''sync'', [''E7'']),
       (''phi1'', [''E6'']), (''phi2'', [''D6'']), (''int'', [''B9''])])"

text \<open>The address register, and the address that the hardware stack uses: 240.0.0.1 while the register is zero.\<close>

definition eb_ip_csr :: "litex \<Rightarrow> unit soc_sx" where
  "eb_ip_csr L = libs L [Csr_storage ''ip'' 32 0, Add_module ''eb_ip'']"

definition eb_ip_mux :: "u32 \<Rightarrow> u32" where
  "eb_ip_mux storage = (if storage = 0 then 0xF0000001 else storage)"

text \<open>\<^verbatim>\<open>create_clkout\<close> gives a domain a reset synchronizer of its own unless it is told not to.\<close>

definition crg_elaborate :: "litex \<Rightarrow> freq \<Rightarrow> unit soc_sx" where
  "crg_elaborate L sys_clk_freq =
     libs L
       [Request ''clk100'', Request ''rst_n'',
        Add_module ''pll'',
        Pll_clkin ''clk100'' 100000000,
        Pll_clkout ''sys2x_i'' (2 * sys_clk_freq) True,
        Pll_clkout ''b8008'' 25000000 False,
        Instance_of ''ECLKSYNCB'' [(''i_ECLKI'', ''sys2x_i.clk''), (''i_STOP'', ''stop''), (''o_ECLKO'', ''sys2x.clk'')],
        Instance_of ''CLKDIVF'' [(''p_DIV'', ''2.0''), (''i_ALIGNWD'', ''0''), (''i_CLKI'', ''sys2x.clk''), (''i_RST'', ''reset''), (''o_CDIVX'', ''sys.clk'')],
        Reset_sync ''sys'',
        Reset_sync ''b8008'',
        Add_module ''crg'']"

text \<open>
  \<^verbatim>\<open>_HERE\<close> is the directory of the sources, an absolute path without a slash at its end; \<^verbatim>\<open>os.path.abspath\<close> takes the
  \<^verbatim>\<open>..\<close> out of the path of the gates.
\<close>

definition parent_dir :: "string \<Rightarrow> string" where
  "parent_dir here = rev (tl (dropWhile (\<lambda>c. c \<noteq> CHR ''/'') (rev here)))"

definition core_ports :: "(string \<times> string) list" where
  "core_ports =
     [(''i_clk'', ''b8008.clk''), (''i_rst'', ''b8008.rst''),
      (''o_uart_tx'', ''pads.rx''), (''i_uart_rx'', ''pads.tx''), (''i_ext_hold'', ''stall_b''),
      (''o_rom_addr'', ''pr.adr''), (''i_rom_data'', ''pr.dat_r''),
      (''o_dbg_d'', ''dbg.d''), (''o_dbg_s0'', ''dbg.s0''), (''o_dbg_s1'', ''dbg.s1''), (''o_dbg_s2'', ''dbg.s2''),
      (''o_dbg_sync'', ''dbg.sync''), (''o_dbg_phi1'', ''dbg.phi1''), (''o_dbg_phi2'', ''dbg.phi2''), (''o_dbg_int'', ''dbg.int'')]"

definition b8008_core :: "litex \<Rightarrow> string \<Rightarrow> freq \<Rightarrow> string \<Rightarrow> int list option \<Rightarrow> unit soc_sx" where
  "b8008_core L here sys_clk_freq core_v rom_init =
     libs L
       [Memory_of 8 4096 (rom_contents rom_init),
        Rom_port ''b8008'',
        Console_bridge sys_clk_freq,
        Add_module ''console'',
        Multi_reg ''console.stall'' ''stall_b'' ''b8008'',
        Add_source core_v,
        Add_source (parent_dir here @ ''/build/ghdl_gates.v''),
        Instance_of ''b8008_net_core'' core_ports]"

subsection \<open>The SoC\<close>

record soc_opts =
  sys_clk_freq :: freq
  device :: string
  toolchain :: string
  debug_uart :: bool
  ethmac_only :: bool
  eb_static_ip :: "string option"
  stock_hybrid :: bool
  soc_kwargs :: "string \<Rightarrow> kwval option"

definition soc_identity :: "bool \<Rightarrow> (string \<Rightarrow> kwval option) \<Rightarrow> string \<Rightarrow> kwval option" where
  "soc_identity dbg kw = kw(
     ''cpu_type'' \<mapsto> KStr ''vexriscv'', ''cpu_variant'' \<mapsto> KStr ''minimal'', ''integrated_rom_size'' \<mapsto> KNum 0x10000,
     ''integrated_sram_size'' \<mapsto> KNum 0x2000, ''uart_name'' \<mapsto> KStr (if dbg then ''debug_serial'' else ''stub''),
     ''ident'' \<mapsto> KStr ''b8008_net'', ''ident_version'' \<mapsto> KBool True)"

definition eb_address :: "string option \<Rightarrow> ip_arg" where
  "eb_address ip = (case ip of Some s \<Rightarrow> if s = [] then Dynamic eb_ip_mux else Static s | None \<Rightarrow> Dynamic eb_ip_mux)"

definition hybrid_args :: "litex \<Rightarrow> string option \<Rightarrow> etherbone_args" where
  "hybrid_args L ip = etherbone_defaults\<lparr>
     eb_phy := Some (rgmii L), mac_address := 0x10e2d5000001, ip_address := eb_address ip, data_width := 32, udp_port := 1234,
     buffer_depth := 255, with_ip_broadcast := False, with_ethmac := True, ethmac_address := 0x10e2d5000002,
     ethmac_local_ip := ''0.0.0.0'', ethmac_remote_ip := ''0.0.0.0''\<rparr>"

text \<open>The arguments not given to LiteX's own \<^verbatim>\<open>add_etherbone\<close> have the defaults of its copy.\<close>

definition stock_args :: "litex \<Rightarrow> etherbone_args" where
  "stock_args L = etherbone_defaults\<lparr>
     eb_phy := Some (rgmii L), ip_address := Static ''192.168.1.222'', mac_address := 0x10e2d5000001, udp_port := 1234,
     buffer_depth := 255, data_width := 32, with_ethmac := True, ethmac_address := 0x10e2d5000002,
     ethmac_local_ip := ''0.0.0.0'', ethmac_remote_ip := ''0.0.0.0''\<rparr>"

definition soc_base :: "litex \<Rightarrow> soc_opts \<Rightarrow> unit soc_sx" where
  "soc_base L opts =
     sx_bind (libs L [Platform (toolchain opts) (device opts), Add_extension b8008_dbg_io]) (\<lambda>_.
       sx_bind (if debug_uart opts then lib L (Add_extension debug_serial_io) else sx_return ()) (\<lambda>_.
         sx_bind (crg_elaborate L (sys_clk_freq opts)) (\<lambda>_.
           sx_bind (libs L
             [Soc_core (sys_clk_freq opts) (soc_identity (debug_uart opts) (soc_kwargs opts)),
              Request ''eth_clocks'', Request ''eth'', Phy_rgmii 0 0, Add_module ''ethphy'']) (\<lambda>_.
             eb_ip_csr L))))"

definition dbg_fields :: "string list" where
  "dbg_fields = [''d'', ''s0'', ''s1'', ''s2'', ''sync'', ''phi1'', ''phi2'', ''int'']"

definition soc_monitor :: "litex \<Rightarrow> string \<Rightarrow> soc_opts \<Rightarrow> unit soc_sx" where
  "soc_monitor L here opts =
     sx_bind (on_os (load_mem_file (here @ ''/../src/rom_baked.mem''))) (\<lambda>rom.
       sx_bind (b8008_core L here (sys_clk_freq opts) (here @ ''/../build/b8008_net_core.v'') (Some rom)) (\<lambda>_.
         sx_bind (libs L [Add_module ''b8008'', False_path [''sys'', ''b8008''], Request ''b8008_dbg'']) (\<lambda>_.
           libs L (map (\<lambda>f. Route (''dbg.'' @ f) (''b8008.dbg.'' @ f)) dbg_fields))))"

definition BaseSoC :: "litex \<Rightarrow> string \<Rightarrow> soc_opts \<Rightarrow> unit soc_sx" where
  "BaseSoC L here opts =
     sx_bind (soc_base L opts) (\<lambda>_.
       if ethmac_only opts then sx_bind (lib L Add_ethernet) (\<lambda>_. soc_monitor L here opts)
       else if stock_hybrid opts then lib L (Add_etherbone (stock_args L))
       else sx_bind (add_etherbone_dynamic_ip L (hybrid_args L (eb_static_ip opts))) (\<lambda>_. soc_monitor L here opts))"

definition soc_main :: "litex \<Rightarrow> string \<Rightarrow> soc_opts \<Rightarrow> bool \<Rightarrow> unit soc_sx" where
  "soc_main L here opts build =
     sx_bind (BaseSoC L here opts) (\<lambda>_.
       sx_bind (lib L Builder) (\<lambda>_.
         if build then lib L (Build ''versa_soc'') else sx_return ()))"

subsection \<open>What a configuration consists of\<close>

text \<open>The network stacks, the drivers of the reset of a clock domain, and the 8008 cores among the calls.\<close>

definition is_stack :: "soc_call \<Rightarrow> nat" where
  "is_stack c = (case c of Udp_ip_core _ \<Rightarrow> 1 | Add_ethernet \<Rightarrow> 1 | Add_etherbone _ \<Rightarrow> 1 | _ \<Rightarrow> 0)"

definition drives_reset :: "string \<Rightarrow> soc_call \<Rightarrow> nat" where
  "drives_reset d c =
     (case c of
        Reset_sync n \<Rightarrow> if n = d then 1 else 0
      | Pll_clkout n f with_reset \<Rightarrow> if n = d \<and> with_reset then 1 else 0
      | _ \<Rightarrow> 0)"

definition is_8008 :: "soc_call \<Rightarrow> nat" where
  "is_8008 c = (case c of Instance_of n ps \<Rightarrow> if n = ''b8008_net_core'' \<and> ps = core_ports then 1 else 0 | _ \<Rightarrow> 0)"

text \<open>A hardware stack that would answer for 0.0.0.0, with the address register at its reset value.\<close>

definition answers_zero :: "ip_arg \<Rightarrow> bool" where
  "answers_zero ip = (case ip of Static s \<Rightarrow> s = ''0.0.0.0'' | Dynamic f \<Rightarrow> f 0 = 0)"

definition zero_stack :: "soc_call \<Rightarrow> nat" where
  "zero_stack c =
     (case c of
        Udp_ip_core k \<Rightarrow> if answers_zero (core_ip k) then 1 else 0
      | Add_etherbone a \<Rightarrow> if answers_zero (ip_address a) then 1 else 0
      | _ \<Rightarrow> 0)"

lemmas weights = is_stack_def drives_reset_def is_8008_def zero_stack_def

definition has_monitor :: "soc_opts \<Rightarrow> bool" where
  "has_monitor opts \<longleftrightarrow> ethmac_only opts \<or> \<not> stock_hybrid opts"

definition monitor_calls :: "string \<Rightarrow> soc_opts \<Rightarrow> int list \<Rightarrow> soc_call list" where
  "monitor_calls here opts rom =
     [Memory_of 8 4096 (rom_contents (Some rom)), Rom_port ''b8008'', Console_bridge (sys_clk_freq opts), Add_module ''console'',
      Multi_reg ''console.stall'' ''stall_b'' ''b8008'', Add_source (here @ ''/../build/b8008_net_core.v''),
      Add_source (parent_dir here @ ''/build/ghdl_gates.v''), Instance_of ''b8008_net_core'' core_ports,
      Add_module ''b8008'', False_path [''sys'', ''b8008''], Request ''b8008_dbg''] @
     map (\<lambda>f. Route (''dbg.'' @ f) (''b8008.dbg.'' @ f)) dbg_fields"

lemma libs_Inr: "libs L cs s = (Inr x, s') \<Longrightarrow> s' = (fst s, snd s @ cs)"
proof (induction cs arbitrary: s)
  case (Cons c cs)
  have "libs L cs (fst s, snd s @ [c]) = (Inr x, s')"
    using Cons.prems by (simp add: sx_bind_def lib_def split: option.splits)
  from Cons.IH [OF this] show ?case by simp
qed simp

lemma libs_append: "libs L (as @ bs) = sx_bind (libs L as) (\<lambda>_. libs L bs)"
  by (induction as) (simp_all add: sx_bind_assoc)

lemma lib_libs: "lib L c = libs L [c]"
  by (auto simp: fun_eq_iff sx_bind_def sx_return_def lib_def split: option.splits)

lemma monitor_libs:
  "soc_monitor L here opts = sx_bind (on_os (load_mem_file (here @ ''/../src/rom_baked.mem''))) (\<lambda>rom. libs L (monitor_calls here opts rom))"
proof -
  have "monitor_calls here opts rom =
    [Memory_of 8 4096 (rom_contents (Some rom)), Rom_port ''b8008'', Console_bridge (sys_clk_freq opts), Add_module ''console'',
     Multi_reg ''console.stall'' ''stall_b'' ''b8008'', Add_source (here @ ''/../build/b8008_net_core.v''),
     Add_source (parent_dir here @ ''/build/ghdl_gates.v''), Instance_of ''b8008_net_core'' core_ports] @
    [Add_module ''b8008'', False_path [''sys'', ''b8008''], Request ''b8008_dbg''] @
    map (\<lambda>f. Route (''dbg.'' @ f) (''b8008.dbg.'' @ f)) dbg_fields" for rom
    by (simp add: monitor_calls_def)
  then show ?thesis unfolding soc_monitor_def b8008_core_def by (simp only: libs_append)
qed

lemma monitor_Inr:
  assumes "soc_monitor L here opts s = (Inr (), s')"
  shows "\<exists>rom w. load_mem_file (here @ ''/../src/rom_baked.mem'') (fst s) = (Inr rom, w) \<and> s' = (w, snd s @ monitor_calls here opts rom)"
  using assms unfolding monitor_libs
  by (auto simp: sx_bind_def [of "on_os _"] on_os_def dest!: libs_Inr split: prod.splits sum.splits)

text \<open>The part up to the network.\<close>

definition base_calls :: "soc_opts \<Rightarrow> soc_call list" where
  "base_calls opts =
     [Platform (toolchain opts) (device opts), Add_extension b8008_dbg_io] @
     (if debug_uart opts then [Add_extension debug_serial_io] else []) @
     [Request ''clk100'', Request ''rst_n'', Add_module ''pll'', Pll_clkin ''clk100'' 100000000,
      Pll_clkout ''sys2x_i'' (2 * sys_clk_freq opts) True, Pll_clkout ''b8008'' 25000000 False,
      Instance_of ''ECLKSYNCB'' [(''i_ECLKI'', ''sys2x_i.clk''), (''i_STOP'', ''stop''), (''o_ECLKO'', ''sys2x.clk'')],
      Instance_of ''CLKDIVF'' [(''p_DIV'', ''2.0''), (''i_ALIGNWD'', ''0''), (''i_CLKI'', ''sys2x.clk''), (''i_RST'', ''reset''), (''o_CDIVX'', ''sys.clk'')],
      Reset_sync ''sys'', Reset_sync ''b8008'', Add_module ''crg''] @
     [Soc_core (sys_clk_freq opts) (soc_identity (debug_uart opts) (soc_kwargs opts)),
      Request ''eth_clocks'', Request ''eth'', Phy_rgmii 0 0, Add_module ''ethphy''] @
     [Csr_storage ''ip'' 32 0, Add_module ''eb_ip'']"

lemma soc_base_calls: "soc_base L opts = libs L (base_calls opts)"
  unfolding base_calls_def libs_append soc_base_def crg_elaborate_def eb_ip_csr_def lib_libs
  by (simp del: libs.simps(2))

lemma soc_base_adds:
  "adds is_stack 0 (soc_base L opts)" "adds is_8008 0 (soc_base L opts)" "adds zero_stack 0 (soc_base L opts)"
  "adds (drives_reset ''sys'') 1 (soc_base L opts)" "adds (drives_reset ''b8008'') 1 (soc_base L opts)"
  unfolding soc_base_calls by (rule adds_libs, simp add: base_calls_def tally_def weights)+

lemma monitor_tally:
  "tally is_stack (monitor_calls here opts rom) = 0" "tally is_8008 (monitor_calls here opts rom) = 1"
  "tally zero_stack (monitor_calls here opts rom) = 0" "tally (drives_reset d) (monitor_calls here opts rom) = 0"
  by (simp_all add: monitor_calls_def dbg_fields_def tally_def weights)

lemma adds_from_start:
  assumes "adds f n m" "m (w, []) = (Inr x, s')"
  shows "fst s' = w" "tally f (snd s') = n"
proof -
  have "fst s' = fst (w, [] :: soc_call list) \<and> tally f (snd s') = tally f (snd (w, [])) + n"
    using assms unfolding adds_def by blast
  then show "fst s' = w" "tally f (snd s') = n" by (simp_all add: tally_def)
qed

lemma tally_append: "tally f (as @ bs) = tally f as + tally f bs"
  by (simp add: tally_def)

lemma eb_call_weights:
  "eb_call c \<Longrightarrow> is_stack c = 0" "eb_call c \<Longrightarrow> is_8008 c = 0" "eb_call c \<Longrightarrow> zero_stack c = 0" "eb_call c \<Longrightarrow> drives_reset d c = 0"
  by (cases c; simp add: weights)+

lemma hybrid_nonzero: "adds zero_stack 0 (add_etherbone_dynamic_ip L (hybrid_args L ip))"
proof (cases "same_ip (eb_address ip) ''0.0.0.0''")
  case True
  then have "\<not> etherbone_valid (hybrid_args L ip)" by (simp add: etherbone_valid_def hybrid_args_def)
  then show ?thesis by (auto simp: adds_def dest: etherbone_refused)
next
  case False
  then have "\<not> answers_zero (eb_address ip)"
    by (auto simp: same_ip_def answers_zero_def eb_address_def eb_ip_mux_def split: option.splits if_splits)
  then show ?thesis
    by (intro etherbone_adds) (simp_all add: eb_call_weights, simp add: zero_stack_def the_core_def hybrid_args_def)
qed

text \<open>The calls up to and with the network stack.\<close>

definition soc_network :: "litex \<Rightarrow> soc_opts \<Rightarrow> unit soc_sx" where
  "soc_network L opts = sx_bind (soc_base L opts) (\<lambda>_.
     if ethmac_only opts then lib L Add_ethernet
     else if stock_hybrid opts then lib L (Add_etherbone (stock_args L))
     else add_etherbone_dynamic_ip L (hybrid_args L (eb_static_ip opts)))"

lemma BaseSoC_phases:
  "BaseSoC L here opts = sx_bind (soc_network L opts) (\<lambda>_. if has_monitor opts then soc_monitor L here opts else sx_return ())"
  by (auto simp: BaseSoC_def soc_network_def has_monitor_def sx_bind_assoc lib_libs simp del: libs.simps(2))
    (simp add: sx_bind_assoc)

lemma network_adds:
  "adds is_stack 1 (soc_network L opts)" "adds is_8008 0 (soc_network L opts)" "adds zero_stack 0 (soc_network L opts)"
  "d \<in> {''sys'', ''b8008''} \<Longrightarrow> adds (drives_reset d) 1 (soc_network L opts)"
proof -
  let ?net = "if ethmac_only opts then lib L Add_ethernet
     else if stock_hybrid opts then lib L (Add_etherbone (stock_args L))
     else add_etherbone_dynamic_ip L (hybrid_args L (eb_static_ip opts))"
  have "adds is_stack 1 ?net" "adds is_8008 0 ?net" "adds (drives_reset d) 0 ?net" for d
    by (auto intro!: adds_lib etherbone_adds simp: eb_call_weights) (simp_all add: weights)
  moreover have "adds zero_stack 0 ?net"
    by (auto intro!: adds_lib hybrid_nonzero) (simp_all add: zero_stack_def answers_zero_def stock_args_def)
  ultimately show "adds is_stack 1 (soc_network L opts)" "adds is_8008 0 (soc_network L opts)" "adds zero_stack 0 (soc_network L opts)"
      "d \<in> {''sys'', ''b8008''} \<Longrightarrow> adds (drives_reset d) 1 (soc_network L opts)"
    using soc_base_adds [of L opts] unfolding soc_network_def by (auto intro: adds_first adds_second)
qed


definition rom_file :: "string \<Rightarrow> string" where
  "rom_file here = here @ ''/../src/rom_baked.mem''"

lemma network_completes:
  assumes "quiet_litex L" "ethmac_only opts \<or> stock_hybrid opts \<or> eb_static_ip opts \<noteq> Some ''0.0.0.0''"
  shows "completes (soc_network L opts)"
proof -
  have "etherbone_valid (hybrid_args L (eb_static_ip opts))" if "eb_static_ip opts \<noteq> Some ''0.0.0.0''"
    using that by (auto simp: etherbone_valid_def hybrid_args_def same_ip_def eb_address_def split: option.splits)
  then show ?thesis
    using assms unfolding soc_network_def soc_base_calls
    by (auto intro!: completes_bind completes_libs completes_lib etherbone_completes)
qed

lemma quiet_libs: "quiet_litex L \<Longrightarrow> libs L cs s = (Inr (), fst s, snd s @ cs)"
  using completes_unit [OF completes_libs, of L cs s] libs_Inr by (metis prod.inject)

lemma monitor_quiet:
  "quiet_litex L \<Longrightarrow> load_mem_file (here @ ''/../src/rom_baked.mem'') w = (Inr rom, w) \<Longrightarrow>
   soc_monitor L here opts (w, cs) = (Inr (), w, cs @ monitor_calls here opts rom)"
  by (simp add: monitor_libs sx_bind_def on_os_def quiet_libs)

lemma monitor_memory: "Memory_of 8 4096 (rom_contents (Some rom)) \<in> set (monitor_calls here opts rom)"
  by (simp add: monitor_calls_def)


definition demo_opts :: soc_opts where
  "demo_opts = \<lparr>sys_clk_freq = 60000000, device = ''LFE5UM5G'', toolchain = ''trellis'', debug_uart = True, ethmac_only = True,
     eb_static_ip = None, stock_hybrid = False, soc_kwargs = Map.empty\<rparr>"

definition demo_rom :: "(string \<times> byte option \<times> string) list" where
  "demo_rom = [([], Some 0x44, []), ([], Some 0x0F, [])]"

definition rom_os :: os where
  "rom_os = blank_os\<lparr>files := [rom_file ''/soc'' \<mapsto> mem_image False demo_rom]\<rparr>"

lemma rom_os_facts:
  "raises rom_os = []" "files rom_os (rom_file ''/soc'') = Some (mem_image False demo_rom)"
  "list_all (\<lambda>(l, b, r). blank l \<and> blank r) demo_rom"
  by (simp_all add: rom_os_def blank_os_def demo_rom_def blank_def)

lemma demo_rom_bytes: "mem_bytes demo_rom = [0x44, 0x0F]"
  by (simp add: demo_rom_def mem_bytes_def map_filter_simps)



end
