(* ===== verification/Spec2Isabelle.thy ===== *)
theory Spec2Isabelle
  imports Console_System Cli Selftest Lease Remote_Read Crg Base_Soc
begin

text \<open>
  A verification of \<^verbatim>\<open>remote_8008\<close>: an Intel 8008 monitor on an FPGA board that is used over the network.

  \<^bold>\<open>The program.\<close> The 8008 talks over a serial line to a console bridge in the gateware
  (\<^verbatim>\<open>src/soc/console_bridge.py\<close>), which buffers both directions and stops the 8008 when the buffer towards
  the host fills up. The bridge is wrapped with the core in \<^verbatim>\<open>src/soc/b8008_integration.py\<close> and put into a SoC with a
  RISC-V processor and an Ethernet MAC in \<^verbatim>\<open>src/soc/versa_soc.py\<close>. The processor runs the firmware (\<^verbatim>\<open>src/firmware\<close>): it
  leases an address by DHCP, then serves reads and writes of the SoC's bus in the Etherbone protocol over UDP. On the host, \<^verbatim>\<open>src/host/b8008net\<close> finds the
  board (\<^verbatim>\<open>discovery.py\<close>), starts a bridge process to it (\<^verbatim>\<open>eb_server.py\<close>), holds a lock and a connection (\<^verbatim>\<open>board.py\<close>), moves bytes
  through the console registers (\<^verbatim>\<open>console.py\<close>) and offers it as commands (\<^verbatim>\<open>cli.py\<close>). \<^verbatim>\<open>src/soc/host_selftest.py\<close> tests a
  board.

  \<^bold>\<open>How it is modelled.\<close> Python functions with effects are state-and-exception computations (\<open>sx\<close> in \<open>Prelude\<close>): what was done before an
  exception stays done. The operating system is a record (\<open>Host_Os\<close>) in which files, sockets, locks, processes, the clock and
  the exceptions that calls raise are explicit and arbitrary. Gateware is a function from registers and inputs to
  registers, one clock edge at a time. C code works on byte lists with \<open>None\<close> for an access outside a buffer (\<open>C_Mem\<close>) and
  words of 8, 16 and 32 bits that wrap as the C types do. Code that is not in the repository is a parameter, with what the program relies on as
  the assumptions of a locale: the stream FIFO (\<open>sync_fifo\<close>), the Etherbone packet classes
  (\<open>litex_codec\<close>), the client (\<open>client_frame\<close>), the reset synchronizer and the PLL (\<open>reset_parts\<close>); each is interpreted on concrete definitions.

  \<^bold>\<open>The theories and what they show.\<close>

  \<^item> \<open>Prelude\<close>, \<open>Host_Os\<close>, \<open>Inet\<close>, \<open>Csv\<close>, \<open>C_Mem\<close>: exceptions and computations, the operating system, IPv4 addresses and subnets as the Python
    library has them, the CSV reader, C memory. An address reads back as it is written, and the candidates of a sweep are exactly the hosts of the subnet.
  \<^item> \<open>Fifo\<close>, \<open>Console_Bridge\<close> (\<^verbatim>\<open>ConsoleBridge\<close>): every register and signal, as \<open>bridge_clock\<close>. The RX FIFO cannot overflow when the 8008
    sends at most 63 bytes after it is stalled; in both directions bytes pass exactly once and in order; the
    bridge refines two queues; the sticky error bits obey their law.
  \<^item> \<open>Console\<close>, \<open>Console_System\<close> (\<^verbatim>\<open>console.py\<close>): \<open>drain\<close>, \<open>send\<close>, the pump and the terminal loop, run against the clocked bridge with
    arbitrary clock cycles between the accesses. Draining and sending move exactly the bytes they report; a session delivers every key and
    every byte of output once; the terminal is restored on every exit. A lost pop datagram duplicates a byte.
  \<^item> \<open>Discovery\<close> (\<^verbatim>\<open>discovery.py\<close>): cache, names, broadcast and sweep, each equal to a reference that reads the arrivals of datagrams.
  \<^item> \<open>Board\<close> (\<^verbatim>\<open>board.py\<close>): lock, bridge process, connecting with one retry, closing. A failed connection releases everything it took, except after an interrupt; the lock is
    exclusive; the wait for the bridge is bounded.
  \<^item> \<open>Eb_Server\<close> (\<^verbatim>\<open>eb_server.py\<close>): probe and read with retries, equal to references by arrival; a read never returns the words of an
    earlier request.
  \<^item> \<open>Cli\<close> (\<^verbatim>\<open>cli.py\<close>), \<open>Selftest\<close> (\<^verbatim>\<open>host_selftest.py\<close>): the two commands with their messages, and the five checks with their polling loops.
  \<^item> \<open>Eb8008\<close>, \<open>Udp\<close>, \<open>Eb_Serve\<close>, \<open>Dhcp\<close> (the C files of the same names): the handler of a request, the network stack, the stash of one request,
    the DHCP messages. No input makes them leave their buffers; requests are executed in order; a sent datagram is accepted by the
    receiving half with its payload; messages are built and parsed as they are meant.
  \<^item> \<open>Firmware\<close>, \<open>Lease\<close> (\<^verbatim>\<open>main.c\<close>): the callbacks, the DHCP exchange and the serve loop on any sequence of received frames. They are memory-safe, a
    request on the wire is answered in one turn, and an answered exchange gives the lease.
  \<^item> \<open>Remote_Read\<close>: the host's read and the firmware together. The host gets the words of the board's bus.
  \<^item> \<open>Crg\<close> (\<^verbatim>\<open>_CRG\<close>): resets as a step relation over edges of three unrelated clocks and changes of the inputs. The 8008 leaves its reset after the console
    does, and both do, after exactly 65535 edges of the oscillator and two of their own.
  \<^item> \<open>Rom\<close>, \<open>Soc\<close>, \<open>Base_Soc\<close> (\<^verbatim>\<open>load_mem_file\<close>, \<^verbatim>\<open>add_etherbone_dynamic_ip\<close>, \<^verbatim>\<open>BaseSoC\<close>, \<^verbatim>\<open>B8008Core\<close>): elaboration as the list of the library calls it makes. Every
    configuration that elaborates is a well-formed design; the firmware's frame slots lie in the regions of the bus meant
    for them; wrong arguments are refused.

  \<^bold>\<open>Bounds and fuel.\<close> Loops of the host that wait for a deadline recurse over the arrivals or the waited time, with termination proofs. Loops that may run for
  ever (\<open>pump_loop\<close>, \<open>serve_loop\<close>, \<open>poll_loop\<close>) are partial functions whose value \<open>None\<close> is not returning; that the terminal loop returns once its
  input ends and the polling loops within their timeout is proved. The serve loop of the firmware is a function of
  the finite list of what polling the MAC returned; every finite prefix of a run is such a list, so nothing is cut off. The DHCP exchange takes a
  list of polls too, after whose end nothing is received. The retries (10 reads, 3 probes, 5 DHCP tries of 200000 polls per wait) are the
  source's numbers.

  \<^bold>\<open>Not modelled.\<close> The 8008 core in VHDL and its netlist: its CPU is in another repository; the console theories take what it sends as arbitrary.
  LiteX, LiteEth and Migen: parameters, as are the packet classes. The argparse declarations of the tools: declarative tables for a library; the functions
  they call have their results as arguments. In the firmware: console output, the PHY diagnostics and
  the loopback test at start-up, \<^verbatim>\<open>send_ping\<close>, \<^verbatim>\<open>udp_arp_resolve\<close> and the build without hardware CRC, which the production path does not use, and the
  start-up assembly. Electrical and timing behaviour: the model of the clocks has no periods, so it covers all of them, and metastability is what the
  synchronizers are assumed to remove. Tests, simulation, build rules and documents.
\<close>

end
